(* ===== verification/Prelude.thy ===== *)
theory Prelude
  imports Main
begin

text \<open>
  Shared vocabulary of the development: how a Go call ends (a value, a returned
  \<open>error\<close>, or a run-time panic), 64-bit \<open>int\<close> arithmetic, and the bounds-checked
  slice and index expressions of Go, each with the lemmas the component theories use.
  A Go \<open>string\<close> is a sequence of bytes, which is what Isabelle's \<open>string\<close>
  (a list of 8-bit characters) is; \<open>len(s)\<close> is \<open>int (length s)\<close>.
\<close>

section \<open>Lemma collections\<close>

named_theorems result_simps \<open>how sequenced results end\<close>
named_theorems wf_intros \<open>introduction rules of the well-formedness invariants\<close>
named_theorems frame_simps \<open>fields an operation leaves unchanged\<close>

named_theorems eval_simps \<open>evaluation of the library functions on literals\<close>

section \<open>Results: a value, an error, or a panic\<close>

text \<open>
  \<open>Inr v\<close> is a normal return, \<open>Inl (Err e)\<close> the return of a non-nil \<open>error\<close>,
  \<open>Inl Panic\<close> a run-time panic (index or slice out of range, nil dereference,
  division by zero), which no function of the program recovers from.
\<close>

datatype 'e fault = Err 'e | Panic

type_synonym ('e, 'a) result = "'e fault + 'a"

abbreviation Ok :: "'a \<Rightarrow> ('e, 'a) result" where "Ok \<equiv> Inr"
abbreviation fail :: "'e \<Rightarrow> ('e, 'a) result" where "fail e \<equiv> Inl (Err e)"
abbreviation panic :: "('e, 'a) result" where "panic \<equiv> Inl Panic"

fun bindR :: "('e, 'a) result \<Rightarrow> ('a \<Rightarrow> ('e, 'b) result) \<Rightarrow> ('e, 'b) result" where
  "bindR (Inl x) f = Inl x"
| "bindR (Inr a) f = f a"

lemma bindR_cong [fundef_cong]:
  "m = m' \<Longrightarrow> (\<And>a. m' = Inr a \<Longrightarrow> f a = g a) \<Longrightarrow> bindR m f = bindR m' g"
  by (cases m') auto

lemma bindR_eq_Ok [result_simps]:
  "bindR m f = Ok b \<longleftrightarrow> (\<exists>a. m = Ok a \<and> f a = Ok b)"
  by (cases m) auto

lemma bindR_eq_panic [result_simps]:
  "bindR m f = panic \<longleftrightarrow> m = panic \<or> (\<exists>a. m = Ok a \<and> f a = panic)"
  by (cases m) auto

lemma bindR_eq_fail [result_simps]:
  "bindR m f = fail e \<longleftrightarrow> m = fail e \<or> (\<exists>a. m = Ok a \<and> f a = fail e)"
  by (cases m) auto

lemma bindR_assoc: "bindR (bindR m f) g = bindR m (\<lambda>a. bindR (f a) g)"
  by (cases m) auto

lemma bindR_Ok_right [simp]: "bindR m Ok = m"
  by (cases m) auto

section \<open>Signed 64-bit integers\<close>

text \<open>Go's \<open>int\<close> and \<open>int64\<close> wrap around on overflow; \<open>wrap64\<close> reads an
  integer modulo \<open>2^64\<close> back into the signed range.\<close>

definition wrap64 :: "int \<Rightarrow> int" where
  "wrap64 x = (x + 2 ^ 63) mod 2 ^ 64 - 2 ^ 63"

definition int64 :: "int \<Rightarrow> bool" where
  "int64 x \<longleftrightarrow> - (2 ^ 63) \<le> x \<and> x < 2 ^ 63"

lemma wrap64_id: "int64 x \<Longrightarrow> wrap64 x = x"
  by (simp add: wrap64_def int64_def)

lemma int64_wrap64 [simp]: "int64 (wrap64 x)"
proof -
  have "0 \<le> (x + 2 ^ 63) mod 2 ^ 64" and "(x + 2 ^ 63) mod 2 ^ 64 < (2 ^ 64 :: int)"
    by simp_all
  then show ?thesis
    by (simp add: wrap64_def int64_def)
qed

lemma wrap64_small: "0 \<le> x \<Longrightarrow> x < 2 ^ 63 \<Longrightarrow> wrap64 x = x"
  by (rule wrap64_id) (simp add: int64_def)

text \<open>Integer division and remainder truncate towards zero and panic on a zero divisor.\<close>

definition go_div :: "int \<Rightarrow> int \<Rightarrow> ('e, int) result" where
  "go_div a b = (if b = 0 then panic else Ok (wrap64 (sgn a * sgn b * (\<bar>a\<bar> div \<bar>b\<bar>))))"

definition go_mod :: "int \<Rightarrow> int \<Rightarrow> ('e, int) result" where
  "go_mod a b = (if b = 0 then panic else Ok (sgn a * (\<bar>a\<bar> mod \<bar>b\<bar>)))"

lemma go_div_nonneg: "0 \<le> a \<Longrightarrow> 0 < b \<Longrightarrow> int64 a \<Longrightarrow> go_div a b = Ok (a div b)"
proof -
  assume a: "0 \<le> a" "0 < b" "int64 a"
  have "a div b \<le> a"
    using a zdiv_mono2[of a 1 b] by simp
  moreover have "0 \<le> a div b"
    using a by (simp add: pos_imp_zdiv_nonneg_iff)
  ultimately have "wrap64 (a div b) = a div b"
    using a by (intro wrap64_id) (simp add: int64_def)
  moreover have "sgn a * sgn b * (\<bar>a\<bar> div \<bar>b\<bar>) = a div b"
    using a by (cases "a = 0") simp_all
  ultimately show ?thesis
    using a by (simp only: go_div_def) simp
qed

lemma go_mod_nonneg: "0 \<le> a \<Longrightarrow> 0 < b \<Longrightarrow> go_mod a b = Ok (a mod b)"
  by (cases "a = 0") (simp_all add: go_mod_def)

section \<open>Slices and indexing\<close>

text \<open>\<open>s[lo:hi]\<close> panics unless \<open>0 \<le> lo \<le> hi \<le> len(s)\<close>; \<open>s[i]\<close> panics unless
  \<open>0 \<le> i < len(s)\<close>.\<close>

definition go_slice :: "'a list \<Rightarrow> int \<Rightarrow> int \<Rightarrow> ('e, 'a list) result" where
  "go_slice s lo hi =
     (if 0 \<le> lo \<and> lo \<le> hi \<and> hi \<le> int (length s)
      then Ok (take (nat (hi - lo)) (drop (nat lo) s)) else panic)"

definition at_index :: "'a list \<Rightarrow> int \<Rightarrow> ('e, 'a) result" where
  "at_index s i = (if 0 \<le> i \<and> i < int (length s) then Ok (s ! nat i) else panic)"

lemma go_slice_ok:
  "0 \<le> lo \<Longrightarrow> lo \<le> hi \<Longrightarrow> hi \<le> int (length s) \<Longrightarrow>
     go_slice s lo hi = Ok (take (nat (hi - lo)) (drop (nat lo) s))"
  by (simp add: go_slice_def)

lemma go_slice_not_fail [simp]: "go_slice s lo hi \<noteq> fail e"
  by (simp add: go_slice_def)

lemma go_slice_prefix [simp]: "go_slice (xs @ ys) 0 (int (length xs)) = Ok xs"
  by (simp add: go_slice_def)

lemma go_slice_OkD:
  "go_slice s lo hi = Ok t \<Longrightarrow>
     0 \<le> lo \<and> lo \<le> hi \<and> hi \<le> int (length s) \<and> length t = nat (hi - lo)
       \<and> t = take (nat (hi - lo)) (drop (nat lo) s)"
  by (auto simp: go_slice_def split: if_splits)

lemma at_index_ok: "0 \<le> i \<Longrightarrow> i < int (length s) \<Longrightarrow> at_index s i = Ok (s ! nat i)"
  by (simp add: at_index_def)

section \<open>Generic facts on lists and maps\<close>

lemma take_drop_split:
  "i \<le> j \<Longrightarrow> take j xs = take i xs @ take (j - i) (drop i xs)"
  by (metis le_add_diff_inverse take_add)

lemma drop_prefix_append:
  "drop n xs = ys @ zs \<Longrightarrow> drop (n + length ys) xs = zs"
  by (metis add.commute append_eq_conv_conj drop_drop)

end
