(* ===== verification/Positional.thy ===== *)
theory Positional
  imports Prelude
begin

text \<open>
  Positional numerals, the arithmetic under every number the program writes or reads as
  text or bytes: fixed-width big-endian digits (the hexadecimal bitmaps, the two- and
  three-digit length prefixes, the two-byte frame length) and minimal decimal digits
  (\<open>%d\<close>).
\<close>

section \<open>Fixed-width digits\<close>

fun to_digits :: "nat \<Rightarrow> nat \<Rightarrow> nat \<Rightarrow> nat list" where
  "to_digits b 0 n = []"
| "to_digits b (Suc k) n = to_digits b k (n div b) @ [n mod b]"

lemma to_digits_numeral [eval_simps]:
  "to_digits b (numeral k) n = to_digits b (pred_numeral k) (n div b) @ [n mod b]"
  by (simp add: numeral_eq_Suc)

definition digits_value :: "nat \<Rightarrow> nat list \<Rightarrow> nat" where
  "digits_value b ds = foldl (\<lambda>a d. a * b + d) 0 ds"

lemma digits_value_Nil [simp]: "digits_value b [] = 0"
  by (simp add: digits_value_def)

lemma digits_value_snoc [simp]: "digits_value b (ds @ [d]) = digits_value b ds * b + d"
  by (simp add: digits_value_def)

lemma length_to_digits [simp]: "length (to_digits b k n) = k"
  by (induction k arbitrary: n) auto

lemma to_digits_bound: "d \<in> set (to_digits b k n) \<Longrightarrow> 0 < b \<Longrightarrow> d < b"
  by (induction k arbitrary: n) auto

lemma digits_value_to_digits: "digits_value b (to_digits b k n) = n mod b ^ k"
proof (induction k arbitrary: n)
  case 0
  then show ?case by simp
next
  case (Suc k)
  have "digits_value b (to_digits b (Suc k) n) = (n div b) mod b ^ k * b + n mod b"
    by (simp add: Suc.IH)
  also have "\<dots> = n mod (b * b ^ k)"
    by (simp add: mod_mult2_eq)
  finally show ?case by simp
qed

lemma to_digits_digits_value:
  "length ds = k \<Longrightarrow> \<forall>d \<in> set ds. d < b \<Longrightarrow> to_digits b k (digits_value b ds) = ds"
proof (induction k arbitrary: ds)
  case 0
  then show ?case by simp
next
  case (Suc k)
  then obtain es d where ds: "ds = es @ [d]" "length es = k"
    by (metis append_butlast_last_id length_butlast length_0_conv nat.simps(3) diff_Suc_1)
  with Suc.prems have "d < b" "\<forall>e \<in> set es. e < b" by auto
  with ds Suc.IH[of es] show ?case by simp
qed

lemma digits_value_bound: "\<forall>d \<in> set ds. d < b \<Longrightarrow> digits_value b ds < b ^ length ds"
proof (induction ds rule: rev_induct)
  case Nil
  then show ?case by simp
next
  case (snoc d ds)
  then have "digits_value b ds + 1 \<le> b ^ length ds" and "d < b" by auto
  then have "(digits_value b ds + 1) * b \<le> b ^ length ds * b"
    using mult_le_mono1 by blast
  with \<open>d < b\<close> have "digits_value b ds * b + d < b ^ length ds * b"
    by (simp add: algebra_simps)
  then show ?case by (simp add: mult.commute)
qed

lemma to_digits_inj:
  assumes "to_digits b k m = to_digits b k n" and "m < b ^ k" and "n < b ^ k"
  shows "m = n"
  by (metis assms digits_value_to_digits mod_less)

section \<open>Minimal decimal digits\<close>

fun dec_digits :: "nat \<Rightarrow> nat list" where
  "dec_digits n = (if n < 10 then [n] else dec_digits (n div 10) @ [n mod 10])"

declare dec_digits.simps [simp del]

lemma dec_digits_small [simp]: "n < 10 \<Longrightarrow> dec_digits n = [n]"
  by (simp add: dec_digits.simps)

lemma dec_digits_big: "10 \<le> n \<Longrightarrow> dec_digits n = dec_digits (n div 10) @ [n mod 10]"
  by (subst dec_digits.simps) simp

lemma dec_digits_nonempty [simp]: "dec_digits n \<noteq> []"
  by (subst dec_digits.simps) simp

lemma dec_digits_value [simp]: "digits_value 10 (dec_digits n) = n"
proof (induction n rule: dec_digits.induct)
  case (1 n)
  then show ?case
    by (cases "n < 10") (simp_all add: digits_value_def dec_digits_big)
qed

lemma dec_digits_bound: "d \<in> set (dec_digits n) \<Longrightarrow> d < 10"
proof (induction n rule: dec_digits.induct)
  case (1 n)
  then show ?case
    by (cases "n < 10") (auto simp: dec_digits_big)
qed

lemma length_dec_digits: "0 < k \<Longrightarrow> n < 10 ^ k \<Longrightarrow> length (dec_digits n) \<le> k"
proof (induction n arbitrary: k rule: dec_digits.induct)
  case (1 n)
  show ?case
  proof (cases "n < 10")
    case True
    then show ?thesis using "1.prems" by simp
  next
    case False
    then have "k \<noteq> 1" using "1.prems" by auto
    then obtain j where k: "k = Suc j" and "0 < j"
      using "1.prems" by (cases k) auto
    moreover have "n div 10 < 10 ^ j"
      using "1.prems" k by (simp add: less_mult_imp_div_less mult.commute)
    ultimately have "length (dec_digits (n div 10)) \<le> j"
      using "1.IH" False by blast
    with False k show ?thesis by (simp add: dec_digits_big)
  qed
qed

lemma length_dec_digits_lower: "10 ^ k \<le> n \<Longrightarrow> k < length (dec_digits n)"
proof (induction k arbitrary: n)
  case 0
  then show ?case by simp
next
  case (Suc k)
  then have "10 ^ k \<le> n div 10" and "10 \<le> n"
    using order_trans[of 10 "10 * 10 ^ k" n] by (simp_all add: less_eq_div_iff_mult_less_eq)
  with Suc.IH[of "n div 10"] show ?case by (simp add: dec_digits_big)
qed

text \<open>Minimal digits padded with zeros to width \<open>k\<close> are the fixed-width digits.\<close>

definition pad_zeros :: "nat \<Rightarrow> nat list \<Rightarrow> nat list" where
  "pad_zeros k ds = replicate (k - length ds) 0 @ ds"

lemma to_digits_zero: "to_digits b k 0 = replicate k 0"
  by (induction k) (simp_all add: replicate_append_same)

lemma pad_dec_digits:
  assumes "0 < k" and "n < 10 ^ k"
  shows "pad_zeros k (dec_digits n) = to_digits 10 k n"
  using assms
proof (induction k arbitrary: n)
  case 0
  then show ?case by simp
next
  case (Suc k)
  show ?case
  proof (cases "n < 10")
    case True
    then show ?thesis by (simp add: pad_zeros_def to_digits_zero)
  next
    case False
    with Suc.prems have "0 < k" and "n div 10 < 10 ^ k"
      by (auto intro: Nat.gr0I simp: less_mult_imp_div_less mult.commute)
    then have "pad_zeros k (dec_digits (n div 10)) = to_digits 10 k (n div 10)"
      by (rule Suc.IH)
    with False show ?thesis by (simp add: pad_zeros_def dec_digits_big)
  qed
qed

end
