(* ===== verification/Go_Strings.thy ===== *)
theory Go_Strings
  imports Positional "HOL-Library.Word" "HOL-Library.Sublist"
begin

text \<open>
  What the program uses of Go's \<open>strconv\<close>, \<open>fmt\<close> and \<open>strings\<close>, on byte strings:
  integer parsing with its syntax and range errors, zero-padded decimal and hexadecimal
  printing, substring search, and the conversion of one byte to a string. The lemmas are
  the parse/print laws the message codec rests on.
\<close>

section \<open>Digit characters\<close>

definition digit_char :: "nat \<Rightarrow> char" where
  "digit_char d = char_of (d + 48)"

definition hex_char :: "nat \<Rightarrow> char" where
  "hex_char d = (if d < 10 then char_of (d + 48) else char_of (d + 55))"

definition char_val :: "char \<Rightarrow> nat option" where
  "char_val c =
     (let n = of_char c in
      if 48 \<le> n \<and> n \<le> 57 then Some (n - 48)
      else if 97 \<le> n \<and> n \<le> 122 then Some (n - 97 + 10)
      else if 65 \<le> n \<and> n \<le> 90 then Some (n - 65 + 10)
      else None)"

definition is_digit :: "char \<Rightarrow> bool" where
  "is_digit c \<longleftrightarrow> 48 \<le> (of_char c :: nat) \<and> (of_char c :: nat) \<le> 57"

lemma digit_char_literals [eval_simps]:
  "digit_char 0 = CHR ''0''"
  "digit_char (Suc 0) = CHR ''1''"
  "digit_char 2 = CHR ''2''"
  "digit_char 3 = CHR ''3''"
  "digit_char 4 = CHR ''4''"
  "digit_char 5 = CHR ''5''"
  "digit_char 6 = CHR ''6''"
  "digit_char 7 = CHR ''7''"
  "digit_char 8 = CHR ''8''"
  "digit_char 9 = CHR ''9''"
  by (simp_all add: digit_char_def char_of_def bit_0)

lemma hex_char_literals [eval_simps]:
  "hex_char 0 = CHR ''0''"
  "hex_char (Suc 0) = CHR ''1''"
  "hex_char 2 = CHR ''2''"
  "hex_char 3 = CHR ''3''"
  "hex_char 4 = CHR ''4''"
  "hex_char 5 = CHR ''5''"
  "hex_char 6 = CHR ''6''"
  "hex_char 7 = CHR ''7''"
  "hex_char 8 = CHR ''8''"
  "hex_char 9 = CHR ''9''"
  "hex_char 10 = CHR ''A''"
  "hex_char 11 = CHR ''B''"
  "hex_char 12 = CHR ''C''"
  "hex_char 13 = CHR ''D''"
  "hex_char 14 = CHR ''E''"
  "hex_char 15 = CHR ''F''"
  by (simp_all add: hex_char_def char_of_def bit_0)

lemma of_digit_char [simp]: "d < 10 \<Longrightarrow> of_char (digit_char d) = d + 48"
  by (simp add: digit_char_def)

lemma char_val_digit_char [simp]: "d < 10 \<Longrightarrow> char_val (digit_char d) = Some d"
  by (simp add: char_val_def)

lemma is_digit_digit_char [simp]: "d < 10 \<Longrightarrow> is_digit (digit_char d)"
  by (simp add: is_digit_def)

lemma char_val_hex_char [simp]: "d < 16 \<Longrightarrow> char_val (hex_char d) = Some d"
  by (auto simp: char_val_def hex_char_def Let_def)

lemma digit_char_val: "is_digit c \<Longrightarrow> \<exists>d < 10. c = digit_char d \<and> char_val c = Some d"
proof (intro exI [of _ "of_char c - 48 :: nat"] conjI)
  assume "is_digit c"
  then show "of_char c - 48 < (10 :: nat)"
    and "c = digit_char (of_char c - 48)"
    and "char_val c = Some (of_char c - 48)"
    by (auto simp: is_digit_def digit_char_def char_val_def)
qed

lemma digit_char_inj: "d < 10 \<Longrightarrow> e < 10 \<Longrightarrow> digit_char d = digit_char e \<longleftrightarrow> d = e"
  by (metis of_digit_char add_right_cancel)

lemma digit_char_neq [simp]:
  assumes "d < 10" and "\<not> is_digit c"
  shows "digit_char d \<noteq> c"
  using assms is_digit_digit_char by metis

lemma sign_not_digit [simp]: "\<not> is_digit (CHR ''+'')" "\<not> is_digit (CHR ''-'')"
  by (simp_all add: is_digit_def)

section \<open>strconv: ParseUint, ParseInt and Atoi\<close>

text \<open>
  The digit loop of \<open>ParseUint\<close>: each character is first checked to be a digit of the
  base, then the accumulated value against the type's maximum, so an overflow before an
  invalid character is a range error.
\<close>

datatype num_err = ErrSyntax | ErrRange

fun uint_loop :: "nat \<Rightarrow> nat \<Rightarrow> nat \<Rightarrow> string \<Rightarrow> num_err + nat" where
  "uint_loop b mx acc [] = Inr acc"
| "uint_loop b mx acc (c # cs) =
     (case char_val c of
        None \<Rightarrow> Inl ErrSyntax
      | Some d \<Rightarrow>
          if b \<le> d then Inl ErrSyntax
          else if mx < acc * b + d then Inl ErrRange
          else uint_loop b mx (acc * b + d) cs)"

definition ParseUint :: "string \<Rightarrow> nat \<Rightarrow> num_err + nat" where
  "ParseUint s base = (if s = [] then Inl ErrSyntax else uint_loop base (2 ^ 64 - 1) 0 s)"

text \<open>
  \<open>ParseInt(s, 10, 64)\<close> returns a value and an error; \<open>Atoi\<close> agrees with it on a
  64-bit platform. On a range error the value is the nearest bound of \<open>int64\<close>, on a
  syntax error 0: callers that drop the error see that value.
\<close>

definition ParseInt :: "string \<Rightarrow> int \<times> num_err option" where
  "ParseInt s =
     (if s = [] then (0, Some ErrSyntax)
      else let neg = (hd s = CHR ''-'');
               t = (if hd s = CHR ''+'' \<or> hd s = CHR ''-'' then tl s else s)
           in case ParseUint t 10 of
                Inl ErrSyntax \<Rightarrow> (0, Some ErrSyntax)
              | Inl ErrRange \<Rightarrow> (if neg then - (2 ^ 63) else 2 ^ 63 - 1, Some ErrRange)
              | Inr un \<Rightarrow>
                  if \<not> neg \<and> 2 ^ 63 \<le> un then (2 ^ 63 - 1, Some ErrRange)
                  else if neg \<and> 2 ^ 63 < un then (- (2 ^ 63), Some ErrRange)
                  else (if neg then - int un else int un, None))"

abbreviation Atoi :: "string \<Rightarrow> int \<times> num_err option" where
  "Atoi \<equiv> ParseInt"

text \<open>A string of digit characters parses to the value of its digits.\<close>

lemma uint_loop_digits:
  assumes "\<forall>d \<in> set ds. d < b \<and> char_val (f d) = Some d"
    and "foldl (\<lambda>a d. a * b + d) acc ds \<le> mx" and "0 < b"
  shows "uint_loop b mx acc (map f ds) = Inr (foldl (\<lambda>a d. a * b + d) acc ds)"
  using assms
proof (induction ds arbitrary: acc)
  case Nil
  then show ?case by simp
next
  case (Cons d ds)
  have mono: "\<And>a. a \<le> foldl (\<lambda>a d. a * b + d) a ds"
  proof (induction ds)
    case (Cons x xs)
    have "a \<le> a * b + x" for a using \<open>0 < b\<close> by (cases b) simp_all
    with Cons show ?case by (auto intro: order_trans)
  qed simp
  have "acc * b + d \<le> mx"
    using Cons.prems(2) mono[of "acc * b + d"] by simp
  with Cons show ?case by auto
qed

lemma ParseUint_digits:
  assumes "ds \<noteq> []" and "\<forall>d \<in> set ds. d < b \<and> char_val (f d) = Some d"
    and "digits_value b ds < 2 ^ 64" and "0 < b"
  shows "ParseUint (map f ds) b = Inr (digits_value b ds)"
  using assms uint_loop_digits[of ds b f 0 "2 ^ 64 - 1"]
  by (simp add: ParseUint_def digits_value_def)

lemma ParseInt_digits:
  assumes "ds \<noteq> []" and "\<forall>d \<in> set ds. d < 10" and "digits_value 10 ds < 2 ^ 63"
  shows "ParseInt (map digit_char ds) = (int (digits_value 10 ds), None)"
proof -
  obtain d es where ds: "ds = d # es" using assms(1) by (cases ds) auto
  then have "digit_char d \<noteq> CHR ''+''" "digit_char d \<noteq> CHR ''-''"
    using assms(2) by simp_all
  moreover have "ParseUint (map digit_char ds) 10 = Inr (digits_value 10 ds)"
    using assms by (intro ParseUint_digits) auto
  ultimately show ?thesis
    using assms(3) ds by (simp add: ParseInt_def Let_def)
qed

text \<open>What \<open>ParseUint\<close> accepts is a string of digits of the base, and its value is theirs.\<close>

lemma uint_loop_Inr:
  "uint_loop b mx acc s = Inr v \<Longrightarrow>
     \<exists>ds. map char_val s = map Some ds \<and> (\<forall>d \<in> set ds. d < b) \<and> length ds = length s
          \<and> v = foldl (\<lambda>a d. a * b + d) acc ds"
proof (induction s arbitrary: acc)
  case Nil
  then show ?case by simp
next
  case (Cons c cs)
  then obtain d where d: "char_val c = Some d" "d < b" "uint_loop b mx (acc * b + d) cs = Inr v"
    by (auto split: option.splits if_splits)
  from Cons.IH[OF d(3)] obtain ds where "map char_val cs = map Some ds"
    "\<forall>d \<in> set ds. d < b" "length ds = length cs" "v = foldl (\<lambda>a d. a * b + d) (acc * b + d) ds"
    by blast
  with d show ?case by (intro exI [of _ "d # ds"]) simp
qed

lemma ParseUint_Inr:
  assumes "ParseUint s b = Inr v"
  obtains ds where "map char_val s = map Some ds" "\<forall>d \<in> set ds. d < b"
    "length ds = length s" "v = digits_value b ds" "s \<noteq> []"
  using assms uint_loop_Inr[of b "2 ^ 64 - 1" 0 s v]
  by (auto simp: ParseUint_def digits_value_def split: if_splits)

lemma ParseUint_bound:
  assumes "ParseUint s b = Inr v"
  shows "v < b ^ length s"
proof -
  obtain ds where "\<forall>d \<in> set ds. d < b" "length ds = length s" "v = digits_value b ds"
    using assms by (rule ParseUint_Inr)
  then show ?thesis using digits_value_bound[of ds b] by simp
qed

text \<open>An \<open>Atoi\<close> of at most \<open>k\<close> characters is below \<open>10^k\<close> in absolute value.\<close>

lemma ParseInt_bound:
  assumes "ParseInt s = (n, None)"
  shows "\<bar>n\<bar> < 10 ^ length s"
proof -
  define t where "t = (if hd s = CHR ''+'' \<or> hd s = CHR ''-'' then tl s else s)"
  have s: "s \<noteq> []" using assms by (auto simp: ParseInt_def)
  obtain un where un: "ParseUint t 10 = Inr un" "n = int un \<or> n = - int un"
    using assms s
    by (auto simp: ParseInt_def Let_def t_def[symmetric] split: sum.splits num_err.splits if_splits)
  have "un < 10 ^ length t" using un(1) by (rule ParseUint_bound)
  also have "(10 :: nat) ^ length t \<le> 10 ^ length s"
    using s by (intro power_increasing) (auto simp: t_def)
  finally have "int un < 10 ^ length s"
    by (metis of_nat_less_iff of_nat_numeral of_nat_power)
  with un(2) show ?thesis by auto
qed

text \<open>A short text is never out of range, and its value, which is 0 on a syntax error, is
  bounded by its length, a minus sign taking one character.\<close>

lemma uint_loop_no_range:
  "(acc + 1) * b ^ length s \<le> mx + 1 \<Longrightarrow> 0 < b \<Longrightarrow> uint_loop b mx acc s \<noteq> Inl ErrRange"
proof (induction s arbitrary: acc)
  case Nil
  then show ?case by simp
next
  case (Cons c cs)
  have "(acc * b + d + 1) * b ^ length cs \<le> mx + 1" if "d < b" for d
  proof -
    have "(acc * b + d + 1) * b ^ length cs \<le> ((acc + 1) * b) * b ^ length cs"
      using that by (intro mult_le_mono1) (simp add: algebra_simps)
    also have "\<dots> = (acc + 1) * b ^ length (c # cs)" by (simp only: mult.assoc list.size power_Suc add_Suc_right add_0_right)
    finally show ?thesis using Cons.prems(1) by (rule order_trans)
  qed
  note step = this
  have "acc * b + d \<le> mx" if "d < b" for d
  proof -
    have "(acc * b + d + 1) * 1 \<le> (acc * b + d + 1) * b ^ length cs"
      using Cons.prems(2) by (intro mult_le_mono2) (simp add: Suc_leI)
    with step[OF that] show ?thesis by simp
  qed
  with step Cons.IH Cons.prems(2) show ?case
    by (auto simp: not_le leD split: option.splits)
qed

lemma ParseUint_no_range: "length s \<le> 19 \<Longrightarrow> ParseUint s 10 \<noteq> Inl ErrRange"
proof -
  assume "length s \<le> 19"
  then have "(10 :: nat) ^ length s \<le> 10 ^ 19" by (intro power_increasing) simp_all
  then show ?thesis by (auto simp: ParseUint_def uint_loop_no_range)
qed

lemma ParseInt_range:
  assumes "length s \<le> 18"
  shows "- (10 ^ (length s - 1)) < fst (ParseInt s) \<and> fst (ParseInt s) < 10 ^ length s"
proof (cases "s = []")
  case True
  then show ?thesis by (simp add: ParseInt_def)
next
  case False
  define t where "t = (if hd s = CHR ''+'' \<or> hd s = CHR ''-'' then tl s else s)"
  have t: "length t \<le> length s" by (simp add: t_def)
  show ?thesis
  proof (cases "ParseUint t 10")
    case (Inl e)
    then have "e = ErrSyntax" using ParseUint_no_range[of t] t assms by (cases e) simp_all
    with Inl False show ?thesis by (simp add: ParseInt_def t_def)
  next
    case (Inr un)
    have len: "hd s = CHR ''-'' \<Longrightarrow> length t = length s - 1" by (simp add: t_def)
    have un: "int un < 10 ^ length t"
      using ParseUint_bound[OF Inr] by (metis of_nat_less_iff of_nat_numeral of_nat_power)
    have "(10 :: int) ^ length t \<le> 10 ^ length s" "(10 :: int) ^ length s \<le> 10 ^ 18"
      using t assms by (intro power_increasing; simp)+
    with un have "int un < 10 ^ length s" "int un < 10 ^ 18" by (meson less_le_trans)+
    then have "int un < 10 ^ length s" "int un < 2 ^ 63" by simp_all
    moreover have "- (10 ^ (length s - 1)) < int un" "- int un < 10 ^ length s"
      using zero_less_power[of "10 :: int" "length s - 1"] zero_less_power[of "10 :: int" "length s"]
      by linarith+
    ultimately show ?thesis using Inr False un len by (auto simp: ParseInt_def t_def Let_def)
  qed
qed

section \<open>fmt: %d, %0nd and %016X\<close>

definition itoa :: "int \<Rightarrow> string" where
  "itoa n = (if n < 0 then CHR ''-'' # map digit_char (dec_digits (nat (- n)))
             else map digit_char (dec_digits (nat n)))"

definition fmt_0d :: "nat \<Rightarrow> int \<Rightarrow> string" where
  "fmt_0d w n =
     (if n < 0 then CHR ''-'' # map digit_char (pad_zeros (w - 1) (dec_digits (nat (- n))))
      else map digit_char (pad_zeros w (dec_digits (nat n))))"

definition fmt_016X :: "64 word \<Rightarrow> string" where
  "fmt_016X w = map hex_char (to_digits 16 16 (unat w))"

lemma length_fmt_016X [simp]: "length (fmt_016X w) = 16"
  by (simp add: fmt_016X_def)

lemma fmt_0d_digits:
  "0 < w \<Longrightarrow> 0 \<le> n \<Longrightarrow> n < 10 ^ w \<Longrightarrow> fmt_0d w n = map digit_char (to_digits 10 w (nat n))"
  by (simp add: fmt_0d_def pad_dec_digits nat_less_iff)

text \<open>Evaluation on literals, for concrete instances.\<close>

lemmas [eval_simps] =
  fmt_0d_digits fmt_016X_def char_val_def ParseUint_def ParseInt_def Let_def

lemma length_fmt_0d: "0 < w \<Longrightarrow> 0 \<le> n \<Longrightarrow> n < 10 ^ w \<Longrightarrow> length (fmt_0d w n) = w"
  by (simp add: fmt_0d_digits)

lemma length_fmt_0d_signed:
  assumes "2 \<le> w" "- (10 ^ (w - 1)) < n" "n < 10 ^ w"
  shows "length (fmt_0d w n) = w"
proof (cases "n < 0")
  case True
  with assms have "nat (- n) < 10 ^ (w - 1)" by (simp add: nat_less_iff)
  then have "pad_zeros (w - 1) (dec_digits (nat (- n))) = to_digits 10 (w - 1) (nat (- n))"
    using assms(1) by (intro pad_dec_digits) auto
  with True assms(1) show ?thesis by (simp add: fmt_0d_def)
next
  case False
  with assms show ?thesis by (intro length_fmt_0d) auto
qed

lemma fmt_0d_is_digit: "0 \<le> n \<Longrightarrow> c \<in> set (fmt_0d w n) \<Longrightarrow> is_digit c"
  by (auto simp: fmt_0d_def pad_zeros_def dest: dec_digits_bound split: if_splits)

lemma Atoi_fmt_0d:
  assumes "0 < w" "w \<le> 18" "0 \<le> n" "n < 10 ^ w"
  shows "Atoi (fmt_0d w n) = (n, None)"
proof -
  have n: "nat n < 10 ^ w" using assms by (simp add: nat_less_iff)
  have "(10 :: nat) ^ w \<le> 10 ^ 18"
    using assms(2) by (intro power_increasing) simp_all
  with n have "nat n < 10 ^ 18" by (rule less_le_trans)
  then have "nat n < 2 ^ 63" by simp
  moreover have "digits_value 10 (to_digits 10 w (nat n)) = nat n"
    using n by (simp add: digits_value_to_digits)
  moreover have "to_digits 10 w (nat n) \<noteq> []"
    using assms(1) by (metis length_to_digits list.size(3) less_irrefl)
  ultimately have "Atoi (map digit_char (to_digits 10 w (nat n))) = (int (nat n), None)"
    by (subst ParseInt_digits) (auto dest: to_digits_bound)
  with assms show ?thesis by (simp add: fmt_0d_digits)
qed

lemma fmt_0d_inj:
  assumes "0 < w" "0 \<le> m" "m < 10 ^ w" "0 \<le> n" "n < 10 ^ w" "fmt_0d w m = fmt_0d w n"
  shows "m = n"
proof -
  have "map digit_char (to_digits 10 w (nat m)) = map digit_char (to_digits 10 w (nat n))"
    using assms by (simp add: fmt_0d_digits)
  moreover have "inj_on digit_char (set (to_digits 10 w (nat m)) \<union> set (to_digits 10 w (nat n)))"
    by (auto simp: inj_on_def digit_char_inj dest!: to_digits_bound)
  ultimately have "to_digits 10 w (nat m) = to_digits 10 w (nat n)"
    by (rule map_inj_on)
  then have "nat m = nat n"
    using assms by (auto intro: to_digits_inj simp: nat_less_iff)
  with assms show ?thesis by simp
qed

lemma ParseUint_fmt_016X: "ParseUint (fmt_016X w) 16 = Inr (unat w)"
proof -
  have lt: "unat w < 2 ^ 64" using unsigned_less[of w] by simp
  then have v: "digits_value 16 (to_digits 16 16 (unat w)) = unat w"
    by (simp add: digits_value_to_digits)
  have "to_digits 16 16 (unat w) \<noteq> []"
    by (metis length_to_digits list.size(3) zero_neq_numeral)
  then show ?thesis
    using v lt unfolding fmt_016X_def
    by (subst ParseUint_digits) (auto dest: to_digits_bound)
qed

section \<open>strings: Index, Contains, HasPrefix, HasSuffix, TrimLeft, TrimRight\<close>

fun str_index :: "string \<Rightarrow> string \<Rightarrow> int" where
  "str_index [] sub = (if sub = [] then 0 else -1)"
| "str_index (c # cs) sub =
     (if prefix sub (c # cs) then 0
      else let i = str_index cs sub in if i < 0 then -1 else i + 1)"

definition str_contains :: "string \<Rightarrow> string \<Rightarrow> bool" where
  "str_contains s sub \<longleftrightarrow> 0 \<le> str_index s sub"

definition has_prefix :: "string \<Rightarrow> string \<Rightarrow> bool" where
  "has_prefix s p \<longleftrightarrow> prefix p s"

definition has_suffix :: "string \<Rightarrow> string \<Rightarrow> bool" where
  "has_suffix s p \<longleftrightarrow> suffix p s"

definition trim_left :: "char \<Rightarrow> string \<Rightarrow> string" where
  "trim_left c s = dropWhile (\<lambda>x. x = c) s"

definition trim_right :: "char \<Rightarrow> string \<Rightarrow> string" where
  "trim_right c s = rev (dropWhile (\<lambda>x. x = c) (rev s))"

lemma str_index_lower: "- 1 \<le> str_index s sub"
  by (induction s) (auto simp: Let_def)

lemma str_index_bound:
  "str_index s sub \<noteq> - 1 \<Longrightarrow>
     0 \<le> str_index s sub \<and> str_index s sub + int (length sub) \<le> int (length s)
       \<and> prefix sub (drop (nat (str_index s sub)) s)"
proof (induction s)
  case Nil
  then show ?case by (simp split: if_splits)
next
  case (Cons c cs)
  show ?case
  proof (cases "prefix sub (c # cs)")
    case True
    then show ?thesis by (auto dest: prefix_length_le)
  next
    case False
    with Cons.prems have "0 \<le> str_index cs sub"
      by (auto simp: Let_def split: if_splits)
    moreover from this have "nat (1 + str_index cs sub) = Suc (nat (str_index cs sub))"
      by simp
    ultimately show ?thesis
      using False Cons.IH by (auto simp: Let_def add.commute)
  qed
qed

text \<open>\<open>string(b)\<close> of a byte reads it as a code point and encodes that in UTF-8.\<close>

definition string_of_byte :: "char \<Rightarrow> string" where
  "string_of_byte c =
     (let n = of_char c :: nat in
      if n < 128 then [c] else [char_of (192 + n div 64), char_of (128 + n mod 64)])"

lemma string_of_byte_ascii [simp]: "(of_char c :: nat) < 128 \<Longrightarrow> string_of_byte c = [c]"
  by (simp add: string_of_byte_def)

lemma string_of_byte_digit [simp]: "is_digit c \<Longrightarrow> string_of_byte c = [c]"
  by (simp add: is_digit_def)

end
