(* ===== verification/Bit_Set.thy ===== *)
theory Bit_Set
  imports Go_Strings
begin

unbundle bit_operations_syntax

text \<open>
  \<open>iso/bit_set.go\<close>: a 64-bit bitmap whose bit 0 is the most significant one. Shift
  counts are signed in Go: \<open>63 - index\<close> negative panics, 64 or more shifts everything
  out, so an index above 63 panics and a negative one reads false and writes nothing.
\<close>

section \<open>The bitmap and its operations\<close>

record BitSet =
  data :: "64 word"

definition new_BitSet :: BitSet where
  "new_BitSet = \<lparr>data = 0\<rparr>"

definition GetBit :: "BitSet \<Rightarrow> int \<Rightarrow> ('e, bool) result" where
  "GetBit b index =
     (if 63 - index < 0 then panic
      else Ok (drop_bit (nat (63 - index)) (data b) AND 1 = 1))"

definition SetBit :: "BitSet \<Rightarrow> int \<Rightarrow> bool \<Rightarrow> ('e, BitSet) result" where
  "SetBit b index val =
     (if 63 - index < 0 then panic
      else let mask = push_bit (nat (63 - index)) (1 :: 64 word);
               d = data b AND NOT mask
           in Ok (b\<lparr>data := (if val then d OR mask else d)\<rparr>))"

definition SetString :: "BitSet \<Rightarrow> string \<Rightarrow> nat \<Rightarrow> num_err + BitSet" where
  \<comment> \<open>\<open>base\<close> is 2 to 36; the program passes 16 only\<close>
  "SetString b s base =
     (case ParseUint s base of
        Inl err \<Rightarrow> Inl err
      | Inr v \<Rightarrow> Inr (b\<lparr>data := of_nat v\<rparr>))"

definition BitLen :: "BitSet \<Rightarrow> int" where
  "BitLen b = 64"

definition ToHex :: "BitSet \<Rightarrow> string" where
  "ToHex b = fmt_016X (data b)"

section \<open>Bits by index\<close>

text \<open>\<open>has_bit b i\<close> is the value of bit \<open>i\<close>, counted from the most significant end; it
  is the abstract view every later proof works with.\<close>

definition has_bit :: "BitSet \<Rightarrow> int \<Rightarrow> bool" where
  "has_bit b i \<longleftrightarrow> bit (data b) (nat (63 - i))"

lemma GetBit_ok: "i < 64 \<Longrightarrow> GetBit b i = Ok (has_bit b i)"
  by (simp add: GetBit_def has_bit_def and_one_eq bit_iff_odd_drop_bit odd_iff_mod_2_eq_one)

lemma GetBit_panic: "63 < i \<Longrightarrow> GetBit b i = panic"
  by (simp add: GetBit_def)

lemma GetBit_negative: "i < 0 \<Longrightarrow> GetBit b i = Ok False"
  by (auto simp: GetBit_ok has_bit_def dest: bit_imp_le_length)

lemma has_bit_negative [simp]: "i < 0 \<Longrightarrow> \<not> has_bit b i"
  by (auto simp: has_bit_def dest: bit_imp_le_length)

text \<open>\<open>put_bit\<close> is the bitmap \<open>SetBit\<close> leaves when it does not panic.\<close>

definition put_bit :: "BitSet \<Rightarrow> int \<Rightarrow> bool \<Rightarrow> BitSet" where
  "put_bit b i v =
     b\<lparr>data := (if v then set_bit else unset_bit) (nat (63 - i)) (data b)\<rparr>"

lemma SetBit_ok: "i < 64 \<Longrightarrow> SetBit b i v = Ok (put_bit b i v)"
proof -
  have "x AND NOT (push_bit n 1) OR push_bit n 1 = set_bit n x"
    and "x AND NOT (push_bit n 1) = unset_bit n x" for x :: "64 word" and n
    by (auto intro!: bit_word_eqI simp: bit_simps)
  moreover assume "i < 64"
  ultimately show ?thesis
    by (simp only: SetBit_def put_bit_def Let_def) auto
qed

lemma has_bit_put_bit [simp]:
  "0 \<le> i \<Longrightarrow> i < 64 \<Longrightarrow> 0 \<le> j \<Longrightarrow> j < 64 \<Longrightarrow>
     has_bit (put_bit b i v) j = (if j = i then v else has_bit b j)"
  by (auto simp: put_bit_def has_bit_def bit_simps)

lemma has_bit_new [simp]: "\<not> has_bit new_BitSet i"
  by (simp add: new_BitSet_def has_bit_def)

lemma BitSet_eqI:
  fixes a b :: BitSet
  assumes "\<And>i. 0 \<le> i \<Longrightarrow> i < 64 \<Longrightarrow> has_bit a i = has_bit b i"
  shows "a = b"
proof -
  have "data a = data b"
  proof (rule bit_word_eqI)
    fix n
    assume n: "n < LENGTH(64)"
    then have "nat (63 - (63 - int n)) = n" by simp
    with n assms[of "63 - int n"] show "bit (data a) n = bit (data b) n"
      by (simp add: has_bit_def)
  qed
  then show ?thesis by simp
qed

section \<open>Hexadecimal text\<close>

lemma length_ToHex [simp]: "length (ToHex b) = 16"
  by (simp add: ToHex_def)

lemma SetString_ToHex: "SetString c (ToHex b) 16 = Inr b"
  by (simp add: SetString_def ToHex_def ParseUint_fmt_016X)

end
