(* ===== verification/Iso_Spec.thy ===== *)
theory Iso_Spec
  imports Go_Strings
begin

text \<open>
  \<open>iso/iso_spec.go\<close>: the field definitions of a message specification and the index
  from field number to definition that the parser looks them up in. Reading and decoding
  the JSON file is the standard library's; the decoded content is an input here.
\<close>

section \<open>Data\<close>

record FieldDef =
  FieldNo :: int
  FieldName :: string
  FieldDescription :: string
  FieldType :: string
  MinLength :: int
  MaxLength :: int

record IsoSpec =
  SpecName :: string
  FieldDefinitions :: "FieldDef list"
  FieldDefMap :: "int \<rightharpoonup> FieldDef"

text \<open>What opening and decoding a JSON file gives: an open error, a decode error, or the
  decoded value.\<close>

datatype 'a json_file = OpenFailed string | DecodeFailed string | Decoded 'a

section \<open>Loading\<close>

fun index_defs :: "FieldDef list \<Rightarrow> (int \<rightharpoonup> FieldDef) \<Rightarrow> (int \<rightharpoonup> FieldDef)" where
  "index_defs [] m = m"
| "index_defs (fieldDef # ds) m = index_defs ds (m(FieldNo fieldDef \<mapsto> fieldDef))"

definition LoadSpecsFromFile ::
    "(string \<Rightarrow> (string \<times> FieldDef list) json_file) \<Rightarrow> string \<Rightarrow> (string, IsoSpec) result" where
  "LoadSpecsFromFile fs filePath =
     (case fs filePath of
        OpenFailed _ \<Rightarrow> fail ''Unable to load spec''
      | DecodeFailed _ \<Rightarrow> panic
      | Decoded (name, defs) \<Rightarrow>
          Ok \<lparr>SpecName = name, FieldDefinitions = defs, FieldDefMap = index_defs defs Map.empty\<rparr>)"

text \<open>The index maps a number to the last definition that carries it.\<close>

lemma index_defs_map_of:
  "index_defs ds m = m ++ map_of (rev (map (\<lambda>d. (FieldNo d, d)) ds))"
  by (induction ds arbitrary: m) (auto simp: map_add_def fun_eq_iff split: option.splits)

lemma index_defs_SomeD:
  "index_defs ds Map.empty n = Some d \<Longrightarrow> d \<in> set ds \<and> FieldNo d = n"
  by (auto simp: index_defs_map_of dest!: map_of_SomeD)

lemma index_defs_dom: "dom (index_defs ds Map.empty) = FieldNo ` set ds"
  by (auto simp: index_defs_map_of dom_map_of_conv_image_fst image_iff)

lemma index_defs_unique:
  assumes "distinct (map FieldNo ds)" and "d \<in> set ds"
  shows "index_defs ds Map.empty (FieldNo d) = Some d"
proof -
  let ?kv = "rev (map (\<lambda>d. (FieldNo d, d)) ds)"
  have "map fst ?kv = rev (map FieldNo ds)" by (simp add: rev_map comp_def)
  then have "distinct (map fst ?kv)" using assms(1) by simp
  moreover have "(FieldNo d, d) \<in> set ?kv" using assms(2) by auto
  ultimately show ?thesis by (simp add: index_defs_map_of map_of_is_SomeI)
qed

section \<open>Field lengths that keep the parser's offsets in range\<close>

text \<open>The parser adds a fixed field's \<open>min_length\<close> to an offset in 64-bit arithmetic. A
  specification is sane when no such length is so large that the sum can wrap around.\<close>

definition sane_lengths :: "IsoSpec \<Rightarrow> bool" where
  "sane_lengths spec \<longleftrightarrow> (\<forall>n fd. FieldDefMap spec n = Some fd \<longrightarrow> MinLength fd < 2 ^ 62)"

lemma sane_lengthsD: "sane_lengths spec \<Longrightarrow> FieldDefMap spec n = Some fd \<Longrightarrow> MinLength fd < 2 ^ 62"
  by (simp add: sane_lengths_def)

text \<open>For an indexed list it is a check over the definitions.\<close>

lemma sane_lengths_indexed:
  "FieldDefMap spec = index_defs ds Map.empty \<Longrightarrow> \<forall>d \<in> set ds. MinLength d < 2 ^ 62 \<Longrightarrow> sane_lengths spec"
  by (auto simp: sane_lengths_def dest!: index_defs_SomeD)

end
