(* ===== verification/Codec.thy ===== *)
theory Codec
  imports Go_Strings
begin

text \<open>
  The contract of a self-delimiting encoding: an encoded item, followed by anything, decodes
  to itself and leaves what follows. The message body (one item per bitmap bit) and the
  socket stream (one item per frame) are both sequences of such items, and both get their
  sequence round trip and unique decodability from here.
\<close>

section \<open>Decoding a sequence of items\<close>

fun decode_seq :: "('k \<Rightarrow> string \<Rightarrow> ('v \<times> string) option) \<Rightarrow> 'k list \<Rightarrow> string \<Rightarrow> ('v list \<times> string) option" where
  "decode_seq dec [] s = Some ([], s)"
| "decode_seq dec (k # ks) s =
     (case dec k s of
        None \<Rightarrow> None
      | Some (v, s') \<Rightarrow>
          (case decode_seq dec ks s' of None \<Rightarrow> None | Some (vs, r) \<Rightarrow> Some (v # vs, r)))"

definition encode_seq :: "('k \<Rightarrow> 'v \<Rightarrow> string) \<Rightarrow> ('k \<times> 'v) list \<Rightarrow> string" where
  "encode_seq enc kvs = concat (map (\<lambda>(k, v). enc k v) kvs)"

lemma encode_seq_simps [simp]:
  "encode_seq enc [] = []"
  "encode_seq enc ((k, v) # kvs) = enc k v @ encode_seq enc kvs"
  by (simp_all add: encode_seq_def)

lemma decode_seq_length: "decode_seq dec ks s = Some (vs, r) \<Longrightarrow> length vs = length ks"
  by (induction ks arbitrary: s vs) (auto split: option.splits)

section \<open>The interface\<close>

locale prefix_codec =
  fixes enc :: "'k \<Rightarrow> 'v \<Rightarrow> string"
    and dec :: "'k \<Rightarrow> string \<Rightarrow> ('v \<times> string) option"
    and valid :: "'k \<Rightarrow> 'v \<Rightarrow> bool"
  assumes dec_enc: "valid k v \<Longrightarrow> dec k (enc k v @ rest) = Some (v, rest)"
begin

lemma decode_encode_seq:
  "\<forall>(k, v) \<in> set kvs. valid k v \<Longrightarrow>
     decode_seq dec (map fst kvs) (encode_seq enc kvs @ rest) = Some (map snd kvs, rest)"
proof (induction kvs)
  case Nil
  then show ?case by simp
next
  case (Cons kv kvs)
  obtain k v where kv: "kv = (k, v)" by (cases kv)
  with Cons have "valid k v" and "decode_seq dec (map fst kvs) (encode_seq enc kvs @ rest) = Some (map snd kvs, rest)"
    by simp_all
  with kv show ?case by (simp add: dec_enc)
qed

lemma enc_inj:
  assumes "valid k v" "valid k w" "enc k v @ r = enc k w @ q"
  shows "v = w \<and> r = q"
proof -
  have "Some (v, r) = Some (w, q)"
    by (simp only: dec_enc[OF assms(1), symmetric] dec_enc[OF assms(2), symmetric] assms(3))
  then show ?thesis by simp
qed

end

text \<open>An exact codec also accepts nothing but encodings.\<close>

locale exact_codec = prefix_codec enc dec valid
  for enc :: "'k \<Rightarrow> 'v \<Rightarrow> string" and dec :: "'k \<Rightarrow> string \<Rightarrow> ('v \<times> string) option"
    and valid :: "'k \<Rightarrow> 'v \<Rightarrow> bool" +
  assumes dec_exact: "dec k s = Some (v, rest) \<Longrightarrow> valid k v \<and> s = enc k v @ rest"
begin

lemma dec_iff: "dec k s = Some (v, rest) \<longleftrightarrow> valid k v \<and> s = enc k v @ rest"
  using dec_enc dec_exact by auto

lemma decode_seq_exact:
  "decode_seq dec ks s = Some (vs, rest) \<Longrightarrow>
     (\<forall>(k, v) \<in> set (zip ks vs). valid k v) \<and> s = encode_seq enc (zip ks vs) @ rest"
proof (induction ks arbitrary: s vs)
  case Nil
  then show ?case by simp
next
  case (Cons k ks)
  then obtain v s' ws where v: "dec k s = Some (v, s')" and vs: "vs = v # ws"
    and d: "decode_seq dec ks s' = Some (ws, rest)"
    by (auto split: option.splits)
  from Cons.IH[OF d] dec_exact[OF v] vs show ?case by simp
qed

end

end
