(* ===== verification/Iso_Message.thy ===== *)
theory Iso_Message
  imports Bit_Set Iso_Spec Codec
begin

text \<open>
  \<open>iso/iso_messages.go\<close>: the ISO 8583 message, its parser and its printers. The parser
  keeps Go's cursor and its 64-bit bounds check; the printers keep the loops over field
  indices. A pointer to a bitmap that may be nil is an option.
\<close>

section \<open>The message\<close>

record Iso8583Message =
  message :: string
  primaryBitMap :: BitSet
  secondaryBitMap :: "BitSet option"
  msg_fields :: "int \<rightharpoonup> string"
  isoSpec :: IsoSpec

datatype part = MTI | PrimaryBitmap | SecondaryBitmap | FieldLength int | FieldValue int

datatype iso_error =
    TooShort part int int
  | InvalidPrimary string
  | InvalidSecondary string
  | NotInSpec int
  | UnknownType int string
  | InvalidLength int string

section \<open>NewIso8583Message\<close>

text \<open>The closure \<open>take\<close>: the next \<open>n\<close> bytes and the advanced cursor, or \<open>None\<close> for
  \<open>"", false\<close>. The sum is a 64-bit one, and the slice panics if it wrapped.\<close>

definition take_next :: "string \<Rightarrow> int \<Rightarrow> int \<Rightarrow> ('e, (string \<times> int) option) result" where
  "take_next msg currIndex n =
     (if n < 0 \<or> int (length msg) < wrap64 (currIndex + n) then Ok None
      else bindR (go_slice msg currIndex (wrap64 (currIndex + n)))
             (\<lambda>value. Ok (Some (value, wrap64 (currIndex + n)))))"

text \<open>\<open>take\<close> followed by the \<open>tooShort\<close> error the callers return when it fails.\<close>

definition take_or_short :: "string \<Rightarrow> part \<Rightarrow> int \<Rightarrow> int \<Rightarrow> (iso_error, string \<times> int) result" where
  "take_or_short msg what currIndex n =
     bindR (take_next msg currIndex n)
       (\<lambda>r. case r of
              None \<Rightarrow> fail (TooShort what currIndex (int (length msg)))
            | Some p \<Rightarrow> Ok p)"

definition parseVar :: "string \<Rightarrow> int \<Rightarrow> int \<Rightarrow> int \<Rightarrow> (iso_error, string \<times> int) result" where
  "parseVar msg fieldNo lengthDigits currIndex =
     bindR (take_or_short msg (FieldLength fieldNo) currIndex lengthDigits)
       (\<lambda>(lengthStr, cur).
          case Atoi lengthStr of
            (_, Some _) \<Rightarrow> fail (InvalidLength fieldNo lengthStr)
          | (len, None) \<Rightarrow> take_or_short msg (FieldValue fieldNo) cur len)"

definition parseMessage :: "IsoSpec \<Rightarrow> string \<Rightarrow> int \<Rightarrow> int \<Rightarrow> (iso_error, string \<times> int) result" where
  "parseMessage specRef msg ind currIndex =
     (let fieldNo = ind + 1 in
      case FieldDefMap specRef fieldNo of
        None \<Rightarrow> fail (NotInSpec fieldNo)
      | Some fieldDef \<Rightarrow>
          if FieldType fieldDef = ''Fixed'' then
            take_or_short msg (FieldValue fieldNo) currIndex (MinLength fieldDef)
          else if FieldType fieldDef = ''LLVar'' then parseVar msg fieldNo 2 currIndex
          else if FieldType fieldDef = ''LLLVar'' then parseVar msg fieldNo 3 currIndex
          else fail (UnknownType fieldNo (FieldType fieldDef)))"

text \<open>One of the two loops over bitmap bits: \<open>base\<close> is 0 for the primary bitmap and 64 for
  the secondary one.\<close>

fun parseLoop :: "IsoSpec \<Rightarrow> string \<Rightarrow> BitSet \<Rightarrow> int \<Rightarrow> int list \<Rightarrow> int \<times> (int \<rightharpoonup> string)
    \<Rightarrow> (iso_error, int \<times> (int \<rightharpoonup> string)) result" where
  "parseLoop specRef msg bm base [] st = Ok st"
| "parseLoop specRef msg bm base (ind # inds) (cur, flds) =
     bindR (GetBit bm ind)
       (\<lambda>b. if b then
              bindR (parseMessage specRef msg (base + ind) cur)
                (\<lambda>(retVal, cur'). parseLoop specRef msg bm base inds (cur', flds(base + ind \<mapsto> retVal)))
            else parseLoop specRef msg bm base inds (cur, flds))"

definition parseSecondary :: "string \<Rightarrow> BitSet \<Rightarrow> int \<Rightarrow> (iso_error, BitSet option \<times> int) result" where
  "parseSecondary msg primaryBM currIndex =
     bindR (GetBit primaryBM 0)
       (\<lambda>b. if b then
              bindR (take_or_short msg SecondaryBitmap currIndex 16)
                (\<lambda>(secondary, cur).
                   case SetString new_BitSet secondary 16 of
                     Inl _ \<Rightarrow> fail (InvalidSecondary secondary)
                   | Inr sb \<Rightarrow> Ok (Some sb, cur))
            else Ok (None, currIndex))"

definition parseFields :: "IsoSpec \<Rightarrow> string \<Rightarrow> BitSet \<Rightarrow> BitSet option \<Rightarrow> int
    \<Rightarrow> (iso_error, int \<times> (int \<rightharpoonup> string)) result" where
  "parseFields specRef msg pb sec currIndex =
     bindR (parseLoop specRef msg pb 0 [1..BitLen pb - 1] (currIndex, Map.empty))
       (\<lambda>st. case sec of
               None \<Rightarrow> Ok st
             | Some sb \<Rightarrow> parseLoop specRef msg sb 64 [0..BitLen sb - 1] st)"

definition NewIso8583Message :: "string \<Rightarrow> IsoSpec \<Rightarrow> (iso_error, Iso8583Message) result" where
  "NewIso8583Message msg specRef =
     bindR (take_or_short msg MTI 0 4) (\<lambda>(_, c1).
     bindR (take_or_short msg PrimaryBitmap c1 16) (\<lambda>(primary, c2).
     case SetString new_BitSet primary 16 of
       Inl _ \<Rightarrow> fail (InvalidPrimary primary)
     | Inr pb \<Rightarrow>
         bindR (parseSecondary msg pb c2) (\<lambda>(sec, c3).
         bindR (parseFields specRef msg pb sec c3) (\<lambda>(_, flds).
         Ok \<lparr>message = msg, primaryBitMap = pb, secondaryBitMap = sec,
             msg_fields = flds, isoSpec = specRef\<rparr>))))"

section \<open>Accessors\<close>

definition GetMTI :: "Iso8583Message \<Rightarrow> ('e, string) result" where
  "GetMTI m = go_slice (message m) 0 4"

definition SetField :: "Iso8583Message \<Rightarrow> int \<Rightarrow> string \<Rightarrow> Iso8583Message" where
  "SetField m fieldNum value = m\<lparr>msg_fields := (msg_fields m)(fieldNum \<mapsto> value)\<rparr>"

definition GetField :: "Iso8583Message \<Rightarrow> int \<Rightarrow> string" where
  "GetField m fieldNum = (case msg_fields m fieldNum of None \<Rightarrow> [] | Some v \<Rightarrow> v)"

definition NewResponseMessage :: "Iso8583Message \<Rightarrow> string \<Rightarrow> ('e, Iso8583Message) result" where
  "NewResponseMessage req responseMTI =
     bindR (go_slice (message req) 4 (int (length (message req))))
       (\<lambda>body. Ok \<lparr>message = responseMTI @ body,
                   primaryBitMap = \<lparr>data = data (primaryBitMap req)\<rparr>,
                   secondaryBitMap = map_option (\<lambda>b. \<lparr>data = data b\<rparr>) (secondaryBitMap req),
                   msg_fields = msg_fields req,
                   isoSpec = isoSpec req\<rparr>)"

definition MarkField :: "Iso8583Message \<Rightarrow> int \<Rightarrow> ('e, Iso8583Message) result" where
  "MarkField m fieldIdx =
     (if fieldIdx < 64 then
        bindR (SetBit (primaryBitMap m) fieldIdx True) (\<lambda>p. Ok (m\<lparr>primaryBitMap := p\<rparr>))
      else
        bindR (SetBit (primaryBitMap m) 0 True) (\<lambda>p.
        let sb = (case secondaryBitMap m of None \<Rightarrow> new_BitSet | Some b \<Rightarrow> b) in
        bindR (SetBit sb (fieldIdx - 64) True) (\<lambda>s.
        Ok (m\<lparr>primaryBitMap := p, secondaryBitMap := Some s\<rparr>))))"

section \<open>FormatIso and FormatPrint\<close>

definition format_value :: "IsoSpec \<Rightarrow> int \<Rightarrow> string \<Rightarrow> string" where
  "format_value spec field val =
     (case FieldDefMap spec (field + 1) of
        None \<Rightarrow> []
      | Some fieldSpec \<Rightarrow>
          if FieldType fieldSpec = ''Fixed'' then val
          else if FieldType fieldSpec = ''LLVar'' then fmt_0d 2 (int (length val)) @ val
          else if FieldType fieldSpec = ''LLLVar'' then fmt_0d 3 (int (length val)) @ val
          else [])"

fun format_fields :: "IsoSpec \<Rightarrow> (int \<rightharpoonup> string) \<Rightarrow> int list \<Rightarrow> string" where
  "format_fields spec flds [] = []"
| "format_fields spec flds (field # fs) =
     (case flds field of None \<Rightarrow> [] | Some val \<Rightarrow> format_value spec field val)
     @ format_fields spec flds fs"

definition FormatIso :: "Iso8583Message \<Rightarrow> ('e, string) result" where
  "FormatIso m =
     bindR (GetMTI m) (\<lambda>mti.
     bindR (GetBit (primaryBitMap m) 0) (\<lambda>b.
     if b then
       (case secondaryBitMap m of
          None \<Rightarrow> panic
        | Some sb \<Rightarrow> Ok (mti @ ToHex (primaryBitMap m) @ ToHex sb
                        @ format_fields (isoSpec m) (msg_fields m) [1..127]))
     else Ok (mti @ ToHex (primaryBitMap m) @ format_fields (isoSpec m) (msg_fields m) [1..63])))"

fun print_fields :: "(int \<rightharpoonup> string) \<Rightarrow> int list \<Rightarrow> string" where
  "print_fields flds [] = []"
| "print_fields flds (field # fs) =
     (case flds field of
        None \<Rightarrow> []
      | Some val \<Rightarrow> CHR 0x0A # ''DE['' @ itoa (field + 1) @ ''] : '' @ val)
     @ print_fields flds fs"

definition FormatPrint :: "Iso8583Message \<Rightarrow> ('e, string) result" where
  "FormatPrint m =
     bindR (go_slice (message m) 0 4) (\<lambda>mti.
     bindR (GetBit (primaryBitMap m) 0) (\<lambda>b.
     let top = ''MTI : '' @ mti @ CHR 0x0A # ''PrimaryBitMap : '' @ ToHex (primaryBitMap m) in
     if b then
       (case secondaryBitMap m of
          None \<Rightarrow> panic
        | Some sb \<Rightarrow> Ok (top @ CHR 0x0A # ''SecondaryBitMap : '' @ ToHex sb
                        @ print_fields (msg_fields m) [0..127]))
     else Ok (top @ print_fields (msg_fields m) [0..63])))"

end
