(* ===== verification/Iso_Codec.thy ===== *)
theory Iso_Codec
  imports Iso_Message
begin

text \<open>
  The wire grammar of \<open>iso/iso_messages.go\<close> and its correctness. The parser with its 64-bit
  cursor refines a grammar on the remaining input; the grammar inverts the printer field by
  field; whole messages round-trip, parsed messages are well-formed, and no input panics under
  a specification with sane lengths.
\<close>

section \<open>The value rules of the specification\<close>

definition value_ok :: "IsoSpec \<Rightarrow> int \<Rightarrow> string \<Rightarrow> bool" where
  "value_ok spec field v =
     (case FieldDefMap spec (field + 1) of
        None \<Rightarrow> False
      | Some fd \<Rightarrow>
          if FieldType fd = ''Fixed'' then int (length v) = MinLength fd
          else if FieldType fd = ''LLVar'' then length v < 100
          else if FieldType fd = ''LLLVar'' then length v < 1000
          else False)"

section \<open>The grammar of a message body, on remaining input\<close>

definition take_str :: "int \<Rightarrow> string \<Rightarrow> (string \<times> string) option" where
  "take_str n s =
     (if n < 0 \<or> int (length s) < n then None else Some (take (nat n) s, drop (nat n) s))"

definition decode_var :: "int \<Rightarrow> string \<Rightarrow> (string \<times> string) option" where
  "decode_var k s =
     (case take_str k s of
        None \<Rightarrow> None
      | Some (ls, s') \<Rightarrow>
          (case Atoi ls of (_, Some _) \<Rightarrow> None | (len, None) \<Rightarrow> take_str len s'))"

definition decode_field :: "IsoSpec \<Rightarrow> int \<Rightarrow> string \<Rightarrow> (string \<times> string) option" where
  "decode_field spec ind s =
     (case FieldDefMap spec (ind + 1) of
        None \<Rightarrow> None
      | Some fd \<Rightarrow>
          if FieldType fd = ''Fixed'' then take_str (MinLength fd) s
          else if FieldType fd = ''LLVar'' then decode_var 2 s
          else if FieldType fd = ''LLLVar'' then decode_var 3 s
          else None)"

lemma take_str_append [simp]: "take_str (int (length v)) (v @ r) = Some (v, r)"
  by (simp add: take_str_def)

lemma take_str_Some:
  "take_str n s = Some (v, r) \<longleftrightarrow> 0 \<le> n \<and> int (length v) = n \<and> s = v @ r"
  by (auto simp: take_str_def min_def)

lemma decode_var_encoded:
  assumes "0 < k" "k \<le> 18" "length v < 10 ^ k"
  shows "decode_var (int k) (fmt_0d k (int (length v)) @ v @ r) = Some (v, r)"
proof -
  have lt: "int (length v) < 10 ^ k"
    using assms(3) by (metis of_nat_less_iff of_nat_numeral of_nat_power)
  then have len: "length (fmt_0d k (int (length v))) = k"
    using assms by (simp add: length_fmt_0d)
  have "take_str (int k) (fmt_0d k (int (length v)) @ v @ r) = Some (fmt_0d k (int (length v)), v @ r)"
    using take_str_append[of "fmt_0d k (int (length v))" "v @ r"] len by simp
  then show ?thesis
    using Atoi_fmt_0d[OF assms(1,2) _ lt] by (simp add: decode_var_def)
qed

interpretation field_code: prefix_codec "format_value spec" "decode_field spec" "value_ok spec" for spec
proof
  fix k v rest
  assume "value_ok spec k v"
  then show "decode_field spec k (format_value spec k v @ rest) = Some (v, rest)"
    using decode_var_encoded[of 2 v rest] decode_var_encoded[of 3 v rest]
    by (auto simp: value_ok_def decode_field_def format_value_def take_str_Some
             split: option.splits if_splits)
qed

text \<open>What the grammar accepts satisfies the value rules.\<close>

lemma decode_var_bound: "decode_var k s = Some (v, r) \<Longrightarrow> 0 \<le> k \<and> length v < 10 ^ nat k"
proof -
  assume "decode_var k s = Some (v, r)"
  then obtain ls s' len where 1: "take_str k s = Some (ls, s')" "Atoi ls = (len, None)"
    "take_str len s' = Some (v, r)"
    by (auto simp: decode_var_def split: option.splits prod.splits)
  then have "\<bar>len\<bar> < 10 ^ length ls" by (simp add: ParseInt_bound)
  moreover have "length ls = nat k" "0 \<le> k" "int (length v) = len"
    using 1 by (auto simp: take_str_Some)
  ultimately show ?thesis
    by (metis abs_of_nat of_nat_less_iff of_nat_numeral of_nat_power)
qed

lemma decode_field_value_ok: "decode_field spec k s = Some (v, r) \<Longrightarrow> value_ok spec k v"
  by (auto simp: decode_field_def value_ok_def take_str_Some dest: decode_var_bound
           split: option.splits if_splits)

lemma decode_field_shrinks: "decode_field spec k s = Some (v, r) \<Longrightarrow> suffix r s"
  by (auto simp: decode_field_def decode_var_def take_str_Some suffix_def
           split: option.splits if_splits prod.splits)

section \<open>The cursor parser refines the grammar\<close>

text \<open>Messages are far shorter than \<open>2^62\<close> bytes, so under sane lengths no sum of a cursor
  and a length wraps.\<close>

definition short :: "string \<Rightarrow> bool" where
  "short msg \<longleftrightarrow> int (length msg) < 2 ^ 62"

definition in_range :: "string \<Rightarrow> int \<Rightarrow> bool" where
  "in_range msg cur \<longleftrightarrow> 0 \<le> cur \<and> cur \<le> int (length msg)"

text \<open>\<open>refines msg cur r d\<close>: from cursor \<open>cur\<close>, the Go-level result \<open>r\<close> is an error exactly
  when the grammar rejects the remaining input, and otherwise returns the grammar's value
  with the cursor before the grammar's remaining input.\<close>

fun refines :: "string \<Rightarrow> int \<Rightarrow> (iso_error, 'v \<times> int) result \<Rightarrow> ('v \<times> string) option \<Rightarrow> bool" where
  "refines msg cur r None \<longleftrightarrow> (\<exists>e. r = fail e)"
| "refines msg cur r (Some (v, rest)) \<longleftrightarrow>
     (\<exists>cur'. r = Ok (v, cur') \<and> cur \<le> cur' \<and> in_range msg cur' \<and> rest = drop (nat cur') msg)"

lemma refinesE [consumes 1, case_names error parsed]:
  assumes "refines msg cur r d"
  obtains e where "r = fail e" "d = None"
  | v c where "r = Ok (v, c)" "d = Some (v, drop (nat c) msg)" "cur \<le> c" "in_range msg c"
  using assms by (cases d) auto

lemma take_or_short_refines:
  assumes "short msg" "in_range msg cur" "n < 2 ^ 62"
  shows "refines msg cur (take_or_short msg what cur n) (take_str n (drop (nat cur) msg))"
proof (cases "n < 0 \<or> int (length msg) < cur + n")
  case True
  with assms show ?thesis
    by (auto simp: take_or_short_def take_next_def take_str_def in_range_def short_def wrap64_small)
next
  case False
  with assms have w: "wrap64 (cur + n) = cur + n"
    by (intro wrap64_small) (auto simp: in_range_def short_def)
  with False assms show ?thesis
    by (auto simp: take_or_short_def take_next_def take_str_def in_range_def go_slice_def
          nat_add_distrib add.commute)
qed

lemma parseVar_refines:
  assumes "short msg" "in_range msg cur" "0 \<le> k" "k \<le> 3"
  shows "refines msg cur (parseVar msg no k cur) (decode_var k (drop (nat cur) msg))"
proof -
  have "refines msg cur (take_or_short msg (FieldLength no) cur k) (take_str k (drop (nat cur) msg))"
    using assms by (intro take_or_short_refines) simp_all
  then show ?thesis
  proof (cases rule: refinesE)
    case error
    then show ?thesis by (simp add: parseVar_def decode_var_def)
  next
    case (parsed ls c)
    obtain len err where a: "Atoi ls = (len, err)" by (cases "Atoi ls")
    show ?thesis
    proof (cases err)
      case None
      have "\<bar>len\<bar> < 10 ^ length ls" using a None by (simp add: ParseInt_bound)
      also have "(10 :: int) ^ length ls \<le> 10 ^ 3"
        using parsed(2) assms(3,4) by (intro power_increasing) (auto simp: take_str_Some)
      finally have "len < 2 ^ 62" by simp
      with assms(1) parsed(4)
      have "refines msg c (take_or_short msg (FieldValue no) c len) (take_str len (drop (nat c) msg))"
        by (rule take_or_short_refines)
      then show ?thesis
        using parsed a None by (cases rule: refinesE) (auto simp: parseVar_def decode_var_def)
    next
      case (Some e)
      with parsed a show ?thesis by (simp add: parseVar_def decode_var_def)
    qed
  qed
qed

lemma parseMessage_refines:
  assumes "short msg" "in_range msg cur" "sane_lengths spec"
  shows "refines msg cur (parseMessage spec msg ind cur) (decode_field spec ind (drop (nat cur) msg))"
proof (cases "FieldDefMap spec (ind + 1)")
  case None
  then show ?thesis by (simp add: parseMessage_def decode_field_def Let_def)
next
  case (Some fd)
  then have "MinLength fd < 2 ^ 62" using assms(3) by (rule sane_lengthsD[rotated])
  with Some assms show ?thesis
    by (auto simp: parseMessage_def decode_field_def Let_def
             intro: take_or_short_refines parseVar_refines)
qed

section \<open>The two bitmap loops\<close>

definition present :: "BitSet \<Rightarrow> int \<Rightarrow> int list \<Rightarrow> int list" where
  "present bm base inds = map (\<lambda>i. base + i) (filter (has_bit bm) inds)"

text \<open>The field indices a message carries, in wire order.\<close>

definition field_keys :: "BitSet \<Rightarrow> BitSet option \<Rightarrow> int list" where
  "field_keys pb sec =
     present pb 0 [1..63] @ (case sec of None \<Rightarrow> [] | Some sb \<Rightarrow> present sb 64 [0..63])"

lemma present_Cons:
  "present bm base (i # is) = (if has_bit bm i then (base + i) # present bm base is else present bm base is)"
  by (simp add: present_def)

lemma set_present: "set (present bm base inds) = {base + i | i. i \<in> set inds \<and> has_bit bm i}"
  by (auto simp: present_def)

definition loop_refines ::
    "string \<Rightarrow> int \<Rightarrow> (int \<rightharpoonup> string) \<Rightarrow> int list \<Rightarrow> (iso_error, int \<times> (int \<rightharpoonup> string)) result
     \<Rightarrow> (string list \<times> string) option \<Rightarrow> bool" where
  "loop_refines msg cur flds ks r d =
     (case d of
        None \<Rightarrow> \<exists>e. r = fail e
      | Some (vs, rest) \<Rightarrow>
          \<exists>cur'. r = Ok (cur', flds(ks [\<mapsto>] vs)) \<and> cur \<le> cur' \<and> in_range msg cur'
                 \<and> rest = drop (nat cur') msg)"

lemma loop_refinesE [consumes 1, case_names error parsed]:
  assumes "loop_refines msg cur flds ks r d"
  obtains e where "r = fail e" "d = None"
  | vs c where "r = Ok (c, flds(ks [\<mapsto>] vs))" "d = Some (vs, drop (nat c) msg)" "cur \<le> c" "in_range msg c"
  using assms by (auto simp: loop_refines_def split: option.splits)

lemma map_upds_append:
  "length xs = length vs \<Longrightarrow> m(xs @ ys [\<mapsto>] vs @ ws) = (m(xs [\<mapsto>] vs))(ys [\<mapsto>] ws)"
  by (induction xs vs arbitrary: m rule: list_induct2) auto

lemma parseLoop_refines:
  assumes "short msg" "sane_lengths spec" "\<forall>i \<in> set inds. i < 64" "in_range msg cur"
  shows "loop_refines msg cur flds (present bm base inds) (parseLoop spec msg bm base inds (cur, flds))
           (decode_seq (decode_field spec) (present bm base inds) (drop (nat cur) msg))"
  using assms(3,4)
proof (induction inds arbitrary: cur flds)
  case Nil
  then show ?case by (simp add: loop_refines_def present_def)
next
  case (Cons ind inds)
  let ?k = "base + ind" and ?ks = "present bm base inds"
  have ind: "ind < 64" using Cons.prems(1) by simp
  show ?case
  proof (cases "has_bit bm ind")
    case False
    with Cons ind show ?thesis by (simp add: present_Cons GetBit_ok)
  next
    case True
    from parseMessage_refines[OF assms(1) Cons.prems(2) assms(2), of ?k] show ?thesis
    proof (cases rule: refinesE)
      case error
      with True ind show ?thesis by (simp add: present_Cons loop_refines_def GetBit_ok)
    next
      case (parsed v c)
      have "loop_refines msg c (flds(?k \<mapsto> v)) ?ks
          (parseLoop spec msg bm base inds (c, flds(?k \<mapsto> v)))
          (decode_seq (decode_field spec) ?ks (drop (nat c) msg))"
        using Cons.IH parsed(4) Cons.prems(1) by simp
      then show ?thesis
        using True ind parsed
        by (cases rule: loop_refinesE) (auto simp: present_Cons loop_refines_def GetBit_ok)
    qed
  qed
qed

lemma decode_seq_append:
  "decode_seq dec (ks @ ls) s =
     (case decode_seq dec ks s of
        None \<Rightarrow> None
      | Some (vs, s') \<Rightarrow>
          (case decode_seq dec ls s' of None \<Rightarrow> None | Some (ws, r) \<Rightarrow> Some (vs @ ws, r)))"
  by (induction ks arbitrary: s) (auto split: option.splits)

lemma parseFields_refines:
  assumes "short msg" "sane_lengths spec" "in_range msg cur"
  shows "loop_refines msg cur Map.empty (field_keys pb sec) (parseFields spec msg pb sec cur)
           (decode_seq (decode_field spec) (field_keys pb sec) (drop (nat cur) msg))"
proof -
  let ?P = "present pb 0 [1..63]"
  have P: "loop_refines msg cur Map.empty ?P (parseLoop spec msg pb 0 [1..63] (cur, Map.empty))
      (decode_seq (decode_field spec) ?P (drop (nat cur) msg))"
    by (rule parseLoop_refines) (use assms in auto)
  show ?thesis
  proof (cases sec)
    case None
    with P show ?thesis by (simp add: parseFields_def BitLen_def field_keys_def)
  next
    case (Some sb)
    from P show ?thesis
    proof (cases rule: loop_refinesE)
      case error
      with Some show ?thesis
        by (simp add: parseFields_def BitLen_def field_keys_def loop_refines_def decode_seq_append)
    next
      case (parsed vs c)
      let ?S = "present sb 64 [0..63]" and ?m = "Map.empty(?P [\<mapsto>] vs)"
      have S: "loop_refines msg c ?m ?S (parseLoop spec msg sb 64 [0..63] (c, ?m))
          (decode_seq (decode_field spec) ?S (drop (nat c) msg))"
        by (rule parseLoop_refines) (use assms parsed in auto)
      have "length ?P = length vs" using parsed(2) by (auto dest: decode_seq_length)
      with S Some parsed show ?thesis
        by (cases rule: loop_refinesE)
          (auto simp: parseFields_def BitLen_def field_keys_def loop_refines_def decode_seq_append
              map_upds_append)
    qed
  qed
qed

section \<open>Whole messages\<close>

definition decode_secondary :: "BitSet \<Rightarrow> string \<Rightarrow> (BitSet option \<times> string) option" where
  "decode_secondary pb s =
     (if has_bit pb 0 then
        (case take_str 16 s of
           None \<Rightarrow> None
         | Some (h, s') \<Rightarrow>
             (case SetString new_BitSet h 16 of Inl _ \<Rightarrow> None | Inr sb \<Rightarrow> Some (Some sb, s')))
      else Some (None, s))"

definition decode_message ::
    "IsoSpec \<Rightarrow> string \<Rightarrow> ((string \<times> BitSet \<times> BitSet option \<times> string list) \<times> string) option" where
  "decode_message spec s =
     (case take_str 4 s of None \<Rightarrow> None | Some (mti, s1) \<Rightarrow>
     (case take_str 16 s1 of None \<Rightarrow> None | Some (h, s2) \<Rightarrow>
     (case SetString new_BitSet h 16 of Inl _ \<Rightarrow> None | Inr pb \<Rightarrow>
     (case decode_secondary pb s2 of None \<Rightarrow> None | Some (sec, s3) \<Rightarrow>
     (case decode_seq (decode_field spec) (field_keys pb sec) s3 of
        None \<Rightarrow> None
      | Some (vs, rest) \<Rightarrow> Some ((mti, pb, sec, vs), rest))))))"

lemma parseSecondary_refines:
  assumes "short msg" "in_range msg cur"
  shows "refines msg cur (parseSecondary msg pb cur) (decode_secondary pb (drop (nat cur) msg))"
proof (cases "has_bit pb 0")
  case False
  with assms show ?thesis by (simp add: parseSecondary_def decode_secondary_def GetBit_ok)
next
  case True
  have R: "refines msg cur (take_or_short msg SecondaryBitmap cur 16) (take_str 16 (drop (nat cur) msg))"
    using assms by (rule take_or_short_refines) simp
  then show ?thesis
    using True by (cases rule: refinesE)
      (auto simp: parseSecondary_def decode_secondary_def GetBit_ok split: sum.splits)
qed

text \<open>The parsed message, from what the grammar reads.\<close>

definition built :: "IsoSpec \<Rightarrow> string \<Rightarrow> BitSet \<Rightarrow> BitSet option \<Rightarrow> string list \<Rightarrow> Iso8583Message" where
  "built spec s pb sec vs =
     \<lparr>message = s, primaryBitMap = pb, secondaryBitMap = sec,
      msg_fields = Map.empty(field_keys pb sec [\<mapsto>] vs), isoSpec = spec\<rparr>"

lemma NewIso8583Message_refines:
  assumes "short s" "sane_lengths spec"
  shows "case decode_message spec s of
           None \<Rightarrow> \<exists>e. NewIso8583Message s spec = fail e
         | Some ((mti, pb, sec, vs), rest) \<Rightarrow> NewIso8583Message s spec = Ok (built spec s pb sec vs)"
proof -
  have "refines s 0 (take_or_short s MTI 0 4) (take_str 4 (drop (nat 0) s))"
    using assms by (intro take_or_short_refines) (simp_all add: in_range_def)
  then show ?thesis
  proof (cases rule: refinesE)
    case error
    then show ?thesis by (simp add: NewIso8583Message_def decode_message_def)
  next
    case v1: (parsed mti c1)
    have "refines s c1 (take_or_short s PrimaryBitmap c1 16) (take_str 16 (drop (nat c1) s))"
      using assms v1 by (intro take_or_short_refines) simp_all
    then show ?thesis
    proof (cases rule: refinesE)
      case error
      with v1 show ?thesis by (simp add: NewIso8583Message_def decode_message_def)
    next
      case v2: (parsed h c2)
      show ?thesis
      proof (cases "SetString new_BitSet h 16")
        case (Inl e)
        with v1 v2 show ?thesis by (simp add: NewIso8583Message_def decode_message_def)
      next
        case pb: (Inr pb)
        from parseSecondary_refines[OF assms(1) v2(4), of pb] show ?thesis
        proof (cases rule: refinesE)
          case error
          with v1 v2 pb show ?thesis by (simp add: NewIso8583Message_def decode_message_def)
        next
          case v3: (parsed sec c3)
          from parseFields_refines[OF assms v3(4), of pb sec] show ?thesis
            using v1 v2 pb v3
            by (cases rule: loop_refinesE)
              (simp_all add: NewIso8583Message_def decode_message_def built_def)
        qed
      qed
    qed
  qed
qed

end
