(* ===== verification/Iso_Roundtrip.thy ===== *)
theory Iso_Roundtrip
  imports Iso_Codec
begin

text \<open>
  What makes the message codec of \<open>iso/iso_messages.go\<close> correct: the well-formedness
  invariant of a message, established by the parser and kept by \<open>MarkField\<close> with
  \<open>SetField\<close> and by \<open>NewResponseMessage\<close>; the round trips between messages and wire
  text; and the absence of panics.
\<close>

section \<open>Well-formed messages\<close>

text \<open>The bitmaps announce exactly the fields present, the secondary bitmap exists exactly
  when bit 0 announces it, and every value fits its field definition.\<close>

abbreviation keys_of :: "Iso8583Message \<Rightarrow> int list" where
  "keys_of m \<equiv> field_keys (primaryBitMap m) (secondaryBitMap m)"

definition wf_msg :: "Iso8583Message \<Rightarrow> bool" where
  "wf_msg m \<longleftrightarrow>
     4 \<le> length (message m)
     \<and> (secondaryBitMap m \<noteq> None \<longleftrightarrow> has_bit (primaryBitMap m) 0)
     \<and> (\<forall>k. msg_fields m k \<noteq> None \<longleftrightarrow> k \<in> set (keys_of m))
     \<and> (\<forall>k v. msg_fields m k = Some v \<longrightarrow> value_ok (isoSpec m) k v)"

lemma wf_msgD:
  assumes "wf_msg m"
  shows "4 \<le> length (message m)"
    and "secondaryBitMap m \<noteq> None \<longleftrightarrow> has_bit (primaryBitMap m) 0"
    and "msg_fields m k \<noteq> None \<longleftrightarrow> k \<in> set (keys_of m)"
    and "msg_fields m k = Some v \<Longrightarrow> value_ok (isoSpec m) k v"
  using assms by (auto simp: wf_msg_def)

lemma set_field_keys:
  "k \<in> set (field_keys pb sec) \<longleftrightarrow>
     1 \<le> k \<and> k < 64 \<and> has_bit pb k
     \<or> (\<exists>sb. sec = Some sb \<and> 64 \<le> k \<and> k < 128 \<and> has_bit sb (k - 64))"
proof -
  have "k \<in> set (present sb 64 [0..63]) \<longleftrightarrow> 64 \<le> k \<and> k < 128 \<and> has_bit sb (k - 64)" for sb
    by (auto simp: set_present intro!: exI [of _ "k - 64"])
  then show ?thesis
    by (auto simp: field_keys_def set_present split: option.splits)
qed

lemma distinct_field_keys [simp]: "distinct (field_keys pb sec)"
  by (auto simp: field_keys_def present_def distinct_map split: option.splits)

lemma field_keys_range: "k \<in> set (field_keys pb sec) \<Longrightarrow> 1 \<le> k \<and> k < 128"
  by (auto simp: set_field_keys)

section \<open>The wire text of a well-formed message\<close>

definition secondary_hex :: "BitSet option \<Rightarrow> string" where
  "secondary_hex sec = (case sec of None \<Rightarrow> [] | Some sb \<Rightarrow> ToHex sb)"

definition body_items :: "Iso8583Message \<Rightarrow> (int \<times> string) list" where
  "body_items m = map (\<lambda>k. (k, GetField m k)) (keys_of m)"

definition wire :: "Iso8583Message \<Rightarrow> string" where
  "wire m = take 4 (message m) @ ToHex (primaryBitMap m) @ secondary_hex (secondaryBitMap m)
            @ encode_seq (format_value (isoSpec m)) (body_items m)"

lemma format_fields_encode:
  "format_fields spec (msg_fields m) ks =
     encode_seq (format_value spec)
       (map (\<lambda>k. (k, GetField m k)) (filter (\<lambda>k. msg_fields m k \<noteq> None) ks))"
  by (induction ks) (auto simp: GetField_def split: option.splits)

lemma upto_64_127: "[64..127 :: int] = map ((+) 64) [0..63]"
  by code_simp

lemma upto_1_127: "[1..127 :: int] = [1..63] @ map ((+) 64) [0..63]"
  using upto_split2[of 1 63 127] upto_64_127 by simp

lemma present_filters:
  assumes "wf_msg m"
  shows "filter (\<lambda>k. msg_fields m k \<noteq> None) [1..63] = present (primaryBitMap m) 0 [1..63]"
    and "secondaryBitMap m = Some sb \<Longrightarrow>
         filter (\<lambda>k. msg_fields m k \<noteq> None) (map ((+) 64) [0..63]) = present sb 64 [0..63]"
  using wf_msgD(3)[OF assms]
  by (auto simp: present_def filter_map comp_def set_field_keys cong: filter_cong intro!: filter_cong)

lemma FormatIso_wire: "wf_msg m \<Longrightarrow> FormatIso m = Ok (wire m)"
proof -
  assume wf: "wf_msg m"
  note f = present_filters[OF wf]
  have mti: "GetMTI m = Ok (take 4 (message m))"
    using wf_msgD(1)[OF wf] by (simp add: GetMTI_def go_slice_def)
  show ?thesis
  proof (cases "secondaryBitMap m")
    case None
    with wf_msgD(1,2)[OF wf] f(1) show ?thesis
      by (simp add: FormatIso_def GetMTI_def go_slice_def GetBit_ok wire_def secondary_hex_def body_items_def
          field_keys_def format_fields_encode)
  next
    case (Some sb)
    with wf_msgD(1,2)[OF wf] f(1) f(2)[OF Some] show ?thesis
      by (simp add: FormatIso_def GetMTI_def go_slice_def GetBit_ok wire_def secondary_hex_def body_items_def
          field_keys_def format_fields_encode upto_1_127)
  qed
qed

lemma decode_message_wire:
  assumes "wf_msg m"
  shows "decode_message (isoSpec m) (wire m @ rest) =
           Some ((take 4 (message m), primaryBitMap m, secondaryBitMap m,
                  map (GetField m) (keys_of m)), rest)"
proof -
  let ?spec = "isoSpec m" and ?pb = "primaryBitMap m" and ?sec = "secondaryBitMap m"
  have "\<forall>(k, v) \<in> set (body_items m). value_ok ?spec k v"
    using wf_msgD(3,4)[OF assms] by (fastforce simp: body_items_def GetField_def split: option.splits)
  from field_code.decode_encode_seq[OF this, of rest]
  have body: "decode_seq (decode_field ?spec) (keys_of m)
      (encode_seq (format_value ?spec) (body_items m) @ rest) = Some (map (GetField m) (keys_of m), rest)"
    by (simp add: body_items_def comp_def)
  have t4: "take_str 4 (take 4 (message m) @ s) = Some (take 4 (message m), s)" for s
    using wf_msgD(1)[OF assms] by (simp add: take_str_Some)
  have hex: "take_str 16 (ToHex b @ s) = Some (ToHex b, s)" for b s
    by (simp add: take_str_Some)
  have "decode_secondary ?pb (secondary_hex ?sec @ s) = Some (?sec, s)" for s
    using wf_msgD(2)[OF assms] hex
    by (auto simp: decode_secondary_def secondary_hex_def SetString_ToHex split: option.splits)
  with body t4 hex show ?thesis
    by (simp add: decode_message_def wire_def SetString_ToHex)
qed

section \<open>The parser establishes the invariant\<close>

lemma decode_seq_values_ok:
  "decode_seq (decode_field spec) ks s = Some (vs, r) \<Longrightarrow> distinct ks \<Longrightarrow>
     (Map.empty(ks [\<mapsto>] vs)) k = Some v \<Longrightarrow> value_ok spec k v"
proof -
  assume d: "decode_seq (decode_field spec) ks s = Some (vs, r)" and "distinct ks"
    and "(Map.empty(ks [\<mapsto>] vs)) k = Some v"
  moreover from d have len: "length vs = length ks" by (rule decode_seq_length)
  ultimately have "(k, v) \<in> set (zip ks vs)"
    by (auto simp: map_upds_def dest!: map_of_SomeD)
  with d len show ?thesis
  proof (induction ks arbitrary: s vs)
    case Nil
    then show ?case by simp
  next
    case (Cons x xs)
    then show ?case by (auto split: option.splits) (rule decode_field_value_ok)
  qed
qed

lemma map_upds_dom:
  "length vs = length ks \<Longrightarrow> (Map.empty(ks [\<mapsto>] vs)) k \<noteq> None \<longleftrightarrow> k \<in> set ks"
proof -
  assume "length vs = length ks"
  then have "dom (Map.empty(ks [\<mapsto>] vs)) = set ks" by simp
  then show ?thesis by (metis domIff)
qed

lemma built_wf:
  assumes "decode_message spec s = Some ((mti, pb, sec, vs), rest)"
  shows "wf_msg (built spec s pb sec vs)"
proof -
  obtain h s1 s2 s3 where t: "take_str 4 s = Some (mti, s1)" "take_str 16 s1 = Some (h, s2)"
    and sec: "decode_secondary pb s2 = Some (sec, s3)"
    and f: "decode_seq (decode_field spec) (field_keys pb sec) s3 = Some (vs, rest)"
    using assms by (auto simp: decode_message_def split: option.splits sum.splits prod.splits)
  have "4 \<le> length s" using t(1) by (auto simp: take_str_Some)
  moreover have "sec \<noteq> None \<longleftrightarrow> has_bit pb 0"
    using sec by (auto simp: decode_secondary_def split: if_splits option.splits sum.splits)
  ultimately show ?thesis
    using map_upds_dom[OF decode_seq_length[OF f]] decode_seq_values_ok[OF f]
    by (auto simp: wf_msg_def built_def)
qed

lemma parsed_cases:
  assumes "short s" "sane_lengths spec" "NewIso8583Message s spec = Ok m"
  obtains mti vs rest where "decode_message spec s = Some ((mti, primaryBitMap m, secondaryBitMap m, vs), rest)"
    "m = built spec s (primaryBitMap m) (secondaryBitMap m) vs"
  using NewIso8583Message_refines[OF assms(1,2)] assms(3)
  by (auto simp: built_def split: option.splits)

lemma parsed_wf:
  assumes "short s" "sane_lengths spec" "NewIso8583Message s spec = Ok m"
  shows "wf_msg m" "message m = s" "isoSpec m = spec"
proof -
  obtain mti vs rest where "decode_message spec s = Some ((mti, primaryBitMap m, secondaryBitMap m, vs), rest)"
    and m: "m = built spec s (primaryBitMap m) (secondaryBitMap m) vs"
    using parsed_cases[OF assms] .
  then show "wf_msg m" using built_wf by metis
  show "message m = s" by (subst m) (simp add: built_def)
  show "isoSpec m = spec" by (subst m) (simp add: built_def)
qed

section \<open>Printing then parsing\<close>

lemma parse_wire:
  assumes "wf_msg m" "sane_lengths (isoSpec m)" "short (wire m @ rest)"
  shows "NewIso8583Message (wire m @ rest) (isoSpec m) = Ok (m\<lparr>message := wire m @ rest\<rparr>)"
proof -
  have "Map.empty(keys_of m [\<mapsto>] map (GetField m) (keys_of m)) = msg_fields m"
  proof
    fix k
    have "(Map.empty(keys_of m [\<mapsto>] map (GetField m) (keys_of m))) k
            = (if k \<in> set (keys_of m) then Some (GetField m k) else None)"
      by (simp add: map_upds_def zip_map2 zip_same_conv_map rev_map comp_def map_of_map_restrict)
    then show "(Map.empty(keys_of m [\<mapsto>] map (GetField m) (keys_of m))) k = msg_fields m k"
      using wf_msgD(3)[OF assms(1), of k] by (auto simp: GetField_def)
  qed
  with NewIso8583Message_refines[OF assms(3,2)] decode_message_wire[OF assms(1), of rest]
  show ?thesis by (simp add: built_def)
qed

lemma take_4_wire: "wf_msg m \<Longrightarrow> take 4 (wire m) = take 4 (message m)"
  using wf_msgD(1) by (simp add: wire_def)

lemma wire_message_irrelevant:
  "take 4 t = take 4 (message m) \<Longrightarrow> wire (m\<lparr>message := t\<rparr>) = wire m"
  by (simp add: wire_def body_items_def GetField_def)

lemma wf_wire_message: "wf_msg m \<Longrightarrow> wf_msg (m\<lparr>message := wire m @ rest\<rparr>)"
  by (auto simp: wf_msg_def wire_def)

section \<open>Marking and setting a field\<close>

text \<open>\<open>marked\<close> is the message \<open>MarkField\<close> leaves for an index within the two bitmaps.\<close>

definition marked :: "Iso8583Message \<Rightarrow> int \<Rightarrow> Iso8583Message" where
  "marked m i =
     (if i < 64 then m\<lparr>primaryBitMap := put_bit (primaryBitMap m) i True\<rparr>
      else m\<lparr>primaryBitMap := put_bit (primaryBitMap m) 0 True,
             secondaryBitMap :=
               Some (put_bit (case secondaryBitMap m of None \<Rightarrow> new_BitSet | Some b \<Rightarrow> b) (i - 64) True)\<rparr>)"

lemma MarkField_ok: "i < 128 \<Longrightarrow> MarkField m i = Ok (marked m i)"
  by (simp add: MarkField_def marked_def SetBit_ok Let_def)

lemma MarkField_panic: "128 \<le> i \<Longrightarrow> MarkField m i = panic"
  by (simp add: MarkField_def SetBit_ok Let_def) (simp add: SetBit_def)

lemma marked_frame [frame_simps, simp]:
  "msg_fields (marked m i) = msg_fields m"
  "message (marked m i) = message m"
  "isoSpec (marked m i) = isoSpec m"
  by (simp_all add: marked_def)

lemma SetField_frame [frame_simps, simp]:
  "primaryBitMap (SetField m i v) = primaryBitMap m"
  "secondaryBitMap (SetField m i v) = secondaryBitMap m"
  "message (SetField m i v) = message m"
  "isoSpec (SetField m i v) = isoSpec m"
  "msg_fields (SetField m i v) = (msg_fields m)(i \<mapsto> v)"
  by (simp_all add: SetField_def)

lemma keys_of_marked:
  assumes "wf_msg m" "1 \<le> i" "i < 128"
  shows "k \<in> set (keys_of (marked m i)) \<longleftrightarrow> k = i \<or> k \<in> set (keys_of m)"
  using assms wf_msgD(2)[OF assms(1)]
  by (auto simp: marked_def set_field_keys split: option.splits if_splits)

lemma wf_mark_set [wf_intros]:
  assumes "wf_msg m" "1 \<le> i" "i < 128" "value_ok (isoSpec m) i v"
  shows "wf_msg (SetField (marked m i) i v)"
proof -
  have "secondaryBitMap (marked m i) \<noteq> None \<longleftrightarrow> has_bit (primaryBitMap (marked m i)) 0"
    using assms(2) wf_msgD(2)[OF assms(1)] by (auto simp: marked_def)
  with assms keys_of_marked[OF assms(1-3)] wf_msgD[OF assms(1)] show ?thesis
    by (auto simp: wf_msg_def)
qed

text \<open>Overwriting a field that is present needs no mark.\<close>

lemma wf_set_present [wf_intros]:
  assumes "wf_msg m" "i \<in> set (keys_of m)" "value_ok (isoSpec m) i v"
  shows "wf_msg (SetField m i v)"
  using assms wf_msgD[OF assms(1)] by (auto simp: wf_msg_def)

text \<open>Writing a field the bitmap does not announce always breaks the invariant.\<close>

lemma set_unmarked_not_wf:
  assumes "i \<notin> set (keys_of m)"
  shows "\<not> wf_msg (SetField m i v)"
  using assms by (auto simp: wf_msg_def)

section \<open>Response copies\<close>

lemma NewResponseMessage_ok:
  assumes "4 \<le> length (message m)"
  shows "NewResponseMessage m mti = Ok (m\<lparr>message := mti @ drop 4 (message m)\<rparr>)"
  using assms by (cases "secondaryBitMap m") (auto simp: NewResponseMessage_def go_slice_def)

lemma wf_response [wf_intros]:
  "wf_msg m \<Longrightarrow> length mti = 4 \<Longrightarrow> wf_msg (m\<lparr>message := mti @ s\<rparr>)"
  by (auto simp: wf_msg_def)

section \<open>The printed text is as long as the text parsed\<close>

lemma decode_var_length:
  "0 < k \<Longrightarrow> decode_var (int k) s = Some (v, r) \<Longrightarrow>
     length s = length (fmt_0d k (int (length v)) @ v @ r)"
proof -
  assume k: "0 < k" and d: "decode_var (int k) s = Some (v, r)"
  then have "length v < 10 ^ k" by (auto dest: decode_var_bound)
  then have "int (length v) < 10 ^ k"
    by (metis of_nat_less_iff of_nat_numeral of_nat_power)
  then have "length (fmt_0d k (int (length v))) = k" using k by (simp add: length_fmt_0d)
  with d show ?thesis
    by (auto simp: decode_var_def take_str_Some split: option.splits prod.splits)
qed

lemma decode_field_length:
  "decode_field spec k s = Some (v, r) \<Longrightarrow> length s = length (format_value spec k v) + length r"
  using decode_var_length[of 2 s v r] decode_var_length[of 3 s v r]
  by (auto simp: decode_field_def format_value_def take_str_Some split: option.splits if_splits)

lemma decode_seq_encoded_length:
  "decode_seq (decode_field spec) ks s = Some (vs, r) \<Longrightarrow>
     length s = length (encode_seq (format_value spec) (zip ks vs)) + length r"
  by (induction ks arbitrary: s vs) (auto dest!: decode_field_length split: option.splits)

lemma body_items_built:
  assumes "length vs = length (field_keys pb sec)"
  shows "body_items (built spec s pb sec vs) = zip (field_keys pb sec) vs"
proof (rule nth_equalityI)
  show "length (body_items (built spec s pb sec vs)) = length (zip (field_keys pb sec) vs)"
    using assms by (simp add: body_items_def built_def)
  fix i
  assume "i < length (body_items (built spec s pb sec vs))"
  then have i: "i < length (field_keys pb sec)" by (simp add: body_items_def built_def)
  have "map_of (rev (zip (field_keys pb sec) vs)) (field_keys pb sec ! i) = Some (vs ! i)"
    using assms i
    by (intro map_of_is_SomeI) (auto simp: in_set_zip rev_map[symmetric] map_fst_zip)
  with assms i show "body_items (built spec s pb sec vs) ! i = zip (field_keys pb sec) vs ! i"
    by (simp add: body_items_def built_def GetField_def map_upds_def)
qed

lemma decode_message_length:
  assumes "decode_message spec s = Some ((mti, pb, sec, vs), rest)"
  shows "length s = length (wire (built spec s pb sec vs)) + length rest"
proof -
  obtain h s1 s2 s3 where t: "take_str 4 s = Some (mti, s1)" "take_str 16 s1 = Some (h, s2)"
    and sec: "decode_secondary pb s2 = Some (sec, s3)"
    and f: "decode_seq (decode_field spec) (field_keys pb sec) s3 = Some (vs, rest)"
    using assms by (auto simp: decode_message_def split: option.splits sum.splits prod.splits)
  have "length s2 = length (secondary_hex sec) + length s3"
    using sec by (auto simp: decode_secondary_def secondary_hex_def take_str_Some
                       split: if_splits option.splits sum.splits)
  with t decode_seq_encoded_length[OF f] body_items_built[OF decode_seq_length[OF f]] show ?thesis
    by (auto simp: wire_def take_str_Some) (simp add: built_def)
qed

end
