(* ===== verification/Bundled_Spec.thy ===== *)
theory Bundled_Spec
  imports Iso_Codec
begin

text \<open>
  The specification the program ships, \<open>data/file_spec.json\<close>: the number, type and length
  bounds of its 128 fields, indexed as \<open>LoadSpecsFromFile\<close> does. Names and descriptions,
  which no code reads, are left empty.
\<close>

definition bundled_rows :: "(int \<times> string \<times> int \<times> int) list" where
  "bundled_rows = [
    (1, ''Fixed'', 16, 16), (2, ''LLVar'', 1, 19), (3, ''Fixed'', 6, 6), (4, ''Fixed'', 12, 12),
    (5, ''Fixed'', 12, 12), (6, ''Fixed'', 12, 12), (7, ''Fixed'', 10, 10), (8, ''Fixed'', 8, 8),
    (9, ''Fixed'', 8, 8), (10, ''Fixed'', 8, 8), (11, ''Fixed'', 6, 6), (12, ''Fixed'', 6, 6),
    (13, ''Fixed'', 4, 4), (14, ''Fixed'', 4, 4), (15, ''Fixed'', 4, 4), (16, ''Fixed'', 4, 4),
    (17, ''Fixed'', 4, 4), (18, ''Fixed'', 4, 4), (19, ''Fixed'', 3, 3), (20, ''Fixed'', 3, 3),
    (21, ''Fixed'', 3, 3), (22, ''Fixed'', 3, 3), (23, ''Fixed'', 3, 3), (24, ''Fixed'', 3, 3),
    (25, ''Fixed'', 2, 2), (26, ''Fixed'', 2, 2), (27, ''Fixed'', 1, 1), (28, ''Fixed'', 9, 9),
    (29, ''Fixed'', 9, 9), (30, ''Fixed'', 9, 9), (31, ''Fixed'', 9, 9), (32, ''LLVar'', 1, 11),
    (33, ''LLVar'', 1, 11), (34, ''LLVar'', 1, 28), (35, ''LLVar'', 1, 37),
    (36, ''LLLVar'', 1, 104), (37, ''Fixed'', 12, 12), (38, ''Fixed'', 6, 6), (39, ''Fixed'', 2, 2),
    (40, ''Fixed'', 3, 3), (41, ''Fixed'', 8, 8), (42, ''Fixed'', 15, 15), (43, ''Fixed'', 40, 40),
    (44, ''LLVar'', 1, 25), (45, ''LLVar'', 1, 76), (46, ''LLLVar'', 1, 999),
    (47, ''LLLVar'', 1, 999), (48, ''LLLVar'', 1, 999), (49, ''Fixed'', 3, 3),
    (50, ''Fixed'', 3, 3), (51, ''Fixed'', 3, 3), (52, ''Fixed'', 16, 16), (53, ''Fixed'', 16, 16),
    (54, ''LLLVar'', 1, 120), (55, ''LLLVar'', 1, 999), (56, ''LLLVar'', 1, 999),
    (57, ''LLLVar'', 3, 3), (58, ''LLLVar'', 1, 30), (59, ''LLLVar'', 1, 999),
    (60, ''LLLVar'', 1, 999), (61, ''LLLVar'', 1, 999), (62, ''LLLVar'', 1, 999),
    (63, ''LLLVar'', 1, 999), (64, ''Fixed'', 8, 8), (65, ''Fixed'', 16, 16), (66, ''Fixed'', 1, 1),
    (67, ''Fixed'', 2, 2), (68, ''Fixed'', 3, 3), (69, ''Fixed'', 3, 3), (70, ''Fixed'', 3, 3),
    (71, ''Fixed'', 4, 4), (72, ''Fixed'', 4, 4), (73, ''Fixed'', 6, 6), (74, ''Fixed'', 10, 10),
    (75, ''Fixed'', 10, 10), (76, ''Fixed'', 10, 10), (77, ''Fixed'', 10, 10),
    (78, ''Fixed'', 10, 10), (79, ''Fixed'', 10, 10), (80, ''Fixed'', 10, 10),
    (81, ''Fixed'', 10, 10), (82, ''Fixed'', 12, 12), (83, ''Fixed'', 12, 12),
    (84, ''Fixed'', 12, 12), (85, ''Fixed'', 12, 12), (86, ''Fixed'', 16, 16),
    (87, ''Fixed'', 16, 16), (88, ''Fixed'', 16, 16), (89, ''Fixed'', 16, 16),
    (90, ''Fixed'', 42, 42), (91, ''Fixed'', 1, 1), (92, ''Fixed'', 2, 2), (93, ''Fixed'', 5, 5),
    (94, ''Fixed'', 7, 7), (95, ''Fixed'', 42, 42), (96, ''Fixed'', 8, 8), (97, ''Fixed'', 17, 17),
    (98, ''Fixed'', 25, 25), (99, ''LLVar'', 1, 11), (100, ''LLVar'', 1, 11),
    (101, ''LLVar'', 1, 17), (102, ''LLVar'', 1, 28), (103, ''LLVar'', 1, 28),
    (104, ''LLLVar'', 1, 100), (105, ''LLLVar'', 1, 999), (106, ''LLLVar'', 1, 999),
    (107, ''LLLVar'', 1, 999), (108, ''LLLVar'', 1, 999), (109, ''LLLVar'', 1, 999),
    (110, ''LLLVar'', 1, 999), (111, ''LLLVar'', 1, 999), (112, ''LLLVar'', 1, 999),
    (113, ''LLLVar'', 1, 999), (114, ''LLLVar'', 1, 999), (115, ''LLLVar'', 1, 999),
    (116, ''LLLVar'', 1, 999), (117, ''LLLVar'', 1, 999), (118, ''LLLVar'', 1, 999),
    (119, ''LLLVar'', 1, 999), (120, ''LLLVar'', 1, 999), (121, ''LLLVar'', 1, 999),
    (122, ''LLLVar'', 1, 999), (123, ''LLLVar'', 1, 999), (124, ''LLLVar'', 1, 999),
    (125, ''LLLVar'', 1, 999), (126, ''LLLVar'', 1, 999), (127, ''LLLVar'', 1, 999),
    (128, ''Fixed'', 8, 8)
  ]"

definition field_def :: "int \<times> string \<times> int \<times> int \<Rightarrow> FieldDef" where
  "field_def r = (case r of (no, ty, mn, mx) \<Rightarrow>
     \<lparr>FieldNo = no, FieldName = [], FieldDescription = [], FieldType = ty,
      MinLength = mn, MaxLength = mx\<rparr>)"

definition bundled_spec :: IsoSpec where
  "bundled_spec =
     \<lparr>SpecName = ''1987_spec'', FieldDefinitions = map field_def bundled_rows,
      FieldDefMap = index_defs (map field_def bundled_rows) Map.empty\<rparr>"

lemma bundled_sane: "sane_lengths bundled_spec"
  by (rule sane_lengths_indexed [of _ "map field_def bundled_rows"])
     (simp_all add: bundled_spec_def bundled_rows_def field_def_def)

text \<open>One lookup per field number, by position in the table.\<close>

lemma bundled_numbers: "map fst bundled_rows = [1..128]"
  by (simp add: bundled_rows_def upto.simps)

lemma bundled_lookup:
  assumes "1 \<le> n" "n \<le> 128"
  shows "FieldDefMap bundled_spec n = Some (field_def (bundled_rows ! nat (n - 1)))"
proof -
  have len: "length bundled_rows = 128" by (simp add: bundled_rows_def)
  have no: "FieldNo (field_def r) = fst r" for r
    by (simp add: field_def_def split: prod.splits)
  have nos: "map FieldNo (map field_def bundled_rows) = [1..128]"
    using bundled_numbers by (simp add: no comp_def)
  let ?d = "field_def (bundled_rows ! nat (n - 1))"
  have "map fst bundled_rows ! nat (n - 1) = fst (bundled_rows ! nat (n - 1))"
    using assms len by (intro nth_map) simp
  then have "FieldNo ?d = [1..128] ! nat (n - 1)"
    by (simp only: no bundled_numbers)
  then have "FieldNo ?d = n" using assms by (simp add: nth_upto)
  moreover have "index_defs (map field_def bundled_rows) Map.empty (FieldNo ?d) = Some ?d"
    using nos assms len by (intro index_defs_unique) simp_all
  ultimately show ?thesis by (simp add: bundled_spec_def)
qed

end
