(* ===== verification/Iso_Properties.thy ===== *)
theory Iso_Properties
  imports Iso_Roundtrip Bundled_Spec
begin

text \<open>
  The properties of the \<open>iso\<close> package, each with a witness on a concrete message under the
  shipped specification. The sample is the message of the package's own test: processing
  code 990000 and trace number 123456 behind a primary bitmap alone.
\<close>

section \<open>A sample message\<close>

definition sample_bits :: BitSet where
  "sample_bits = \<lparr>data = 0x2020000000000000\<rparr>"

definition sample_text :: string where
  "sample_text = ''08002020000000000000990000123456''"

definition sample_msg :: Iso8583Message where
  "sample_msg = built bundled_spec sample_text sample_bits None [''990000'', ''123456'']"

lemma sample_keys: "field_keys sample_bits None = [2, 10]"
  by (simp add: field_keys_def present_def has_bit_def sample_bits_def upto.simps)

lemma sample_hex: "SetString new_BitSet ''2020000000000000'' 16 = Inr sample_bits"
  by (simp add: SetString_def ParseUint_def char_val_def new_BitSet_def sample_bits_def)

lemma sample_defs:
  "FieldDefMap bundled_spec 3 = Some (field_def (3, ''Fixed'', 6, 6))"
  "FieldDefMap bundled_spec 11 = Some (field_def (11, ''Fixed'', 6, 6))"
  by (subst bundled_lookup; simp add: bundled_rows_def)+

lemma sample_decodes:
  "decode_message bundled_spec sample_text =
     Some ((''0800'', sample_bits, None, [''990000'', ''123456'']), [])"
  by (simp add: decode_message_def take_str_def sample_text_def sample_hex sample_keys
      decode_secondary_def has_bit_def decode_field_def sample_defs field_def_def)
     (simp add: sample_bits_def)

lemma sample_short: "short sample_text"
  by (simp add: short_def sample_text_def)

lemma sample_parses: "NewIso8583Message sample_text bundled_spec = Ok sample_msg"
  using NewIso8583Message_refines[OF sample_short bundled_sane]
  by (simp add: sample_decodes sample_msg_def)

lemma sample_wf: "wf_msg sample_msg"
  unfolding sample_msg_def by (rule built_wf[OF sample_decodes])

lemma sample_simps:
  "isoSpec sample_msg = bundled_spec" "message sample_msg = sample_text"
  "primaryBitMap sample_msg = sample_bits" "secondaryBitMap sample_msg = None"
  "msg_fields sample_msg = [2 \<mapsto> ''990000'', 10 \<mapsto> ''123456'']"
  by (simp_all add: sample_msg_def built_def sample_keys)

lemma sample_wire: "wire sample_msg = sample_text"
proof -
  have "ToHex sample_bits = ''2020000000000000''"
    by (simp add: ToHex_def sample_bits_def eval_simps)
  then show ?thesis
    by (simp add: wire_def sample_simps secondary_hex_def body_items_def sample_keys GetField_def
        format_value_def sample_defs field_def_def sample_text_def)
qed

lemma FormatPrint_no_panic:
  assumes "wf_msg m"
  shows "FormatPrint m \<noteq> panic"
  using wf_msgD(1,2)[OF assms]
  by (auto simp: FormatPrint_def go_slice_def GetBit_ok Let_def split: option.splits)

section \<open>Properties\<close>

text \<open>
  C1: Every well-formed message that \<open>FormatIso\<close> prints is read back by
  \<open>NewIso8583Message\<close> as the same message: same bitmaps, same fields, same MTI; only the
  retained raw text is the printed one.
\<close>

theorem format_then_parse:
  assumes "wf_msg m" "sane_lengths (isoSpec m)" "FormatIso m = Ok s" "short s"
  shows "NewIso8583Message s (isoSpec m) = Ok (m\<lparr>message := s\<rparr>)
         \<and> GetMTI (m\<lparr>message := s\<rparr>) = GetMTI m"
proof -
  have s: "s = wire m" using FormatIso_wire[OF assms(1)] assms(3) by (metis sum.inject(2))
  have "NewIso8583Message s (isoSpec m) = Ok (m\<lparr>message := s\<rparr>)"
    using parse_wire[OF assms(1,2), of "[]"] assms(4) s by simp
  moreover have "4 \<le> length s" using wf_msgD(1)[OF assms(1)] by (simp add: s wire_def)
  ultimately show ?thesis
    using take_4_wire[OF assms(1)] wf_msgD(1)[OF assms(1)] by (simp add: GetMTI_def go_slice_def s)
qed

theorem format_then_parse_witness:
  "NewIso8583Message sample_text bundled_spec = Ok (sample_msg\<lparr>message := sample_text\<rparr>)
   \<and> GetMTI (sample_msg\<lparr>message := sample_text\<rparr>) = GetMTI sample_msg"
  using format_then_parse[OF sample_wf _ FormatIso_wire[OF sample_wf]]
  by (simp add: sample_wire sample_short sample_simps bundled_sane)

text \<open>
  C4: The parser is a refinement of the message grammar: with its cursor, its 64-bit bounds
  check and its two bit loops it accepts exactly the texts the grammar accepts, returns the
  grammar's bitmaps and field values, and returns an error (never a panic) on every other text.
\<close>

theorem parser_refines_grammar:
  assumes "short s" "sane_lengths spec"
  shows "case decode_message spec s of
           None \<Rightarrow> \<exists>e. NewIso8583Message s spec = fail e
         | Some ((mti, pb, sec, vs), rest) \<Rightarrow>
             NewIso8583Message s spec =
               Ok \<lparr>message = s, primaryBitMap = pb, secondaryBitMap = sec,
                   msg_fields = Map.empty(field_keys pb sec [\<mapsto>] vs), isoSpec = spec\<rparr>"
  using NewIso8583Message_refines[OF assms] unfolding built_def .

theorem parser_refines_grammar_witness:
  "NewIso8583Message sample_text bundled_spec =
     Ok \<lparr>message = sample_text, primaryBitMap = sample_bits, secondaryBitMap = None,
         msg_fields = Map.empty(field_keys sample_bits None [\<mapsto>] [''990000'', ''123456'']),
         isoSpec = bundled_spec\<rparr>"
  using parser_refines_grammar[OF sample_short bundled_sane] by (simp add: sample_decodes)

text \<open>
  The bound on the lengths of the specification is needed: with a \<open>min_length\<close> of \<open>2^63 - 1\<close> the bounds check
  \<open>currIndex+n > len(message)\<close> wraps around to a negative sum, passes, and the slice panics.
\<close>

definition huge_spec :: IsoSpec where
  "huge_spec = \<lparr>SpecName = [], FieldDefinitions = [],
     FieldDefMap = [3 \<mapsto> field_def (3, ''Fixed'', 2 ^ 63 - 1, 0)]\<rparr>"

theorem huge_min_length_panics: "NewIso8583Message sample_text huge_spec = panic"
proof -
  have upto: "[1..63 :: int] = 1 # 2 # [3..63]"
    by (simp add: upto.simps)
  show ?thesis
    by (simp add: NewIso8583Message_def take_or_short_def take_next_def wrap64_def go_slice_def
        sample_text_def sample_hex GetBit_ok parseSecondary_def parseFields_def BitLen_def upto
        parseMessage_def huge_spec_def field_def_def)
       (simp add: has_bit_def sample_bits_def)
qed

text \<open>
  C20: Whatever the parser accepts is well-formed: its fields are exactly those the bitmaps
  announce, each within its definition's length, and the secondary bitmap is there exactly
  when bit 1 announces it. Printing it cannot panic.
\<close>

theorem parsed_message_well_formed:
  assumes "short s" "sane_lengths spec" "NewIso8583Message s spec = Ok m"
  shows "wf_msg m \<and> isoSpec m = spec \<and> FormatIso m \<noteq> panic \<and> FormatPrint m \<noteq> panic"
  using parsed_wf[OF assms] FormatIso_wire[OF parsed_wf(1)[OF assms]]
    FormatPrint_no_panic[OF parsed_wf(1)[OF assms]] by (metis sum.distinct(1))

theorem parsed_message_well_formed_witness:
  "wf_msg sample_msg \<and> isoSpec sample_msg = bundled_spec
   \<and> FormatIso sample_msg \<noteq> panic \<and> FormatPrint sample_msg \<noteq> panic"
  by (rule parsed_message_well_formed[OF sample_short bundled_sane sample_parses])

text \<open>
  Printing normalises: a parsed message prints to a text no longer than the one it came
  from, which parses back to the same bitmaps and fields and prints to itself.
\<close>

theorem parse_print_parse:
  assumes "short s" "sane_lengths spec" "NewIso8583Message s spec = Ok m"
  shows "\<exists>t. FormatIso m = Ok t \<and> length t \<le> length s
             \<and> NewIso8583Message t spec = Ok (m\<lparr>message := t\<rparr>)
             \<and> FormatIso (m\<lparr>message := t\<rparr>) = Ok t"
proof -
  note wf = parsed_wf[OF assms]
  obtain mti vs rest where d: "decode_message spec s = Some ((mti, primaryBitMap m, secondaryBitMap m, vs), rest)"
    and m: "m = built spec s (primaryBitMap m) (secondaryBitMap m) vs"
    using parsed_cases[OF assms] .
  have len: "length (wire m) \<le> length s"
    using decode_message_length[OF d] by (simp add: m[symmetric])
  then have "short (wire m)" using assms(1) by (simp add: short_def)
  then have "NewIso8583Message (wire m) spec = Ok (m\<lparr>message := wire m\<rparr>)"
    using parse_wire[OF wf(1), of "[]"] assms(2) wf(3) by simp
  moreover have "FormatIso (m\<lparr>message := wire m\<rparr>) = Ok (wire m)"
    using FormatIso_wire[OF wf_wire_message[OF wf(1), of "[]"]]
      wire_message_irrelevant[OF take_4_wire[OF wf(1)]] by simp
  ultimately show ?thesis
    using FormatIso_wire[OF wf(1)] len by (intro exI [of _ "wire m"]) simp
qed

theorem parse_print_parse_witness:
  "\<exists>t. FormatIso sample_msg = Ok t \<and> length t \<le> length sample_text
       \<and> NewIso8583Message t bundled_spec = Ok (sample_msg\<lparr>message := t\<rparr>)
       \<and> FormatIso (sample_msg\<lparr>message := t\<rparr>) = Ok t"
  by (rule parse_print_parse[OF sample_short bundled_sane sample_parses])

text \<open>
  The wire format is unambiguous: if two well-formed messages of one specification print
  texts that agree up to what follows them on the wire, their MTI, bitmaps and fields are equal.
\<close>

theorem wire_unambiguous:
  assumes "wf_msg a" "wf_msg b" "isoSpec a = isoSpec b"
    and "FormatIso a = Ok s" "FormatIso b = Ok t" "s @ r = t @ q"
  shows "GetMTI a = GetMTI b \<and> primaryBitMap a = primaryBitMap b
         \<and> secondaryBitMap a = secondaryBitMap b \<and> msg_fields a = msg_fields b \<and> r = q"
proof -
  have s: "s = wire a" "t = wire b"
    using FormatIso_wire assms(1,2,4,5) by (metis sum.inject(2))+
  with assms(3,6) decode_message_wire[OF assms(1), of r] decode_message_wire[OF assms(2), of q]
  have eq: "take 4 (message a) = take 4 (message b)" "primaryBitMap a = primaryBitMap b"
    "secondaryBitMap a = secondaryBitMap b" "map (GetField a) (keys_of a) = map (GetField b) (keys_of b)" "r = q"
    by auto
  have "msg_fields a k = msg_fields b k" for k
    using eq wf_msgD(3)[OF assms(1), of k] wf_msgD(3)[OF assms(2), of k]
    by (cases "msg_fields a k"; cases "msg_fields b k") (auto simp: GetField_def)
  with eq wf_msgD(1)[OF assms(1)] wf_msgD(1)[OF assms(2)] show ?thesis
    by (auto simp: GetMTI_def go_slice_def)
qed

theorem wire_unambiguous_witness:
  "GetMTI sample_msg = GetMTI sample_msg \<and> primaryBitMap sample_msg = primaryBitMap sample_msg
   \<and> secondaryBitMap sample_msg = secondaryBitMap sample_msg
   \<and> msg_fields sample_msg = msg_fields sample_msg \<and> ''12'' = ''12''"
  by (rule wire_unambiguous[OF sample_wf sample_wf refl FormatIso_wire[OF sample_wf]
        FormatIso_wire[OF sample_wf] refl])

text \<open>
  \<open>MarkField\<close> followed by \<open>SetField\<close> with a value that fits is reliable for every index
  1 to 127, also the first one above 63, which creates the secondary bitmap: the response is
  well-formed, and the peer that parses its text reads that value there and every other field
  unchanged.
\<close>

theorem mark_then_set:
  assumes "wf_msg m" "sane_lengths (isoSpec m)" "1 \<le> i" "i < 128" "value_ok (isoSpec m) i v"
    and "MarkField m i = Ok m1" "FormatIso (SetField m1 i v) = Ok s" "short s"
  shows "\<exists>p. NewIso8583Message s (isoSpec m) = Ok p \<and> wf_msg p
             \<and> (\<forall>j. GetField p j = (if j = i then v else GetField m j))"
proof -
  have m1: "m1 = marked m i" using MarkField_ok[OF assms(4), of m] assms(6) by (metis sum.inject(2))
  let ?r = "SetField m1 i v"
  have wf: "wf_msg ?r" using wf_mark_set[OF assms(1,3,4,5)] m1 by simp
  have "s = wire ?r" using FormatIso_wire[OF wf] assms(7) by (metis sum.inject(2))
  then have "NewIso8583Message s (isoSpec m) = Ok (?r\<lparr>message := s\<rparr>)"
    using parse_wire[OF wf, of "[]"] assms(2,8) m1 by simp
  moreover have "wf_msg (?r\<lparr>message := s\<rparr>)"
    using wf_wire_message[OF wf, of "[]"] \<open>s = wire ?r\<close> by simp
  ultimately show ?thesis by (auto simp: GetField_def m1)
qed

theorem mark_then_set_witness:
  "\<exists>p. NewIso8583Message (wire (SetField (marked sample_msg 69) 69 ''301'')) bundled_spec = Ok p
       \<and> wf_msg p
       \<and> (\<forall>j. GetField p j = (if j = 69 then ''301'' else GetField sample_msg j))"
proof -
  let ?m = "SetField (marked sample_msg 69) 69 ''301''"
  have v: "value_ok bundled_spec 69 ''301''"
    by (simp add: value_ok_def bundled_lookup bundled_rows_def field_def_def)
  have wf: "wf_msg ?m" using wf_mark_set[OF sample_wf] v by (simp add: sample_simps)
  have keys: "field_keys (put_bit sample_bits 0 True) (Some (put_bit new_BitSet 5 True)) = [2, 10, 69]"
    by (simp add: field_keys_def present_def has_bit_def sample_bits_def new_BitSet_def put_bit_def
        set_bit_eq_or upto.simps)
  have "short (wire ?m)"
    by (simp add: short_def wire_def body_items_def sample_simps marked_def keys GetField_def
        format_value_def bundled_lookup bundled_rows_def field_def_def secondary_hex_def)
  then show ?thesis
    using mark_then_set[OF sample_wf _ _ _ _ MarkField_ok FormatIso_wire[OF wf]] v
    by (simp add: sample_simps bundled_sane)
qed

end
