(* ===== verification/Go_Float.thy ===== *)
theory Go_Float
  imports Prelude Complex_Main "HOL-Library.Log_Nat"
begin

text \<open>
  The \<open>float64\<close> arithmetic the program computes rates, percentile ranks and balances with.
  A finite double is the rational it denotes; an operation is the exact one followed by
  rounding to 53 significant bits, ties to even. Overflow and subnormals are not modelled:
  every operand of the program is 0 or between \<open>2^-40\<close> and \<open>2^63\<close> in magnitude. The
  lemmas give monotonicity, exactness on integers up to \<open>2^53\<close>, and the relative error.
\<close>

section \<open>Rounding\<close>

definition exponent2 :: "rat \<Rightarrow> int" where
  "exponent2 x = (if 1 \<le> x then bitlen \<lfloor>x\<rfloor> - 1 else - bitlen (\<lceil>1 / x\<rceil> - 1))"

definition round_even :: "rat \<Rightarrow> int" where
  "round_even y =
     (let f = \<lfloor>y\<rfloor>; r = y - of_int f in
      if r < 1 / 2 then f
      else if 1 / 2 < r then f + 1
      else if even f then f else f + 1)"

definition ulp :: "rat \<Rightarrow> rat" where
  "ulp x = 2 powi (exponent2 x - 52)"

definition f64 :: "rat \<Rightarrow> rat" where
  "f64 x = (if x = 0 then 0 else sgn x * of_int (round_even (\<bar>x\<bar> / ulp \<bar>x\<bar>)) * ulp \<bar>x\<bar>)"

text \<open>The operations: conversion from an integer, multiplication, addition, division, and
  the conversions back (\<open>math.Ceil\<close>, and truncation towards zero by \<open>int(...)\<close>).\<close>

definition f64_of_int :: "int \<Rightarrow> rat" where "f64_of_int n = f64 (of_int n)"
definition f64_mul :: "rat \<Rightarrow> rat \<Rightarrow> rat" where "f64_mul a b = f64 (a * b)"
definition f64_add :: "rat \<Rightarrow> rat \<Rightarrow> rat" where "f64_add a b = f64 (a + b)"
definition f64_div :: "rat \<Rightarrow> rat \<Rightarrow> rat" where "f64_div a b = f64 (a / b)"
definition f64_ceil :: "rat \<Rightarrow> rat" where "f64_ceil a = of_int \<lceil>a\<rceil>"
definition int_of_f64 :: "rat \<Rightarrow> int" where
  "int_of_f64 a = (if a < 0 then \<lceil>a\<rceil> else \<lfloor>a\<rfloor>)"

section \<open>Exponents\<close>

lemma exponent2_bounds:
  assumes "0 < x"
  shows "2 powi (exponent2 x) \<le> x" "x < 2 powi (exponent2 x + 1)"
proof -
  have "2 powi (exponent2 x) \<le> x \<and> x < 2 powi (exponent2 x + 1)"
  proof (cases "1 \<le> x")
    case True
    let ?n = "\<lfloor>x\<rfloor>"
    have n: "1 \<le> ?n" using True by simp
    then have b: "2 ^ nat (bitlen ?n - 1) \<le> ?n" "?n < 2 ^ nat (bitlen ?n)"
      using bitlen_bounds[of ?n] by simp_all
    have l: "1 \<le> bitlen ?n" using n bitlen_eq_zero_iff[of ?n] bitlen_nonneg[of ?n] by linarith
    have "of_int (2 ^ nat (bitlen ?n - 1)) \<le> (of_int ?n :: rat)" using b(1) by (simp only: of_int_le_iff)
    moreover have "(of_int ?n :: rat) + 1 \<le> of_int (2 ^ nat (bitlen ?n))"
      using b(2) by (metis of_int_1 of_int_add of_int_le_iff zless_imp_add1_zle)
    ultimately have "(2 :: rat) ^ nat (bitlen ?n - 1) \<le> of_int ?n"
      and "(of_int ?n :: rat) + 1 \<le> 2 ^ nat (bitlen ?n)" by simp_all
    moreover have "(of_int ?n :: rat) \<le> x" "x < of_int ?n + 1" by linarith+
    ultimately have "(2 :: rat) ^ nat (bitlen ?n - 1) \<le> x" "x < 2 ^ nat (bitlen ?n)" by linarith+
    then show ?thesis
      using True l by (simp add: exponent2_def power_int_def)
  next
    case False
    let ?m = "\<lceil>1 / x\<rceil> - 1"
    have "1 < 1 / x" using False assms by simp
    then have "1 < \<lceil>1 / x\<rceil>" by linarith
    then have m: "1 \<le> ?m" by simp
    let ?k = "bitlen ?m"
    have b: "2 ^ nat (?k - 1) \<le> ?m" "?m < 2 ^ nat ?k" using m bitlen_bounds[of ?m] by simp_all
    have l: "1 \<le> ?k" using m bitlen_eq_zero_iff[of ?m] bitlen_nonneg[of ?m] by linarith
    have "of_int ?m < 1 / x" "1 / x \<le> of_int (?m + 1)" by (simp_all, linarith)
    moreover have "of_int (2 ^ nat (?k - 1)) \<le> (of_int ?m :: rat)" using b(1) by (simp only: of_int_le_iff)
    moreover have "(of_int (?m + 1) :: rat) \<le> of_int (2 ^ nat ?k)" using b(2) by (simp only: of_int_le_iff)
    ultimately have "2 ^ nat (?k - 1) < 1 / x" "1 / x \<le> 2 ^ nat ?k"
      unfolding of_int_power of_int_numeral by linarith+
    then have "x < 1 / 2 ^ nat (?k - 1)" "1 / 2 ^ nat ?k \<le> x"
      using assms by (simp_all add: field_simps)
    moreover have "(2 :: rat) powi (- ?k) = 1 / 2 ^ nat ?k" "(2 :: rat) powi (1 - ?k) = 1 / 2 ^ nat (?k - 1)"
      using l by (auto simp: power_int_def inverse_eq_divide power_one_over)
    ultimately show ?thesis using False by (simp add: exponent2_def)
  qed
  then show "2 powi (exponent2 x) \<le> x" "x < 2 powi (exponent2 x + 1)" by auto
qed

lemma exponent2_mono:
  assumes "0 < x" "x \<le> y"
  shows "exponent2 x \<le> exponent2 y"
proof (rule ccontr)
  assume "\<not> ?thesis"
  then have "(2 :: rat) powi (exponent2 y + 1) \<le> 2 powi (exponent2 x)"
    by (intro power_int_increasing) simp_all
  with exponent2_bounds[of x] exponent2_bounds[of y] assms show False by linarith
qed

lemma exponent2_unique:
  assumes "2 powi e \<le> x" "x < 2 powi (e + 1)"
  shows "exponent2 x = e"
proof -
  have x: "0 < x" using assms(1) by (meson less_le_trans zero_less_numeral zero_less_power_int)
  have "\<not> e < exponent2 x"
  proof
    assume "e < exponent2 x"
    then have "(2 :: rat) powi (e + 1) \<le> 2 powi (exponent2 x)" by (intro power_int_increasing) simp_all
    with assms(2) exponent2_bounds[OF x] show False by linarith
  qed
  moreover have "\<not> exponent2 x < e"
  proof
    assume "exponent2 x < e"
    then have "(2 :: rat) powi (exponent2 x + 1) \<le> 2 powi e" by (intro power_int_increasing) simp_all
    with assms(1) exponent2_bounds[OF x] show False by linarith
  qed
  ultimately show ?thesis by simp
qed

section \<open>Nearest integers\<close>

lemma round_even_bounds: "\<bar>of_int (round_even y) - y\<bar> \<le> 1 / 2"
proof -
  have "(of_int \<lfloor>y\<rfloor> :: rat) \<le> y" "y < of_int \<lfloor>y\<rfloor> + 1" by linarith+
  then show ?thesis by (auto simp: round_even_def Let_def abs_le_iff)
qed

lemma round_even_int [simp]: "round_even (of_int n) = n"
  by (simp add: round_even_def)

lemma round_even_mono:
  assumes "x \<le> y"
  shows "round_even x \<le> round_even y"
proof (cases "\<lfloor>x\<rfloor> = \<lfloor>y\<rfloor>")
  case True
  with assms show ?thesis by (auto simp: round_even_def Let_def)
next
  case False
  with assms have "\<lfloor>x\<rfloor> + 1 \<le> \<lfloor>y\<rfloor>" using floor_mono[OF assms] by simp
  moreover have "round_even x \<le> \<lfloor>x\<rfloor> + 1" "\<lfloor>y\<rfloor> \<le> round_even y"
    by (auto simp: round_even_def Let_def)
  ultimately show ?thesis by simp
qed

section \<open>Rounding to 53 bits\<close>

lemma ulp_pos [simp]: "0 < ulp x"
  by (simp add: ulp_def)

lemma ulp_nonzero [simp]: "ulp x \<noteq> 0"
  using ulp_pos[of x] by linarith

lemma f64_pos: "0 < x \<Longrightarrow> f64 x = of_int (round_even (x / ulp x)) * ulp x"
  by (simp add: f64_def)

lemma f64_0 [simp]: "f64 0 = 0"
  by (simp add: f64_def)

lemma scaled_bounds:
  assumes "0 < x"
  shows "2 ^ 52 \<le> x / ulp x" "x / ulp x < 2 ^ 53"
proof -
  have p: "(2 :: rat) powi (e + d) = 2 powi e * 2 powi d" for e d
    by (rule power_int_add) simp
  have "(2 :: rat) powi (exponent2 x) = 2 ^ 52 * ulp x"
    using p[of "exponent2 x - 52" 52] by (simp add: ulp_def)
  moreover have "(2 :: rat) powi (exponent2 x + 1) = 2 ^ 53 * ulp x"
    using p[of "exponent2 x - 52" 53] by (simp add: ulp_def add.commute)
  ultimately show "2 ^ 52 \<le> x / ulp x" "x / ulp x < 2 ^ 53"
    using exponent2_bounds[OF assms] by (simp_all add: field_simps)
qed

lemma f64_between:
  assumes "0 < x"
  shows "2 powi (exponent2 x) \<le> f64 x" "f64 x \<le> 2 powi (exponent2 x + 1)"
proof -
  let ?r = "round_even (x / ulp x)"
  have "round_even (of_int (2 ^ 52)) \<le> ?r" "?r \<le> round_even (of_int (2 ^ 53))"
    using scaled_bounds[OF assms] by (intro round_even_mono; simp)+
  then have r: "2 ^ 52 \<le> (of_int ?r :: rat)" "(of_int ?r :: rat) \<le> 2 ^ 53"
    unfolding round_even_int by (metis of_int_le_iff of_int_numeral of_int_power)+
  have p: "(2 :: rat) powi (exponent2 x) = 2 ^ 52 * ulp x" "(2 :: rat) powi (exponent2 x + 1) = 2 ^ 53 * ulp x"
    using power_int_add[of "2 :: rat" "exponent2 x - 52" 52] power_int_add[of "2 :: rat" "exponent2 x - 52" 53]
    by (simp_all add: ulp_def add.commute)
  show "2 powi (exponent2 x) \<le> f64 x" "f64 x \<le> 2 powi (exponent2 x + 1)"
    unfolding p f64_pos[OF assms] using r by (auto intro!: mult_right_mono simp: less_imp_le)
qed

lemma f64_nonneg: "0 \<le> x \<Longrightarrow> 0 \<le> f64 x"
proof -
  assume "0 \<le> x"
  show ?thesis
  proof (cases "x = 0")
    case False
    with \<open>0 \<le> x\<close> have "0 < x" by simp
    then have "2 powi (exponent2 x) \<le> f64 x" by (rule f64_between)
    moreover have "(0 :: rat) < 2 powi (exponent2 x)" by simp
    ultimately show ?thesis by linarith
  qed simp
qed

lemma f64_mono:
  assumes "0 \<le> x" "x \<le> y"
  shows "f64 x \<le> f64 y"
proof (cases "x = 0")
  case True
  with assms show ?thesis by (simp add: f64_nonneg)
next
  case False
  with assms have x: "0 < x" and y: "0 < y" by auto
  show ?thesis
  proof (cases "exponent2 x = exponent2 y")
    case True
    then have u: "ulp x = ulp y" by (simp add: ulp_def)
    have "round_even (x / ulp x) \<le> round_even (y / ulp y)"
      unfolding u using assms(2) by (intro round_even_mono divide_right_mono) (simp_all add: less_imp_le)
    then show ?thesis
      unfolding f64_pos[OF x] f64_pos[OF y] u by (intro mult_right_mono) (simp_all add: less_imp_le)
  next
    case False
    then have "exponent2 x + 1 \<le> exponent2 y" using exponent2_mono[OF x assms(2)] by simp
    then have "(2 :: rat) powi (exponent2 x + 1) \<le> 2 powi (exponent2 y)" by (intro power_int_increasing) simp_all
    with f64_between[OF x] f64_between[OF y] show ?thesis by linarith
  qed
qed

lemma f64_error:
  assumes "0 \<le> x"
  shows "\<bar>f64 x - x\<bar> \<le> x / 2 ^ 53"
proof (cases "x = 0")
  case False
  with assms have x: "0 < x" by simp
  have "f64 x - x = (of_int (round_even (x / ulp x)) - x / ulp x) * ulp x"
    unfolding f64_pos[OF x] by (simp add: algebra_simps)
  then have "\<bar>f64 x - x\<bar> = \<bar>of_int (round_even (x / ulp x)) - x / ulp x\<bar> * ulp x"
    by (simp add: abs_mult abs_of_pos)
  also have "\<dots> \<le> 1 / 2 * ulp x"
    by (intro mult_right_mono round_even_bounds) (simp add: less_imp_le)
  also have "\<dots> \<le> x / 2 ^ 53"
    using scaled_bounds(1)[OF x] ulp_pos[of x] by (simp add: field_simps)
  finally show ?thesis .
qed simp

text \<open>Integers up to \<open>2^53\<close> are exact.\<close>

lemma f64_of_int_exact:
  assumes "0 \<le> n" "n \<le> 2 ^ 53"
  shows "f64 (of_int n) = of_int n"
proof (cases "n = 0 \<or> n = 2 ^ 53")
  case True
  have "exponent2 (2 ^ 53) = 53" by (rule exponent2_unique) simp_all
  then have "f64 (2 ^ 53) = 2 ^ 53"
    using round_even_int[of "2 ^ 52"] by (simp add: f64_def ulp_def)
  with True show ?thesis by auto
next
  case False
  let ?x = "of_int n :: rat"
  have n: "1 \<le> n" "n < 2 ^ 53" using assms False by auto
  then have x: "0 < ?x" by simp
  have "exponent2 ?x = bitlen n - 1" using n by (simp add: exponent2_def)
  moreover have "bitlen n \<le> 53"
    using n by (simp add: bitlen_le_iff_power)
  moreover have "1 \<le> bitlen n"
    using n bitlen_eq_zero_iff[of n] bitlen_nonneg[of n] by linarith
  ultimately have "ulp ?x = 1 / 2 ^ nat (53 - bitlen n)"
    by (auto simp: ulp_def power_int_def inverse_eq_divide nat_diff_distrib power_one_over)
  then have "?x / ulp ?x = of_int (n * 2 ^ nat (53 - bitlen n))" by simp
  then have "f64 ?x = of_int (n * 2 ^ nat (53 - bitlen n)) * ulp ?x"
    unfolding f64_pos[OF x] by (simp only: round_even_int)
  with \<open>ulp ?x = _\<close> show ?thesis by simp
qed

corollary f64_of_int_small: "0 \<le> n \<Longrightarrow> n \<le> 2 ^ 53 \<Longrightarrow> f64_of_int n = of_int n"
  by (simp add: f64_of_int_def f64_of_int_exact)

text \<open>Rounding cannot cross an integer: what is above (below) one stays above (below) it.\<close>

lemma f64_le_int: "0 \<le> x \<Longrightarrow> x \<le> of_int n \<Longrightarrow> n \<le> 2 ^ 53 \<Longrightarrow> f64 x \<le> of_int n"
  using f64_mono[of x "of_int n"] f64_of_int_exact[of n] by (cases "0 \<le> n") auto

lemma f64_ge_int: "0 \<le> n \<Longrightarrow> of_int n \<le> x \<Longrightarrow> n \<le> 2 ^ 53 \<Longrightarrow> of_int n \<le> f64 x"
  using f64_mono[of "of_int n" x] f64_of_int_exact[of n] by simp

end
