(* ===== verification/Response.thy ===== *)
theory Response
  imports Iso_Properties Go_Float
begin

text \<open>
  \<open>network/server/iso_response_handler.go\<close>: the issuer's answer to an incoming request.
  \<open>rand.Intn\<close> is the parameter \<open>intn\<close> (for \<open>0 < n\<close> it returns a value from 0 to
  \<open>n - 1\<close>), the clock a parameter, and \<open>time.Sleep\<close> the first component of the result, the
  seconds slept.
\<close>

section \<open>Clock text\<close>

record clock =
  ck_month :: nat
  ck_day :: nat
  ck_hour :: nat
  ck_minute :: nat
  ck_second :: nat

definition valid_clock :: "clock \<Rightarrow> bool" where
  "valid_clock t \<longleftrightarrow> 1 \<le> ck_month t \<and> ck_month t \<le> 12 \<and> 1 \<le> ck_day t \<and> ck_day t \<le> 31
     \<and> ck_hour t < 24 \<and> ck_minute t < 60 \<and> ck_second t < 60"

text \<open>\<open>Format("150405")\<close> and \<open>Format("0102150405")\<close>.\<close>

definition format_hms :: "clock \<Rightarrow> string" where
  "format_hms t = fmt_0d 2 (int (ck_hour t)) @ fmt_0d 2 (int (ck_minute t)) @ fmt_0d 2 (int (ck_second t))"

definition format_mdhms :: "clock \<Rightarrow> string" where
  "format_mdhms t = fmt_0d 2 (int (ck_month t)) @ fmt_0d 2 (int (ck_day t)) @ format_hms t"

lemma length_format_hms: "valid_clock t \<Longrightarrow> length (format_hms t) = 6"
  by (simp add: valid_clock_def format_hms_def length_fmt_0d)

lemma length_format_mdhms: "valid_clock t \<Longrightarrow> length (format_mdhms t) = 10"
  by (simp add: format_mdhms_def length_format_hms) (simp add: valid_clock_def length_fmt_0d)

section \<open>Message types\<close>

definition fieldIdxAuthID :: int where "fieldIdxAuthID = 37"
definition fieldIdxResponseCode :: int where "fieldIdxResponseCode = 38"
definition fieldIdxCurrency :: int where "fieldIdxCurrency = 48"
definition fieldIdxAddlAmounts :: int where "fieldIdxAddlAmounts = 53"
definition fieldIdxIssuerData :: int where "fieldIdxIssuerData = 122"

lemmas field_indices =
  fieldIdxAuthID_def fieldIdxResponseCode_def fieldIdxCurrency_def fieldIdxAddlAmounts_def
  fieldIdxIssuerData_def

definition requestMTISet :: "string list" where
  "requestMTISet = [''0100'', ''0101'', ''0200'', ''0201'', ''0420'', ''0421'', ''0800'']"

definition responseMTISet :: "string list" where
  "responseMTISet = [''0110'', ''0111'', ''0130'', ''0131'', ''0210'', ''0211'', ''0230'', ''0231'',
     ''0430'', ''0431'', ''0810'']"

definition isRequestMTI :: "string \<Rightarrow> bool" where
  "isRequestMTI mti \<longleftrightarrow> mti \<in> set requestMTISet"

definition isResponseMTI :: "string \<Rightarrow> bool" where
  "isResponseMTI mti \<longleftrightarrow> mti \<in> set responseMTISet"

definition toResponseMTI :: "string \<Rightarrow> string" where
  "toResponseMTI mti = fmt_0d 4 ((fst (Atoi mti) AND 0xFFFE) + 10)"

section \<open>Tagged data in field 123\<close>

definition extractTag :: "string \<Rightarrow> string \<Rightarrow> (string, string) result" where
  "extractTag field tag =
     (let ind = str_index field tag in
      if ind = -1 \<or> int (length field) < ind + 4 then Ok []
      else bindR (go_slice field (ind + 2) (ind + 4)) (\<lambda>ls.
           case Atoi ls of
             (_, Some _) \<Rightarrow> Ok []
           | (l, None) \<Rightarrow>
               if int (length field) < ind + 4 + l then Ok []
               else go_slice field (ind + 4) (ind + 4 + l)))"

definition avs_code :: "string \<Rightarrow> string" where
  "avs_code avData =
     (let zip = trim_right (CHR '' '') (take 9 avData);
          street = drop 9 avData;
          zip9 = length zip = 9 \<and> has_prefix zip ''9'';
          zip5 = 5 \<le> length zip \<and> (has_prefix zip ''5'' \<or> has_prefix zip ''3'');
          hasStreet = street \<noteq> [] \<and> is_digit (hd street)
      in if zip9 \<and> hasStreet then ''X''
         else if zip5 \<and> hasStreet then ''Y''
         else if zip5 then ''Z''
         else if zip9 then ''W''
         else if hasStreet then ''A''
         else ''N'')"

definition getAVSResult :: "string \<Rightarrow> (string, string) result" where
  "getAVSResult field123 =
     bindR (extractTag field123 ''AV'') (\<lambda>avData.
       if avData = [] \<or> length avData < 9 then Ok ''E'' else Ok (avs_code avData))"

definition getCVVResult :: "string \<Rightarrow> (string, string) result" where
  "getCVVResult field123 =
     bindR (extractTag field123 ''CV'') (\<lambda>cvVal.
       if cvVal = [] then Ok ''N''
       else if 3 \<le> length cvVal \<and> drop (length cvVal - 3) cvVal = ''949'' then Ok ''M''
       else if cvVal = ''838'' then Ok ''P''
       else Ok ''N'')"

definition buildField123 :: "string \<Rightarrow> string \<Rightarrow> string" where
  "buildField123 ar cr = ''TDAR01'' @ ar @ ''CR01'' @ cr"

definition additionalAmount :: "string \<Rightarrow> string \<Rightarrow> string \<Rightarrow> int \<Rightarrow> string" where
  "additionalAmount accountType amountType currency amount =
     accountType @ amountType @ currency @ ''C'' @ fmt_0d 12 amount"

section \<open>Response codes\<close>

definition responseCodeFromDigit ::
    "(int \<Rightarrow> int) \<Rightarrow> int \<Rightarrow> string \<Rightarrow> (string, nat \<times> string) result" where
  "responseCodeFromDigit intn digit field123 =
     (let slept = (if digit = 4 \<or> digit = 5 then 2 else 0);
          pick = (\<lambda>codes. bindR (at_index codes (intn (int (length codes)))) (\<lambda>c. Ok (slept, c)))
      in if digit \<in> {0, 1, 2, 3, 4} then
           (if str_contains field123 ''SUPPORT'' then Ok (slept, ''10'') else Ok (slept, ''00''))
         else if digit = 5 then Ok (slept, ''00'')
         else if digit = 6 then pick [''05'', ''06'', ''07'']
         else if digit = 7 then Ok (slept, ''51'')
         else if digit = 8 then pick [''34'', ''33'', ''35'']
         else if digit = 9 then pick [''SA'', ''SB'', ''SD'', ''SR'', ''T3'', ''T4'', ''T5'']
         else Ok (slept, ''96''))"

definition parse_amount :: "string \<Rightarrow> int" where
  \<comment> \<open>\<open>strconv.ParseInt(strings.TrimLeft(amount, "0"), 10, 64)\<close> with the error dropped\<close>
  "parse_amount amount = fst (ParseInt (trim_left (CHR ''0'') amount))"

definition getResponseCode ::
    "(int \<Rightarrow> int) \<Rightarrow> string \<Rightarrow> string \<Rightarrow> string \<Rightarrow> (string, nat \<times> string) result" where
  "getResponseCode intn pan amount field123 =
     (if length pan < 16 then Ok (0, ''96'')
      else bindR (at_index pan 15) (\<lambda>c.
        case Atoi (string_of_byte c) of
          (_, Some _) \<Rightarrow> Ok (0, ''96'')
        | (digit, None) \<Rightarrow>
            let amtInt = parse_amount amount;
                digit' = (if amtInt = 0 \<and> digit = 7 then 0 else digit)
            in responseCodeFromDigit intn digit' field123))"

section \<open>buildResponse\<close>

text \<open>\<open>MarkField\<close> and then \<open>SetField\<close>, the pair every response-specific field is written with.\<close>

definition put_field :: "Iso8583Message \<Rightarrow> int \<Rightarrow> string \<Rightarrow> (string, Iso8583Message) result" where
  "put_field m i v = bindR (MarkField m i) (\<lambda>m'. Ok (SetField m' i v))"

definition balance_80 :: "int \<Rightarrow> int" where
  \<comment> \<open>\<open>int64(float64(origAmt)*0.8)\<close>\<close>
  "balance_80 origAmt = int_of_f64 (f64_mul (f64_of_int origAmt) (f64 (8 / 10)))"

definition addPartial :: "Iso8583Message \<Rightarrow> string \<Rightarrow> int \<Rightarrow> string \<Rightarrow> (string, Iso8583Message) result" where
  "addPartial resp responseCode origAmt currency =
     (if responseCode = ''10'' then
        bindR (go_div origAmt 2) (\<lambda>half.
        put_field (SetField resp 3 (fmt_0d 12 half)) fieldIdxAddlAmounts
          (additionalAmount ''00'' ''91'' currency origAmt))
      else Ok resp)"

definition addBalance :: "Iso8583Message \<Rightarrow> string \<Rightarrow> string \<Rightarrow> int \<Rightarrow> string \<Rightarrow> (string, Iso8583Message) result" where
  "addBalance resp responseCode field123 origAmt currency =
     (if responseCode = ''51'' \<and> str_contains field123 ''RETURNBAL'' then
        put_field resp fieldIdxAddlAmounts (additionalAmount ''00'' ''02'' currency (balance_80 origAmt))
      else Ok resp)"

definition buildResponse ::
    "(int \<Rightarrow> int) \<Rightarrow> clock \<Rightarrow> Iso8583Message \<Rightarrow> (string, nat \<times> Iso8583Message) result" where
  "buildResponse intn now req =
     bindR (GetMTI req) (\<lambda>mti.
     bindR (NewResponseMessage req (toResponseMTI mti)) (\<lambda>resp.
     if mti = ''0800'' \<or> mti = ''0801'' then
       bindR (put_field resp fieldIdxResponseCode ''00'') (\<lambda>resp. Ok (0, resp))
     else
       let pan = GetField req 1;
           amount = GetField req 3;
           field123 = GetField req fieldIdxIssuerData in
       bindR (getResponseCode intn pan amount field123) (\<lambda>(slept, responseCode).
       bindR (put_field resp fieldIdxAuthID (format_hms now)) (\<lambda>resp.
       bindR (put_field resp fieldIdxResponseCode responseCode) (\<lambda>resp.
       bindR (MarkField resp fieldIdxIssuerData) (\<lambda>resp.
       bindR (getAVSResult field123) (\<lambda>ar.
       bindR (getCVVResult field123) (\<lambda>cr.
       let resp = SetField resp fieldIdxIssuerData (buildField123 ar cr);
           origAmt = parse_amount amount;
           currency = (if GetField req fieldIdxCurrency = [] then ''840'' else GetField req fieldIdxCurrency) in
       bindR (addPartial resp responseCode origAmt currency) (\<lambda>resp.
       bindR (addBalance resp responseCode field123 origAmt currency) (\<lambda>resp.
       Ok (slept, resp)))))))))))"

section \<open>Tags\<close>

text \<open>A tag whose two length characters read as a negative number, such as \<open>-1\<close>.\<close>

definition negative_tag :: "string \<Rightarrow> string \<Rightarrow> bool" where
  "negative_tag field tag \<longleftrightarrow>
     (let ind = str_index field tag; ls = take 2 (drop (nat (ind + 2)) field) in
      ind \<noteq> -1 \<and> ind + 4 \<le> int (length field) \<and> snd (Atoi ls) = None \<and> fst (Atoi ls) < 0)"

lemma extractTag_eval:
  "extractTag field tag =
     (let ind = str_index field tag; ls = take 2 (drop (nat (ind + 2)) field); l = fst (Atoi ls) in
      if ind = -1 \<or> int (length field) < ind + 4 \<or> snd (Atoi ls) \<noteq> None
         \<or> int (length field) < ind + 4 + l then Ok []
      else if l < 0 then panic
      else Ok (take (nat l) (drop (nat (ind + 4)) field)))"
proof (cases "str_index field tag = -1 \<or> int (length field) < str_index field tag + 4")
  case True
  then show ?thesis by (auto simp: extractTag_def Let_def)
next
  case False
  then have "0 \<le> str_index field tag" using str_index_lower[of field tag] by linarith
  with False show ?thesis
    by (cases "Atoi (take 2 (drop (nat (str_index field tag + 2)) field))")
       (auto simp: extractTag_def Let_def go_slice_def split: option.splits)
qed

lemma extractTag_panic: "extractTag field tag = panic \<longleftrightarrow> negative_tag field tag"
  by (auto simp: extractTag_eval negative_tag_def Let_def)

lemma extractTag_not_fail: "extractTag field tag \<noteq> fail e"
  by (simp add: extractTag_eval Let_def)

lemma extractTag_Ok: "\<not> negative_tag field tag \<Longrightarrow> \<exists>v. extractTag field tag = Ok v"
  by (cases "extractTag field tag" rule: sum.exhaust)
     (metis extractTag_panic extractTag_not_fail fault.exhaust, blast)

lemma getAVSResult_ok:
  "\<not> negative_tag f ''AV'' \<Longrightarrow> \<exists>ar. getAVSResult f = Ok ar \<and> length ar = 1"
  using extractTag_Ok[of f "''AV''"] by (auto simp: getAVSResult_def avs_code_def Let_def)

lemma getCVVResult_ok:
  "\<not> negative_tag f ''CV'' \<Longrightarrow> \<exists>cr. getCVVResult f = Ok cr \<and> length cr = 1"
  using extractTag_Ok[of f "''CV''"] by (auto simp: getCVVResult_def)

section \<open>Response codes are two characters, and no choice of \<open>rand\<close> panics\<close>

definition intn_ok :: "(int \<Rightarrow> int) \<Rightarrow> bool" where
  "intn_ok intn \<longleftrightarrow> (\<forall>n > 0. 0 \<le> intn n \<and> intn n < n)"

lemma pick_ok:
  assumes "intn_ok intn" "codes \<noteq> []" "\<forall>c \<in> set codes. P c"
  shows "\<exists>c. at_index codes (intn (int (length codes))) = Ok c \<and> P c"
  using assms by (auto simp: intn_ok_def at_index_def nat_less_iff)

lemma responseCodeFromDigit_ok:
  assumes "intn_ok intn"
  shows "\<exists>slept code. responseCodeFromDigit intn digit f = Ok (slept, code) \<and> length code = 2"
proof -
  note p = pick_ok[OF assms, of _ "\<lambda>c. length c = 2"]
  have "\<exists>c. at_index [''05'', ''06'', ''07''] (intn 3) = (Ok c :: (string, string) result) \<and> length c = 2"
    "\<exists>c. at_index [''34'', ''33'', ''35''] (intn 3) = (Ok c :: (string, string) result) \<and> length c = 2"
    "\<exists>c. at_index [''SA'', ''SB'', ''SD'', ''SR'', ''T3'', ''T4'', ''T5''] (intn 7)
          = (Ok c :: (string, string) result) \<and> length c = 2"
    using p[of "[''05'', ''06'', ''07'']"] p[of "[''34'', ''33'', ''35'']"]
      p[of "[''SA'', ''SB'', ''SD'', ''SR'', ''T3'', ''T4'', ''T5'']"] by simp_all
  then show ?thesis
    by (auto simp: responseCodeFromDigit_def Let_def)
qed

lemma getResponseCode_ok:
  assumes "intn_ok intn"
  shows "\<exists>slept code. getResponseCode intn pan amount f = Ok (slept, code) \<and> length code = 2"
  using responseCodeFromDigit_ok[OF assms]
  by (auto simp: getResponseCode_def at_index_def Let_def split: option.splits prod.splits)

section \<open>Message types\<close>

lemma toResponseMTI_requests:
  "toResponseMTI ''0100'' = ''0110''" "toResponseMTI ''0101'' = ''0110''"
  "toResponseMTI ''0200'' = ''0210''" "toResponseMTI ''0201'' = ''0210''"
  "toResponseMTI ''0420'' = ''0430''" "toResponseMTI ''0421'' = ''0430''"
  "toResponseMTI ''0800'' = ''0810''"
  by (simp_all add: toResponseMTI_def eval_simps)

lemma request_MTI_response:
  assumes "isRequestMTI mti"
  shows "isResponseMTI (toResponseMTI mti)" "length (toResponseMTI mti) = 4" "length mti = 4"
  using assms
  by (auto simp: isRequestMTI_def requestMTISet_def isResponseMTI_def responseMTISet_def
           toResponseMTI_requests)

section \<open>Amounts\<close>

definition amount_range :: "int \<Rightarrow> bool" where
  "amount_range n \<longleftrightarrow> - (10 ^ 11) < n \<and> n < 10 ^ 12"

lemma parse_amount_range: "length amount \<le> 12 \<Longrightarrow> amount_range (parse_amount amount)"
proof -
  assume len: "length amount \<le> 12"
  let ?s = "trim_left (CHR ''0'') amount"
  have s: "length ?s \<le> 12" using len length_dropWhile_le[of "\<lambda>x. x = CHR ''0''" amount]
    by (simp add: trim_left_def)
  have "(10 :: int) ^ (length ?s - 1) \<le> 10 ^ 11" "(10 :: int) ^ length ?s \<le> 10 ^ 12"
    using s by (intro power_increasing; simp)+
  with ParseInt_range[of ?s] s show ?thesis by (simp add: amount_range_def parse_amount_def)
qed

lemma fmt_amount: "amount_range n \<Longrightarrow> length (fmt_0d 12 n) = 12"
  by (rule length_fmt_0d_signed) (simp_all add: amount_range_def)

lemma half_amount: "amount_range n \<Longrightarrow> go_div n 2 = Ok (sgn n * (\<bar>n\<bar> div 2)) \<and> amount_range (sgn n * (\<bar>n\<bar> div 2))"
proof -
  assume n: "amount_range n"
  let ?h = "sgn n * (\<bar>n\<bar> div 2)"
  have "amount_range ?h" using n by (auto simp: amount_range_def sgn_if)
  then have "wrap64 ?h = ?h" by (intro wrap64_id) (simp add: amount_range_def int64_def)
  with \<open>amount_range ?h\<close> show ?thesis by (simp add: go_div_def)
qed

text \<open>The double nearest to 0.8, and the exactness of the integer part of its product.\<close>

lemma f64_4_5: "f64 (4 / 5) = 3602879701896397 / 4503599627370496"
proof -
  have "exponent2 (4 / 5) = -1" by (rule exponent2_unique) (simp_all add: power_int_def)
  then have u: "ulp (4 / 5) = 1 / 9007199254740992" by (simp add: ulp_def power_int_def power_one_over)
  have "round_even (36028797018963968 / 5) = 7205759403792794"
    by (simp add: round_even_def Let_def floor_divide_of_int_eq[of 36028797018963968 5, simplified])
  then show ?thesis by (simp add: f64_def u)
qed

lemma balance_80_exact:
  assumes "0 \<le> n" "n < 2 ^ 50"
  shows "balance_80 n = 4 * n div 5"
proof -
  let ?q = "4 * n div 5" and ?p = "of_int n * (3602879701896397 / 4503599627370496) :: rat"
  have q: "0 \<le> ?q" "5 * ?q \<le> 4 * n" "4 * n < 5 * (?q + 1)" "?q \<le> 2 ^ 53"
    using assms by auto
  have "balance_80 n = int_of_f64 (f64 ?p)"
    using assms f64_of_int_small[of n] by (simp add: balance_80_def f64_mul_def f64_4_5)
  moreover have "of_int ?q \<le> f64 ?p"
  proof (rule f64_ge_int[OF q(1) _ q(4)])
    have "(of_int (5 * ?q) :: rat) \<le> of_int (4 * n)" using q(2) by (simp only: of_int_le_iff)
    then show "of_int ?q \<le> ?p" using assms(1) by simp
  qed
  moreover have "f64 ?p < of_int ?q + 1"
  proof -
    have "4 * n + 1 \<le> 5 * (?q + 1)" using q(3) by simp
    then have "(of_int (4 * n + 1) :: rat) \<le> of_int (5 * (?q + 1))" by (simp only: of_int_le_iff)
    moreover have "(of_int n :: rat) < of_int (2 ^ 50)" using assms(2) by (simp only: of_int_less_iff)
    moreover have "f64 ?p \<le> ?p + ?p / 2 ^ 53"
      using order_trans[OF abs_ge_self f64_error[of ?p]] assms(1) by simp
    ultimately show ?thesis by simp
  qed
  ultimately have "\<lfloor>f64 ?p\<rfloor> = ?q" "0 \<le> f64 ?p"
    using q(1) by (simp_all add: floor_unique)
  with \<open>balance_80 n = _\<close> show ?thesis by (simp add: int_of_f64_def)
qed

section \<open>buildResponse keeps messages well-formed\<close>

text \<open>What the response builder assumes of the specification: the types and lengths of fields
  4, 38, 39, 49, 54 and 123, as in the shipped one.\<close>

definition field_is :: "IsoSpec \<Rightarrow> int \<Rightarrow> string \<Rightarrow> int \<Rightarrow> bool" where
  "field_is spec no ty mn \<longleftrightarrow>
     (case FieldDefMap spec no of
        None \<Rightarrow> False
      | Some fd \<Rightarrow> FieldType fd = ty \<and> (ty = ''Fixed'' \<longrightarrow> MinLength fd = mn))"

definition issuer_spec :: "IsoSpec \<Rightarrow> bool" where
  "issuer_spec spec \<longleftrightarrow>
     field_is spec 4 ''Fixed'' 12 \<and> field_is spec 38 ''Fixed'' 6 \<and> field_is spec 39 ''Fixed'' 2
     \<and> field_is spec 49 ''Fixed'' 3 \<and> field_is spec 54 ''LLLVar'' 0 \<and> field_is spec 123 ''LLLVar'' 0"

lemma issuer_values:
  assumes "issuer_spec spec"
  shows "value_ok spec 3 v \<longleftrightarrow> length v = 12" "value_ok spec 37 v \<longleftrightarrow> length v = 6"
    "value_ok spec 38 v \<longleftrightarrow> length v = 2" "value_ok spec 48 v \<longleftrightarrow> length v = 3"
    "value_ok spec 53 v \<longleftrightarrow> length v < 1000" "value_ok spec 122 v \<longleftrightarrow> length v < 1000"
  using assms by (auto simp: issuer_spec_def field_is_def value_ok_def split: option.splits)

lemma bundled_issuer: "issuer_spec bundled_spec"
  by (simp add: issuer_spec_def field_is_def bundled_lookup bundled_rows_def field_def_def)

abbreviation put :: "Iso8583Message \<Rightarrow> int \<Rightarrow> string \<Rightarrow> Iso8583Message" where
  "put m i v \<equiv> SetField (marked m i) i v"

lemma put_field_ok: "i < 128 \<Longrightarrow> put_field m i v = Ok (put m i v)"
  by (simp add: put_field_def MarkField_ok)

lemma GetField_upd [simp]: "GetField (SetField m i v) j = (if j = i then v else GetField m j)"
  by (simp add: GetField_def)

lemma GetField_marked [simp]: "GetField (marked m i) j = GetField m j"
  by (simp add: GetField_def)

lemma GetField_message [simp]: "GetField (m\<lparr>message := s\<rparr>) j = GetField m j"
  by (simp add: GetField_def)

lemma keys_of_put: "wf_msg m \<Longrightarrow> 1 \<le> i \<Longrightarrow> i < 128 \<Longrightarrow> k \<in> set (keys_of (put m i v)) \<longleftrightarrow> k = i \<or> k \<in> set (keys_of m)"
  using keys_of_marked[of m i k] by simp

lemma GetField_length:
  assumes "wf_msg m" "issuer_spec (isoSpec m)"
  shows "length (GetField m 3) \<le> 12" "GetField m 48 \<noteq> [] \<Longrightarrow> length (GetField m 48) = 3"
  using wf_msgD(4)[OF assms(1), of 3] wf_msgD(4)[OF assms(1), of 48] issuer_values[OF assms(2)]
  by (auto simp: GetField_def split: option.splits)

lemma additionalAmount_length:
  "length acc = 2 \<Longrightarrow> length ty = 2 \<Longrightarrow> length cur = 3 \<Longrightarrow> amount_range n \<Longrightarrow>
     length (additionalAmount acc ty cur n) = 20"
  by (simp add: additionalAmount_def fmt_amount)

text \<open>\<open>extends resp r\<close>: \<open>r\<close> differs from \<open>resp\<close> in fields 4 and 54 only.\<close>

definition extends :: "Iso8583Message \<Rightarrow> Iso8583Message \<Rightarrow> bool" where
  "extends resp r \<longleftrightarrow>
     wf_msg r \<and> message r = message resp \<and> isoSpec r = isoSpec resp
     \<and> (\<forall>j. j \<noteq> 3 \<and> j \<noteq> 53 \<longrightarrow> GetField r j = GetField resp j)"

lemma addPartial_ok:
  assumes "wf_msg resp" "issuer_spec (isoSpec resp)" "code = ''10'' \<longrightarrow> 3 \<in> set (keys_of resp)"
    and "amount_range n" "length currency = 3"
  shows "\<exists>r. addPartial resp code n currency = Ok r \<and> extends resp r"
proof (cases "code = ''10''")
  case True
  obtain h where h: "go_div n 2 = (Ok h :: (string, int) result)" "amount_range h"
    using half_amount[OF assms(4)] by metis
  let ?r = "SetField resp 3 (fmt_0d 12 h)"
  have "wf_msg ?r"
    using True assms(1-3) h(2) by (intro wf_set_present) (simp_all add: issuer_values fmt_amount)
  then have "wf_msg (put ?r 53 (additionalAmount ''00'' ''91'' currency n))"
    using assms by (intro wf_mark_set) (simp_all add: issuer_values additionalAmount_length)
  with True h show ?thesis
    by (simp add: addPartial_def put_field_ok field_indices extends_def)
next
  case False
  with assms(1) show ?thesis by (simp add: addPartial_def extends_def)
qed

lemma balance_80_neg: "balance_80 (- n) = - balance_80 n"
proof -
  have "f64 (- x) = - f64 x" for x by (simp add: f64_def)
  moreover have "int_of_f64 (- y) = - int_of_f64 y" for y by (auto simp: int_of_f64_def floor_minus ceiling_minus)
  ultimately show ?thesis by (simp add: balance_80_def f64_mul_def f64_of_int_def)
qed

lemma balance_80_signed:
  assumes "amount_range n"
  shows "balance_80 n = sgn n * (4 * \<bar>n\<bar> div 5)"
proof (cases "0 \<le> n")
  case True
  with assms have "n < 2 ^ 50" by (simp add: amount_range_def)
  with True show ?thesis by (cases "n = 0") (simp_all add: balance_80_exact)
next
  case False
  with assms have "0 \<le> - n" "- n < 2 ^ 50" by (simp_all add: amount_range_def)
  from balance_80_exact[OF this] False balance_80_neg[of "- n"] show ?thesis by simp
qed

lemma balance_80_range: "amount_range n \<Longrightarrow> amount_range (balance_80 n)"
  by (auto simp: balance_80_signed amount_range_def sgn_if)

lemma addBalance_ok:
  assumes "wf_msg resp" "issuer_spec (isoSpec resp)" "amount_range n" "length currency = 3"
  shows "\<exists>r. addBalance resp code f n currency = Ok r \<and> extends resp r"
proof -
  let ?v = "additionalAmount ''00'' ''02'' currency (balance_80 n)"
  have "wf_msg (put resp 53 ?v)"
    using assms by (intro wf_mark_set)
      (simp_all add: issuer_values additionalAmount_length balance_80_range)
  with assms(1) show ?thesis
    by (simp add: addBalance_def put_field_ok field_indices extends_def)
qed

text \<open>The answer before the additional amounts: the request with the response MTI and fields
  38, 39 and 123 written.\<close>

definition answer_base :: "Iso8583Message \<Rightarrow> clock \<Rightarrow> string \<Rightarrow> string \<Rightarrow> string \<Rightarrow> Iso8583Message" where
  "answer_base req now code ar cr =
     put (put (put (req\<lparr>message := toResponseMTI (take 4 (message req)) @ drop 4 (message req)\<rparr>)
            37 (format_hms now)) 38 code) 122 (buildField123 ar cr)"

definition currency_of :: "Iso8583Message \<Rightarrow> string" where
  "currency_of req = (if GetField req 48 = [] then ''840'' else GetField req 48)"

lemma answer_base_frame:
  "isoSpec (answer_base req now code ar cr) = isoSpec req"
  "message (answer_base req now code ar cr) = toResponseMTI (take 4 (message req)) @ drop 4 (message req)"
  "GetField (answer_base req now code ar cr) j =
     (if j = 122 then buildField123 ar cr else if j = 38 then code
      else if j = 37 then format_hms now else GetField req j)"
  by (simp_all add: answer_base_def)

lemma answer_base_wf:
  assumes "wf_msg req" "issuer_spec (isoSpec req)" "isRequestMTI (take 4 (message req))"
    and "valid_clock now" "length code = 2" "length ar = 1" "length cr = 1"
  shows "wf_msg (answer_base req now code ar cr)"
    and "k \<in> set (keys_of req) \<Longrightarrow> k \<in> set (keys_of (answer_base req now code ar cr))"
proof -
  let ?r0 = "req\<lparr>message := toResponseMTI (take 4 (message req)) @ drop 4 (message req)\<rparr>"
  let ?r1 = "put ?r0 37 (format_hms now)" and ?r2 = "put (put ?r0 37 (format_hms now)) 38 code"
  note v = issuer_values[OF assms(2)]
  have r0: "wf_msg ?r0" using assms(1) request_MTI_response(2)[OF assms(3)] by (rule wf_response)
  have r1: "wf_msg ?r1"
    by (rule wf_mark_set[OF r0]) (simp_all add: v length_format_hms[OF assms(4)])
  have r2: "wf_msg ?r2" by (rule wf_mark_set[OF r1]) (simp_all add: v assms(5))
  show "wf_msg (answer_base req now code ar cr)"
    unfolding answer_base_def
    by (rule wf_mark_set[OF r2]) (simp_all add: v buildField123_def assms(6,7))
  show "k \<in> set (keys_of req) \<Longrightarrow> k \<in> set (keys_of (answer_base req now code ar cr))"
    using keys_of_put[OF r0, of 37] keys_of_put[OF r1, of 38] keys_of_put[OF r2, of 122]
    by (simp add: answer_base_def)
qed

lemma buildResponse_unfold:
  assumes "wf_msg req" "take 4 (message req) \<noteq> ''0800''" "isRequestMTI (take 4 (message req))"
    and "getResponseCode intn (GetField req 1) (GetField req 3) (GetField req 122) = Ok (slept, code)"
    and "getAVSResult (GetField req 122) = Ok ar" "getCVVResult (GetField req 122) = Ok cr"
  shows "buildResponse intn now req =
     bindR (addPartial (answer_base req now code ar cr) code (parse_amount (GetField req 3)) (currency_of req))
       (\<lambda>r. bindR (addBalance r code (GetField req 122) (parse_amount (GetField req 3)) (currency_of req))
              (\<lambda>r. Ok (slept, r)))"
proof -
  have "take 4 (message req) \<noteq> ''0801''"
    using assms(3) by (auto simp: isRequestMTI_def requestMTISet_def)
  then show ?thesis
    using wf_msgD(1)[OF assms(1)] assms(2,4-6)
    by (simp add: buildResponse_def GetMTI_def go_slice_def NewResponseMessage_ok put_field_ok MarkField_ok
        field_indices Let_def answer_base_def currency_of_def)
qed

lemma buildResponse_ok:
  assumes "wf_msg req" "issuer_spec (isoSpec req)" "isRequestMTI (take 4 (message req))"
    and "take 4 (message req) \<noteq> ''0800''" "valid_clock now"
    and tags: "\<not> negative_tag (GetField req 122) ''AV''" "\<not> negative_tag (GetField req 122) ''CV''"
    and code: "getResponseCode intn (GetField req 1) (GetField req 3) (GetField req 122) = Ok (slept, code)"
      "length code = 2"
    and de4: "code = ''10'' \<longrightarrow> 3 \<in> set (keys_of req)"
  shows "\<exists>resp. buildResponse intn now req = Ok (slept, resp) \<and> wf_msg resp
           \<and> isoSpec resp = isoSpec req
           \<and> message resp = toResponseMTI (take 4 (message req)) @ drop 4 (message req)
           \<and> GetField resp 37 = format_hms now \<and> GetField resp 38 = code
           \<and> (\<forall>j. j \<notin> {3, 37, 38, 53, 122} \<longrightarrow> GetField resp j = GetField req j)"
proof -
  obtain ar where ar: "getAVSResult (GetField req 122) = Ok ar" "length ar = 1"
    using getAVSResult_ok[OF tags(1)] by blast
  obtain cr where cr: "getCVVResult (GetField req 122) = Ok cr" "length cr = 1"
    using getCVVResult_ok[OF tags(2)] by blast
  let ?b = "answer_base req now code ar cr" and ?n = "parse_amount (GetField req 3)"
  note b = answer_base_wf[OF assms(1-3,5) code(2) ar(2) cr(2)]
  have cur: "length (currency_of req) = 3"
    using GetField_length(2)[OF assms(1,2)] by (simp add: currency_of_def)
  have amt: "amount_range ?n" using GetField_length(1)[OF assms(1,2)] by (rule parse_amount_range)
  obtain r where r: "addPartial ?b code ?n (currency_of req) = Ok r" "extends ?b r"
    using addPartial_ok[OF b(1) _ _ amt cur, of code] assms(2) de4 b(2) answer_base_frame(1) by auto
  obtain resp where resp: "addBalance r code (GetField req 122) ?n (currency_of req) = Ok resp" "extends r resp"
    using addBalance_ok[of r, OF _ _ amt cur, of code "GetField req 122"] assms(2) r(2) answer_base_frame(1)
    by (auto simp: extends_def)
  have "buildResponse intn now req = Ok (slept, resp)"
    using buildResponse_unfold[OF assms(1,4,3) code(1) ar(1) cr(1)] r(1) resp(1) by simp
  with r(2) resp(2) show ?thesis
    by (auto simp: extends_def answer_base_frame)
qed

text \<open>When building the answer panics, and what it writes for a request without an amount.\<close>

lemma addPartial_total: "\<exists>r. addPartial resp code n currency = Ok r"
  by (simp add: addPartial_def go_div_def put_field_ok field_indices)

lemma addBalance_total: "\<exists>r. addBalance resp code f n currency = Ok r"
  by (simp add: addBalance_def put_field_ok field_indices)

lemma getAVSResult_panic: "getAVSResult f = panic \<longleftrightarrow> negative_tag f ''AV''"
  by (auto simp: getAVSResult_def extractTag_panic[symmetric] result_simps split: if_splits)

lemma getCVVResult_panic: "getCVVResult f = panic \<longleftrightarrow> negative_tag f ''CV''"
  by (auto simp: getCVVResult_def extractTag_panic[symmetric] result_simps split: if_splits)

lemma buildResponse_panic:
  assumes "wf_msg req" "take 4 (message req) \<noteq> ''0800''" "isRequestMTI (take 4 (message req))"
    and "getResponseCode intn (GetField req 1) (GetField req 3) (GetField req 122) = Ok (slept, code)"
  shows "buildResponse intn now req = panic \<longleftrightarrow>
           negative_tag (GetField req 122) ''AV'' \<or> negative_tag (GetField req 122) ''CV''"
proof (cases "negative_tag (GetField req 122) ''AV'' \<or> negative_tag (GetField req 122) ''CV''")
  case True
  have "take 4 (message req) \<noteq> ''0801''"
    using assms(3) by (auto simp: isRequestMTI_def requestMTISet_def)
  moreover have "getAVSResult (GetField req 122) = panic \<or>
      (\<exists>ar. getAVSResult (GetField req 122) = Ok ar) \<and> getCVVResult (GetField req 122) = panic"
    using True getAVSResult_ok getCVVResult_panic getAVSResult_panic by blast
  ultimately show ?thesis
    using True wf_msgD(1)[OF assms(1)] assms(2,4)
    by (auto simp: buildResponse_def GetMTI_def go_slice_def NewResponseMessage_ok put_field_ok MarkField_ok
        field_indices Let_def)
next
  case False
  obtain ar where ar: "getAVSResult (GetField req 122) = Ok ar"
    using getAVSResult_ok False by blast
  obtain cr where cr: "getCVVResult (GetField req 122) = Ok cr"
    using getCVVResult_ok False by blast
  obtain r where r: "addPartial (answer_base req now code ar cr) code (parse_amount (GetField req 3))
      (currency_of req) = Ok r"
    using addPartial_total by blast
  obtain s where "addBalance r code (GetField req 122) (parse_amount (GetField req 3)) (currency_of req) = Ok s"
    using addBalance_total by blast
  with r have "buildResponse intn now req = Ok (slept, s)"
    using buildResponse_unfold[OF assms ar cr] by simp
  with False show ?thesis by simp
qed

lemma set_keys_marked_other:
  assumes "1 \<le> i" "i < 128" "i \<noteq> j" "1 \<le> j" "j < 64"
  shows "j \<in> set (keys_of (marked m i)) \<longleftrightarrow> j \<in> set (keys_of m)"
  using assms by (auto simp: marked_def set_field_keys split: option.splits)

lemma buildResponse_unannounced:
  assumes "wf_msg req" "take 4 (message req) \<noteq> ''0800''" "isRequestMTI (take 4 (message req))"
    and "getResponseCode intn (GetField req 1) (GetField req 3) (GetField req 122) = Ok (slept, ''10'')"
    and "\<not> negative_tag (GetField req 122) ''AV''" "\<not> negative_tag (GetField req 122) ''CV''"
    and "msg_fields req 3 = None"
  shows "\<exists>resp. buildResponse intn now req = Ok (slept, resp) \<and> GetField resp 3 = ''000000000000''
           \<and> msg_fields resp 3 \<noteq> None \<and> 3 \<notin> set (keys_of resp)"
proof -
  obtain ar where ar: "getAVSResult (GetField req 122) = Ok ar" using getAVSResult_ok[OF assms(5)] by blast
  obtain cr where cr: "getCVVResult (GetField req 122) = Ok cr" using getCVVResult_ok[OF assms(6)] by blast
  have zero: "parse_amount (GetField req 3) = 0"
    using assms(7) by (simp add: GetField_def parse_amount_def trim_left_def eval_simps)
  let ?b = "answer_base req now ''10'' ar cr"
  let ?r = "put (SetField ?b 3 ''000000000000'') 53 (additionalAmount ''00'' ''91'' (currency_of req) 0)"
  have "buildResponse intn now req = Ok (slept, ?r)"
    using buildResponse_unfold[OF assms(1-4) ar cr]
    by (simp add: zero addPartial_def addBalance_def go_div_def put_field_ok field_indices wrap64_def eval_simps)
  moreover have "3 \<notin> set (keys_of ?r)"
    using assms(7) wf_msgD(3)[OF assms(1), of 3]
    by (simp add: set_keys_marked_other answer_base_def)
  ultimately show ?thesis by simp
qed

text \<open>The digit of a PAN byte.\<close>

lemma Atoi_digit: "d < 10 \<Longrightarrow> Atoi [digit_char d] = (int d, None)"
proof -
  assume d: "d < 10"
  have "fmt_0d 1 (int d) = [digit_char d]"
    using d by (simp add: fmt_0d_def pad_zeros_def)
  with Atoi_fmt_0d[of 1 "int d"] d show ?thesis by simp
qed

lemma getResponseCode_digit:
  assumes "16 \<le> length pan" "pan ! 15 = digit_char d" "d < 10"
  shows "getResponseCode intn pan amount f =
           responseCodeFromDigit intn (if parse_amount amount = 0 \<and> d = 7 then 0 else int d) f"
  using assms by (simp add: getResponseCode_def at_index_def Atoi_digit)

lemma at_index_in_set: "at_index xs i = Ok c \<Longrightarrow> c \<in> set xs"
  by (auto simp: at_index_def split: if_splits)

end
