(* ===== verification/Response_Properties.thy ===== *)
theory Response_Properties
  imports Response
begin

text \<open>
  The properties of \<open>iso_response_handler.go\<close>: the answer to every request message type
  is a well-formed response that the peer reads back; when building it panics; what the
  partial approval does to a request without an amount.
\<close>

section \<open>Sample requests under the shipped specification\<close>

text \<open>An authorization of 100.00 by PAN 4111111111111111, and the same request with the tag
  \<open>CV-1\<close> in field 123.\<close>

definition auth_text :: string where
  "auth_text = ''01005000000000000000164111111111111111000000010000''"

definition auth_bits :: BitSet where "auth_bits = \<lparr>data = 0x5000000000000000\<rparr>"

definition auth_msg :: Iso8583Message where
  "auth_msg = built bundled_spec auth_text auth_bits None [''4111111111111111'', ''000000010000'']"

definition evil_text :: string where
  "evil_text = ''0100D0000000000000000000000000000020164111111111111111000000010000006CV-1ZZ''"

definition evil_bits :: BitSet where "evil_bits = \<lparr>data = 0xD000000000000000\<rparr>"
definition evil_bits2 :: BitSet where "evil_bits2 = \<lparr>data = 0x20\<rparr>"

definition evil_msg :: Iso8583Message where
  "evil_msg = built bundled_spec evil_text evil_bits (Some evil_bits2)
     [''4111111111111111'', ''000000010000'', ''CV-1ZZ'']"

text \<open>A request for support of partial approvals, without an amount.\<close>

definition bare_text :: string where
  "bare_text = ''0100C0000000000000000000000000000020164111111111111111007SUPPORT''"

definition bare_bits :: BitSet where "bare_bits = \<lparr>data = 0xC000000000000000\<rparr>"

definition bare_msg :: Iso8583Message where
  "bare_msg = built bundled_spec bare_text bare_bits (Some evil_bits2) [''4111111111111111'', ''SUPPORT'']"

lemma request_keys:
  "field_keys auth_bits None = [1, 3]"
  "field_keys evil_bits (Some evil_bits2) = [1, 3, 122]"
  "field_keys bare_bits (Some evil_bits2) = [1, 122]"
  by (simp_all add: field_keys_def present_def has_bit_def auth_bits_def evil_bits_def evil_bits2_def
      bare_bits_def upto.simps)

lemma request_hex:
  "SetString new_BitSet ''5000000000000000'' 16 = Inr auth_bits"
  "SetString new_BitSet ''D000000000000000'' 16 = Inr evil_bits"
  "SetString new_BitSet ''C000000000000000'' 16 = Inr bare_bits"
  "SetString new_BitSet ''0000000000000020'' 16 = Inr evil_bits2"
  by (simp_all add: SetString_def ParseUint_def char_val_def new_BitSet_def auth_bits_def
      evil_bits_def evil_bits2_def bare_bits_def)

lemma request_defs:
  "FieldDefMap bundled_spec 2 = Some (field_def (2, ''LLVar'', 1, 19))"
  "FieldDefMap bundled_spec 4 = Some (field_def (4, ''Fixed'', 12, 12))"
  "FieldDefMap bundled_spec 123 = Some (field_def (123, ''LLLVar'', 1, 999))"
  by (subst bundled_lookup; simp add: bundled_rows_def)+

lemma request_first_bit:
  "\<not> has_bit auth_bits 0" "has_bit evil_bits 0" "has_bit bare_bits 0"
  by (simp_all add: has_bit_def auth_bits_def evil_bits_def bare_bits_def)

lemma request_decodes:
  "decode_message bundled_spec auth_text =
     Some ((''0100'', auth_bits, None, [''4111111111111111'', ''000000010000'']), [])"
  "decode_message bundled_spec evil_text =
     Some ((''0100'', evil_bits, Some evil_bits2, [''4111111111111111'', ''000000010000'', ''CV-1ZZ'']), [])"
  "decode_message bundled_spec bare_text =
     Some ((''0100'', bare_bits, Some evil_bits2, [''4111111111111111'', ''SUPPORT'']), [])"
  by (simp_all add: decode_message_def take_str_def auth_text_def evil_text_def bare_text_def
      request_hex request_keys request_first_bit decode_secondary_def decode_field_def
      decode_var_def request_defs field_def_def eval_simps)

lemmas request_wf =
  built_wf[OF request_decodes(1), folded auth_msg_def]
  built_wf[OF request_decodes(2), folded evil_msg_def]
  built_wf[OF request_decodes(3), folded bare_msg_def]

lemma request_simps:
  "isoSpec auth_msg = bundled_spec" "isoSpec evil_msg = bundled_spec" "isoSpec bare_msg = bundled_spec"
  "message auth_msg = auth_text" "message evil_msg = evil_text" "message bare_msg = bare_text"
  "msg_fields auth_msg = [1 \<mapsto> ''4111111111111111'', 3 \<mapsto> ''000000010000'']"
  "msg_fields evil_msg = [1 \<mapsto> ''4111111111111111'', 3 \<mapsto> ''000000010000'', 122 \<mapsto> ''CV-1ZZ'']"
  "msg_fields bare_msg = [1 \<mapsto> ''4111111111111111'', 122 \<mapsto> ''SUPPORT'']"
  "keys_of auth_msg = [1, 3]" "keys_of evil_msg = [1, 3, 122]" "keys_of bare_msg = [1, 122]"
  by (simp_all add: auth_msg_def evil_msg_def bare_msg_def built_def request_keys)

lemma request_texts:
  "take 4 auth_text = ''0100''" "take 4 evil_text = ''0100''" "take 4 bare_text = ''0100''"
  by (simp_all add: auth_text_def evil_text_def bare_text_def)

lemma auth_request: "isRequestMTI ''0100''"
  by (simp add: isRequestMTI_def requestMTISet_def)

lemma intn_zero: "intn_ok (\<lambda>n. 0)"
  by (simp add: intn_ok_def)

section \<open>Properties\<close>

text \<open>
  A network management request (0800) is always answered, whatever its fields, by itself
  with type 0810 and code 00 in field 39.
\<close>

theorem network_management_answer:
  assumes "wf_msg req" "issuer_spec (isoSpec req)" "take 4 (message req) = ''0800''"
  shows "\<exists>resp. buildResponse intn now req = Ok (0, resp) \<and> wf_msg resp \<and> isoSpec resp = isoSpec req
           \<and> take 4 (message resp) = ''0810'' \<and> GetField resp 38 = ''00''
           \<and> (\<forall>j. j \<noteq> 38 \<longrightarrow> GetField resp j = GetField req j)"
proof -
  let ?r = "req\<lparr>message := ''0810'' @ drop 4 (message req)\<rparr>"
  have r0: "wf_msg ?r" by (rule wf_response[OF assms(1)]) simp
  have "wf_msg (put ?r 38 ''00'')"
    by (rule wf_mark_set[OF r0]) (simp_all add: issuer_values[OF assms(2)])
  moreover have "buildResponse intn now req = Ok (0, put ?r 38 ''00'')"
    using wf_msgD(1)[OF assms(1)] assms(3)
    by (simp add: buildResponse_def GetMTI_def go_slice_def NewResponseMessage_ok put_field_ok
        field_indices toResponseMTI_requests)
  ultimately show ?thesis by auto
qed

theorem network_management_answer_witness:
  "\<exists>resp. buildResponse (\<lambda>n. 0) noon sample_msg = Ok (0, resp) \<and> wf_msg resp \<and> isoSpec resp = isoSpec sample_msg
     \<and> take 4 (message resp) = ''0810'' \<and> GetField resp 38 = ''00''
     \<and> (\<forall>j. j \<noteq> 38 \<longrightarrow> GetField resp j = GetField sample_msg j)"
  by (rule network_management_answer[OF sample_wf])
     (simp_all add: sample_simps bundled_issuer, simp add: sample_text_def)

text \<open>What the answer holds: the fields of the request but for those the simulator writes, the
  amounts given as exact integers.\<close>

definition answer_field :: "clock \<Rightarrow> string \<Rightarrow> string \<Rightarrow> string \<Rightarrow> Iso8583Message \<Rightarrow> int \<Rightarrow> string" where
  "answer_field now code ar cr req j =
     (let n = parse_amount (GetField req 3) in
      if j = 37 then format_hms now
      else if j = 38 then code
      else if j = 122 then ''TDAR01'' @ ar @ ''CR01'' @ cr
      else if j = 3 \<and> code = ''10'' then fmt_0d 12 (sgn n * (\<bar>n\<bar> div 2))
      else if j = 53 \<and> code = ''10'' then ''0091'' @ currency_of req @ ''C'' @ fmt_0d 12 n
      else if j = 53 \<and> code = ''51'' \<and> str_contains (GetField req 122) ''RETURNBAL'' then
        ''0002'' @ currency_of req @ ''C'' @ fmt_0d 12 (sgn n * (4 * \<bar>n\<bar> div 5))
      else GetField req j)"

definition answer_fields ::
    "(int \<Rightarrow> int) \<Rightarrow> clock \<Rightarrow> Iso8583Message \<Rightarrow> (string, nat \<times> (int \<Rightarrow> string)) result" where
  "answer_fields intn now req =
     (if take 4 (message req) = ''0800'' then Ok (0, \<lambda>j. if j = 38 then ''00'' else GetField req j)
      else
        bindR (getResponseCode intn (GetField req 1) (GetField req 3) (GetField req 122)) (\<lambda>(slept, code).
        bindR (getAVSResult (GetField req 122)) (\<lambda>ar.
        bindR (getCVVResult (GetField req 122)) (\<lambda>cr.
        Ok (slept, answer_field now code ar cr req)))))"

lemma buildResponse_fields:
  assumes "wf_msg req" "take 4 (message req) \<noteq> ''0800''" "isRequestMTI (take 4 (message req))"
    and "getResponseCode intn (GetField req 1) (GetField req 3) (GetField req 122) = Ok (slept, code)"
    and "getAVSResult (GetField req 122) = Ok ar" "getCVVResult (GetField req 122) = Ok cr"
    and "amount_range (parse_amount (GetField req 3))" "buildResponse intn now req = Ok (slept, resp)"
  shows "GetField resp j = answer_field now code ar cr req j"
proof -
  have h: "go_div (parse_amount (GetField req 3)) 2
      = (Ok (sgn (parse_amount (GetField req 3)) * (\<bar>parse_amount (GetField req 3)\<bar> div 2)) :: (string, int) result)"
    using half_amount[OF assms(7)] by blast
  consider "code = ''10''" | "code = ''51''" | "code \<noteq> ''10''" "code \<noteq> ''51''" by blast
  then show ?thesis
    using assms(8) unfolding buildResponse_unfold[OF assms(1-6)] answer_field_def
    by cases (auto simp: addPartial_def addBalance_def h balance_80_signed[OF assms(7)] put_field_ok field_indices
        answer_base_frame additionalAmount_def buildField123_def Let_def split: if_splits)
qed

lemma answer_built:
  assumes "wf_msg req" "issuer_spec (isoSpec req)" "intn_ok intn" "valid_clock now" "isRequestMTI (take 4 (message req))"
    and "take 4 (message req) = ''0800''
         \<or> \<not> negative_tag (GetField req 122) ''AV'' \<and> \<not> negative_tag (GetField req 122) ''CV'' \<and> msg_fields req 3 \<noteq> None"
  shows "\<exists>slept fields resp. answer_fields intn now req = Ok (slept, fields) \<and> buildResponse intn now req = Ok (slept, resp)
           \<and> wf_msg resp \<and> isoSpec resp = isoSpec req \<and> take 4 (message resp) = toResponseMTI (take 4 (message req))
           \<and> length (fields 38) = 2 \<and> (\<forall>j. GetField resp j = fields j)"
proof (cases "take 4 (message req) = ''0800''")
  case True
  from network_management_answer[OF assms(1,2) this, of intn now] True show ?thesis
    by (auto simp: answer_fields_def toResponseMTI_requests)
next
  case False
  with assms(6) have tags: "\<not> negative_tag (GetField req 122) ''AV''" "\<not> negative_tag (GetField req 122) ''CV''"
    and amount: "msg_fields req 3 \<noteq> None" by simp_all
  obtain slept code where code: "getResponseCode intn (GetField req 1) (GetField req 3) (GetField req 122)
      = Ok (slept, code)" "length code = 2"
    using getResponseCode_ok[OF assms(3)] by blast
  obtain ar where ar: "getAVSResult (GetField req 122) = Ok ar" using getAVSResult_ok[OF tags(1)] by blast
  obtain cr where cr: "getCVVResult (GetField req 122) = Ok cr" using getCVVResult_ok[OF tags(2)] by blast
  have "3 \<in> set (keys_of req)" using wf_msgD(3)[OF assms(1)] amount by simp
  with buildResponse_ok[OF assms(1,2,5) False assms(4) tags code] obtain resp where
    r: "buildResponse intn now req = Ok (slept, resp)" "wf_msg resp" "isoSpec resp = isoSpec req"
      "message resp = toResponseMTI (take 4 (message req)) @ drop 4 (message req)" by blast
  have "GetField resp j = answer_field now code ar cr req j" for j
    using buildResponse_fields[OF assms(1) False assms(5) code(1) ar cr _ r(1)]
      parse_amount_range[OF GetField_length(1)[OF assms(1,2)]] by blast
  with False code ar cr r request_MTI_response(2)[OF assms(5)] show ?thesis
    by (intro exI [of _ slept] exI [of _ "answer_field now code ar cr req"] exI [of _ resp])
       (simp add: answer_fields_def, simp add: answer_field_def Let_def)
qed

text \<open>
  C7: Every well-formed request of a type the simulator answers is answered as specified: a network
  management request by itself with code 00; any other, if its issuer field has no negative tag
  length and it carries an amount, with the time in field 38, the response code in field 39, the
  AVS and CVV results in field 123, on a partial approval half the amount in field 4 and the whole
  in field 54, on a decline that asks for it 80 percent of it in field 54, rounded towards zero,
  and every other field unchanged. The answer is a well-formed message of a response type, it
  prints, and the peer that parses the printed text reads exactly these fields.
\<close>

theorem response_read_back:
  assumes "wf_msg req" "issuer_spec (isoSpec req)" "sane_lengths (isoSpec req)" "intn_ok intn" "valid_clock now"
    and "isRequestMTI (take 4 (message req))"
    and "take 4 (message req) = ''0800''
         \<or> \<not> negative_tag (GetField req 122) ''AV'' \<and> \<not> negative_tag (GetField req 122) ''CV'' \<and> msg_fields req 3 \<noteq> None"
  shows "\<exists>slept fields resp s.
           answer_fields intn now req = Ok (slept, fields) \<and> length (fields 38) = 2
         \<and> buildResponse intn now req = Ok (slept, resp) \<and> wf_msg resp
         \<and> isResponseMTI (take 4 (message resp)) \<and> FormatIso resp = Ok s
         \<and> (short s \<longrightarrow> (\<exists>p. NewIso8583Message s (isoSpec req) = Ok p
               \<and> GetMTI p = Ok (toResponseMTI (take 4 (message req)))
               \<and> (\<forall>j. GetField p j = fields j)))"
proof -
  from answer_built[OF assms(1,2,4-7)] obtain slept fields resp where
    r: "answer_fields intn now req = Ok (slept, fields)" "buildResponse intn now req = Ok (slept, resp)" "wf_msg resp"
      "isoSpec resp = isoSpec req" "take 4 (message resp) = toResponseMTI (take 4 (message req))"
      "length (fields 38) = 2" "\<forall>j. GetField resp j = fields j" by blast
  let ?p = "resp\<lparr>message := wire resp\<rparr>"
  have p: "NewIso8583Message (wire resp) (isoSpec req) = Ok ?p" if "short (wire resp)"
    using parse_wire[OF r(3), of "[]"] that assms(3) r(4) by simp
  have m: "GetMTI ?p = Ok (toResponseMTI (take 4 (message req)))"
    using r(5) take_4_wire[OF r(3)] wf_msgD(1)[OF wf_wire_message[OF r(3), of "[]"]] by (simp add: GetMTI_def go_slice_def)
  have i: "isResponseMTI (take 4 (message resp))" using request_MTI_response(1)[OF assms(6)] r(5) by simp
  show ?thesis
    by (intro exI [of _ slept] exI [of _ fields] exI [of _ resp] exI [of _ "wire resp"])
       (use p r(1-3,6,7) in \<open>auto simp: i FormatIso_wire[OF r(3)] intro!: exI [of _ ?p] m\<close>)
qed

lemma auth_tags:
  "\<not> negative_tag (GetField auth_msg 122) ''AV''" "\<not> negative_tag (GetField auth_msg 122) ''CV''"
  by (simp_all add: negative_tag_def GetField_def request_simps str_index.simps)

definition noon :: clock where
  "noon = \<lparr>ck_month = 3, ck_day = 14, ck_hour = 12, ck_minute = 0, ck_second = 0\<rparr>"

lemma noon_valid: "valid_clock noon" by (simp add: noon_def valid_clock_def)

theorem response_read_back_witness:
  "\<exists>resp s. buildResponse (\<lambda>n. 0) noon auth_msg = Ok (0, resp) \<and> FormatIso resp = Ok s
     \<and> (short s \<longrightarrow> (\<exists>p. NewIso8583Message s bundled_spec = Ok p \<and> GetField p 38 = ''00''
          \<and> GetField p 3 = ''000000010000'' \<and> GetField p 37 = format_hms noon))"
proof -
  have code: "getResponseCode (\<lambda>n. 0) ''4111111111111111'' ''000000010000'' [] = Ok (0, ''00'')"
    by (simp add: getResponseCode_def at_index_def string_of_byte_def parse_amount_def trim_left_def
        responseCodeFromDigit_def str_contains_def eval_simps str_index.simps)
  have tag: "getAVSResult [] = Ok ''E''" "getCVVResult [] = Ok ''N''"
    by (simp_all add: getAVSResult_def getCVVResult_def extractTag_eval str_index.simps)
  have f: "answer_fields (\<lambda>n. 0) noon auth_msg = Ok (0, answer_field noon ''00'' ''E'' ''N'' auth_msg)"
    using code tag by (simp add: answer_fields_def request_simps request_texts GetField_def)
  show ?thesis
    using response_read_back[OF request_wf(1) _ _ intn_zero noon_valid] auth_tags f
    by (simp add: request_simps bundled_issuer bundled_sane request_texts auth_request)
       (fastforce simp: answer_field_def Let_def GetField_def request_simps)
qed

text \<open>
  Building the answer to such a request panics exactly when the length of its \<open>AV\<close> or
  \<open>CV\<close> tag in field 123 reads as a negative number: one request whose field 123 holds
  \<open>CV-1\<close> ends the process, since nothing recovers on the reading goroutine.
\<close>

theorem response_panics_iff:
  assumes "wf_msg req" "intn_ok intn"
    and "isRequestMTI (take 4 (message req))" "take 4 (message req) \<noteq> ''0800''"
  shows "buildResponse intn now req = panic \<longleftrightarrow>
           negative_tag (GetField req 122) ''AV'' \<or> negative_tag (GetField req 122) ''CV''"
proof -
  obtain slept code where code: "getResponseCode intn (GetField req 1) (GetField req 3) (GetField req 122)
      = Ok (slept, code)"
    using getResponseCode_ok[OF assms(2)] by blast
  show ?thesis
    by (rule buildResponse_panic[OF assms(1,4,3) code])
qed

theorem response_panics_iff_witness:
  "NewIso8583Message evil_text bundled_spec = Ok evil_msg
   \<and> buildResponse (\<lambda>n. 0) noon evil_msg = panic"
proof -
  have "short evil_text" by (simp add: short_def evil_text_def)
  then have "NewIso8583Message evil_text bundled_spec = Ok evil_msg"
    using NewIso8583Message_refines[OF _ bundled_sane, of evil_text]
    by (simp add: request_decodes evil_msg_def)
  moreover have "negative_tag (GetField evil_msg 122) ''CV''"
    by (simp add: negative_tag_def GetField_def request_simps str_index.simps eval_simps)
  ultimately show ?thesis
    using response_panics_iff[OF request_wf(2) intn_zero]
    by (simp add: request_simps request_texts auth_request)
qed

text \<open>
  A partial approval writes half the amount to field 4 with \<open>SetField\<close> alone. When the
  request has no field 4, the answer holds a field its bitmap does not announce: it is not
  well-formed, and no peer that parses the printed text gets the answer back.
\<close>

theorem partial_approval_without_amount:
  assumes "wf_msg req" "sane_lengths (isoSpec req)"
    and "isRequestMTI (take 4 (message req))" "take 4 (message req) \<noteq> ''0800''"
    and "\<not> negative_tag (GetField req 122) ''AV''" "\<not> negative_tag (GetField req 122) ''CV''"
    and "getResponseCode intn (GetField req 1) (GetField req 3) (GetField req 122) = Ok (slept, ''10'')"
    and "msg_fields req 3 = None"
  shows "\<exists>resp. buildResponse intn now req = Ok (slept, resp)
           \<and> GetField resp 3 = ''000000000000'' \<and> \<not> wf_msg resp
           \<and> (\<forall>s. short s \<longrightarrow> NewIso8583Message s (isoSpec req) \<noteq> Ok (resp\<lparr>message := s\<rparr>))"
proof -
  obtain resp where r: "buildResponse intn now req = Ok (slept, resp)"
      "GetField resp 3 = ''000000000000''" "msg_fields resp 3 \<noteq> None" "3 \<notin> set (keys_of resp)"
    using buildResponse_unannounced[OF assms(1,4,3,7,5,6,8)] by blast
  have "\<not> wf_msg (resp\<lparr>message := s\<rparr>)" for s
    using r(3,4) by (auto simp: wf_msg_def)
  moreover from this[of "message resp"] have "\<not> wf_msg resp" by simp
  ultimately show ?thesis
    using r(1,2) parsed_wf(1)[OF _ assms(2)] by blast
qed

theorem partial_approval_without_amount_witness:
  "\<exists>resp. buildResponse (\<lambda>n. 0) noon bare_msg = Ok (0, resp)
     \<and> GetField resp 3 = ''000000000000'' \<and> \<not> wf_msg resp
     \<and> (\<forall>s. short s \<longrightarrow> NewIso8583Message s (isoSpec bare_msg) \<noteq> Ok (resp\<lparr>message := s\<rparr>))"
proof (rule partial_approval_without_amount[OF request_wf(3)])
  show "getResponseCode (\<lambda>n. 0) (GetField bare_msg 1) (GetField bare_msg 3) (GetField bare_msg 122) = Ok (0, ''10'')"
    by (simp add: getResponseCode_def GetField_def request_simps at_index_def string_of_byte_def
        parse_amount_def trim_left_def responseCodeFromDigit_def str_contains_def eval_simps)
  show "\<not> negative_tag (GetField bare_msg 122) ''AV''" "\<not> negative_tag (GetField bare_msg 122) ''CV''"
    by (simp_all add: negative_tag_def GetField_def request_simps str_index.simps)
qed (simp_all add: request_simps bundled_sane request_texts auth_request)

text \<open>
  The response type of a request is a response type and never a request type, so two
  simulators never answer each other's answers.
\<close>

theorem answers_are_not_requests:
  "\<forall>mti. isRequestMTI mti \<longrightarrow>
     isResponseMTI (toResponseMTI mti) \<and> \<not> isRequestMTI (toResponseMTI mti)
     \<and> length (toResponseMTI mti) = 4"
  by (auto simp: isRequestMTI_def requestMTISet_def isResponseMTI_def responseMTISet_def
      toResponseMTI_requests)

theorem answers_are_not_requests_witness: "isResponseMTI (toResponseMTI ''0100'')"
  using answers_are_not_requests auth_request by blast

text \<open>
  The code is decided by the sixteenth digit of the PAN: the answer approves (00 or 10)
  exactly when that digit is 0 to 5, or is 7 with a zero amount; a delay of two seconds
  happens exactly on 4 and 5.
\<close>

theorem approval_by_last_digit:
  assumes "intn_ok intn" "16 \<le> length pan" "pan ! 15 = digit_char d" "d < 10"
    and "getResponseCode intn pan amount f = Ok (slept, code)"
  shows "(code \<in> {''00'', ''10''} \<longleftrightarrow> d \<le> 5 \<or> d = 7 \<and> parse_amount amount = 0)
         \<and> (slept = 2 \<longleftrightarrow> d \<in> {4, 5})"
proof -
  have "d \<in> {0, 1, 2, 3, 4, 5, 6, 7, 8, 9}" using assms(4) by auto
  moreover have "responseCodeFromDigit intn (if parse_amount amount = 0 \<and> d = 7 then 0 else int d) f
      = Ok (slept, code)"
    using assms(5) by (simp add: getResponseCode_digit[OF assms(2-4)])
  ultimately show ?thesis
    by (auto simp: responseCodeFromDigit_def Let_def result_simps dest!: at_index_in_set split: if_splits)
qed

theorem approval_by_last_digit_witness:
  "(''51'' \<in> {''00'', ''10''} \<longleftrightarrow> (7 :: nat) \<le> 5 \<or> (7 :: nat) = 7 \<and> parse_amount ''000000010000'' = 0)
   \<and> ((0 :: nat) = 2 \<longleftrightarrow> (7 :: nat) \<in> {4, 5})"
proof (rule approval_by_last_digit[OF intn_zero, of "''4111111111111117''"])
  show "getResponseCode (\<lambda>n. 0) ''4111111111111117'' ''000000010000'' [] = Ok (0, ''51'')"
    by (simp add: getResponseCode_def at_index_def string_of_byte_def parse_amount_def trim_left_def
        responseCodeFromDigit_def eval_simps)
qed (simp_all add: digit_char_def char_of_def bit_0)

text \<open>
  The 80 percent balance of a declined amount, computed in double precision, is the exact
  integer part for every amount field 4 can hold.
\<close>

theorem balance_is_exact:
  assumes "length amount = 12" "0 \<le> parse_amount amount"
  shows "balance_80 (parse_amount amount) = 4 * parse_amount amount div 5
         \<and> length (additionalAmount ''00'' ''02'' ''840'' (balance_80 (parse_amount amount))) = 20"
proof -
  have r: "amount_range (parse_amount amount)" using assms(1) by (intro parse_amount_range) simp
  then have "parse_amount amount < 2 ^ 50" by (simp add: amount_range_def)
  with assms(2) balance_80_range[OF r] show ?thesis
    by (simp add: balance_80_exact additionalAmount_length)
qed

theorem balance_is_exact_witness: "balance_80 123457 = 98765"
  using balance_is_exact[of "''000000123457''"] by (simp add: parse_amount_def trim_left_def eval_simps)

end
