(* ===== verification/Database.thy ===== *)
theory Database
  imports Go_Strings
begin

text \<open>
  The tables of \<open>database/db_helper.go\<close> and the statements of \<open>database/dao.go\<close>. A table is
  the list of its rows in insertion order; a NULL is \<open>None\<close>, and a comparison with NULL is not
  true. Each SQL text of the source is a constructor of \<open>writeOp\<close> or a query function, with
  the meaning SQL gives it; SQLite itself is the library that runs them. Times are integers, in
  nanoseconds.
\<close>

section \<open>Tables\<close>

record log_row =
  lr_id :: int
  lr_request_time :: int
  lr_response_time :: "int option"
  lr_time_taken :: "int option"
  lr_created_at :: int
  lr_stresstest_id :: int
  lr_reference :: string
  lr_connection_id :: string
  lr_mti :: "string option"
  lr_processing_code :: "string option"
  lr_pan :: "string option"
  lr_amount :: "string option"
  lr_currency :: "string option"
  lr_request_message :: "string option"
  lr_response_code :: "string option"
  lr_auth_id :: "string option"
  lr_original_log_id :: "int option"

record scheduled_row =
  sr_id :: int
  sr_reference :: string
  sr_message :: string
  sr_created_at :: int
  sr_connection_id :: string
  sr_stresstest_id :: int
  sr_sent_at :: "int option"

record StressTest =
  st_id :: int
  st_name :: string
  st_created_at :: int
  st_total_requests :: int
  st_test_time_secs :: int
  st_request_per_second :: int
  st_node_test_mode :: string
  st_test_type :: string
  st_source_test_id :: int

text \<open>\<open>AUTOINCREMENT\<close> gives every new row an id above every id the table ever held; the
  counters are those of SQLite's sequence table.\<close>

record database =
  request_log :: "log_row list"
  log_seq :: int
  scheduled :: "scheduled_row list"
  scheduled_seq :: int
  stress_tests :: "StressTest list"
  stress_seq :: int

section \<open>Log entries and queued writes\<close>

record RequestLog =
  rl_reference :: string
  rl_connection_id :: string
  rl_mti :: string
  rl_request_time :: int
  rl_stresstest_id :: int
  rl_processing_code :: string
  rl_pan :: string
  rl_amount :: string
  rl_currency :: string
  rl_request_message :: string
  rl_original_log_id :: int

datatype writeOp =
    UpdateResponse string string string int int int string string
      \<comment> \<open>reference, connection, MTI, request time, response time, time taken, code, auth id\<close>
  | DeleteLog string string string
  | MarkSent string string int
  | InsertScheduled int int string string string
  | InsertLog RequestLog
  | SetTotal int int

definition nullIfZero :: "int \<Rightarrow> int option" where
  "nullIfZero v = (if v = 0 then None else Some v)"

text \<open>\<open>t.Sub(u)\<close> saturates at the bounds of \<open>Duration\<close>; \<open>Milliseconds\<close> truncates.\<close>

definition time_sub :: "int \<Rightarrow> int \<Rightarrow> int" where
  "time_sub t u = (if t - u < - (2 ^ 63) then - (2 ^ 63) else if 2 ^ 63 - 1 < t - u then 2 ^ 63 - 1 else t - u)"

definition Milliseconds :: "int \<Rightarrow> int" where
  "Milliseconds d = sgn d * (\<bar>d\<bar> div 1000000)"

text \<open>The operations that queue a write, as the write they queue.\<close>

definition UpdateResponseTime :: "string \<Rightarrow> string \<Rightarrow> string \<Rightarrow> int \<Rightarrow> int \<Rightarrow> string \<Rightarrow> string \<Rightarrow> writeOp" where
  "UpdateResponseTime reference connectionID mti requestTime responseTime responseCode authID =
     UpdateResponse reference connectionID mti requestTime responseTime
       (Milliseconds (time_sub responseTime requestTime)) responseCode authID"

definition DeleteRequestLog :: "string \<Rightarrow> string \<Rightarrow> string \<Rightarrow> writeOp" where
  "DeleteRequestLog reference connectionID mti = DeleteLog reference connectionID mti"

definition MarkScheduledMessageSent :: "string \<Rightarrow> string \<Rightarrow> int \<Rightarrow> writeOp" where
  "MarkScheduledMessageSent reference connectionID sentAt = MarkSent reference connectionID sentAt"

definition AddScheduledMessage :: "int \<Rightarrow> int \<Rightarrow> string \<Rightarrow> string \<Rightarrow> string \<Rightarrow> writeOp" where
  "AddScheduledMessage stressTestID createdAt reference connectionID msg =
     InsertScheduled stressTestID createdAt reference connectionID msg"

definition AddRequestLog :: "RequestLog \<Rightarrow> writeOp" where
  "AddRequestLog entry = InsertLog entry"

definition SetTotalRequests :: "int \<Rightarrow> int \<Rightarrow> writeOp" where
  "SetTotalRequests stressTestID n = SetTotal stressTestID n"

section \<open>What a statement does\<close>

text \<open>The common \<open>WHERE\<close> clause of the update and the delete.\<close>

definition unanswered :: "string \<Rightarrow> string \<Rightarrow> string \<Rightarrow> log_row \<Rightarrow> bool" where
  "unanswered reference connectionID mti r \<longleftrightarrow>
     lr_reference r = reference \<and> lr_connection_id r = connectionID \<and> lr_mti r = Some mti
     \<and> lr_time_taken r = None"

definition answer_row :: "int \<Rightarrow> int \<Rightarrow> int \<Rightarrow> string \<Rightarrow> string \<Rightarrow> log_row \<Rightarrow> log_row" where
  "answer_row requestTime responseTime timeTaken responseCode authID r =
     r\<lparr>lr_request_time := requestTime, lr_response_time := Some responseTime,
       lr_time_taken := Some timeTaken, lr_response_code := Some responseCode, lr_auth_id := Some authID\<rparr>"

definition new_log_row :: "int \<Rightarrow> int \<Rightarrow> RequestLog \<Rightarrow> log_row" where
  "new_log_row i now e =
     \<lparr>lr_id = i, lr_request_time = rl_request_time e, lr_response_time = None, lr_time_taken = None,
      lr_created_at = now, lr_stresstest_id = rl_stresstest_id e, lr_reference = rl_reference e,
      lr_connection_id = rl_connection_id e, lr_mti = Some (rl_mti e),
      lr_processing_code = Some (rl_processing_code e), lr_pan = Some (rl_pan e),
      lr_amount = Some (rl_amount e), lr_currency = Some (rl_currency e),
      lr_request_message = Some (rl_request_message e), lr_response_code = None, lr_auth_id = None,
      lr_original_log_id = nullIfZero (rl_original_log_id e)\<rparr>"

text \<open>The new database and the number of rows changed; \<open>now\<close> is \<open>CURRENT_TIMESTAMP\<close>.\<close>

fun exec_op :: "int \<Rightarrow> writeOp \<Rightarrow> database \<Rightarrow> database \<times> nat" where
  "exec_op now (UpdateResponse ref conn mti t1 t2 ms code auth) d =
     (d\<lparr>request_log := map (\<lambda>r. if unanswered ref conn mti r then answer_row t1 t2 ms code auth r else r) (request_log d)\<rparr>,
      length (filter (unanswered ref conn mti) (request_log d)))"
| "exec_op now (DeleteLog ref conn mti) d =
     (d\<lparr>request_log := filter (\<lambda>r. \<not> unanswered ref conn mti r) (request_log d)\<rparr>,
      length (filter (unanswered ref conn mti) (request_log d)))"
| "exec_op now (MarkSent ref conn t) d =
     (let hit = (\<lambda>r. sr_reference r = ref \<and> sr_connection_id r = conn) in
      (d\<lparr>scheduled := map (\<lambda>r. if hit r then r\<lparr>sr_sent_at := Some t\<rparr> else r) (scheduled d)\<rparr>,
       length (filter hit (scheduled d))))"
| "exec_op now (InsertScheduled tid t ref conn msg) d =
     (d\<lparr>scheduled := scheduled d @
          [\<lparr>sr_id = scheduled_seq d + 1, sr_reference = ref, sr_message = msg, sr_created_at = t,
            sr_connection_id = conn, sr_stresstest_id = tid, sr_sent_at = None\<rparr>],
        scheduled_seq := scheduled_seq d + 1\<rparr>, 1)"
| "exec_op now (InsertLog e) d =
     (d\<lparr>request_log := request_log d @ [new_log_row (log_seq d + 1) now e], log_seq := log_seq d + 1\<rparr>, 1)"
| "exec_op now (SetTotal tid n) d =
     (d\<lparr>stress_tests := map (\<lambda>t. if st_id t = tid then t\<lparr>st_total_requests := n\<rparr> else t) (stress_tests d)\<rparr>,
      length (filter (\<lambda>t. st_id t = tid) (stress_tests d)))"

section \<open>Stress tests and refund candidates\<close>

definition CreateStressTest ::
    "int \<Rightarrow> string \<Rightarrow> int \<Rightarrow> int \<Rightarrow> string \<Rightarrow> string \<Rightarrow> int \<Rightarrow> database \<Rightarrow> database \<times> StressTest" where
  "CreateStressTest now name testTimeSecs requestsPerSecond nodeTestMode testType sourceTestID d =
     (let t = \<lparr>st_id = stress_seq d + 1, st_name = name, st_created_at = now, st_total_requests = 0,
               st_test_time_secs = testTimeSecs, st_request_per_second = requestsPerSecond,
               st_node_test_mode = nodeTestMode, st_test_type = testType, st_source_test_id = sourceTestID\<rparr>
      in (d\<lparr>stress_tests := stress_tests d @ [t], stress_seq := stress_seq d + 1\<rparr>, t))"

definition GetStressTest :: "database \<Rightarrow> int \<Rightarrow> StressTest option" where
  "GetStressTest d i = find (\<lambda>t. st_id t = i) (stress_tests d)"

record RefundCandidate =
  rc_log_id :: int
  rc_reference :: string
  rc_request_message :: string

definition reversed :: "log_row list \<Rightarrow> log_row \<Rightarrow> bool" where
  "reversed rows o' \<longleftrightarrow>
     (\<exists>rv \<in> set rows. lr_stresstest_id rv = lr_stresstest_id o' \<and> lr_reference rv = lr_reference o'
                     \<and> lr_mti rv \<in> {Some ''0400'', Some ''0420''})"

definition refund_done_or_pending :: "log_row list \<Rightarrow> log_row \<Rightarrow> bool" where
  "refund_done_or_pending rows o' \<longleftrightarrow>
     (\<exists>rf \<in> set rows. lr_original_log_id rf = Some (lr_id o')
                     \<and> (lr_response_code rf = Some ''00'' \<or> lr_response_code rf = None))"

definition candidate_row :: "log_row list \<Rightarrow> int \<Rightarrow> log_row \<Rightarrow> bool" where
  "candidate_row rows sourceTestID o' \<longleftrightarrow>
     lr_stresstest_id o' = sourceTestID
     \<and> lr_mti o' \<in> {Some ''0100'', Some ''0200''}
     \<and> map_option (take 2) (lr_processing_code o') = Some ''00''
     \<and> lr_response_code o' = Some ''00''
     \<and> \<not> reversed rows o'
     \<and> \<not> refund_done_or_pending rows o'"

text \<open>Scanning a NULL message into a Go string is an error, which the query returns.\<close>

fun scan_candidates :: "log_row list \<Rightarrow> (string, RefundCandidate list) result" where
  "scan_candidates [] = Ok []"
| "scan_candidates (r # rs) =
     (case lr_request_message r of
        None \<Rightarrow> fail ''scan''
      | Some m \<Rightarrow> bindR (scan_candidates rs)
          (\<lambda>cs. Ok (\<lparr>rc_log_id = lr_id r, rc_reference = lr_reference r, rc_request_message = m\<rparr> # cs)))"

definition GetRefundCandidates :: "database \<Rightarrow> int \<Rightarrow> (string, RefundCandidate list) result" where
  "GetRefundCandidates d sourceTestID =
     scan_candidates (sort_key lr_id (filter (candidate_row (request_log d) sourceTestID) (request_log d)))"

section \<open>Statements in sequence\<close>

fun exec_ops :: "int \<Rightarrow> writeOp list \<Rightarrow> database \<Rightarrow> database" where
  "exec_ops now [] d = d"
| "exec_ops now (op # ops) d = exec_ops now ops (fst (exec_op now op d))"

lemma exec_ops_append: "exec_ops now (xs @ ys) d = exec_ops now ys (exec_ops now xs d)"
  by (induction xs arbitrary: d) auto

text \<open>Ids are positive, at most the sequence counter and increasing along a table; a row has a
  response code exactly when it is answered.\<close>

definition db_wf :: "database \<Rightarrow> bool" where
  "db_wf d \<longleftrightarrow>
     sorted_wrt (<) (map lr_id (request_log d)) \<and> (\<forall>r \<in> set (request_log d). 0 < lr_id r \<and> lr_id r \<le> log_seq d)
     \<and> sorted_wrt (<) (map sr_id (scheduled d)) \<and> (\<forall>r \<in> set (scheduled d). sr_id r \<le> scheduled_seq d)
     \<and> sorted_wrt (<) (map st_id (stress_tests d)) \<and> (\<forall>t \<in> set (stress_tests d). 0 < st_id t \<and> st_id t \<le> stress_seq d)
     \<and> 0 \<le> log_seq d \<and> 0 \<le> stress_seq d
     \<and> (\<forall>r \<in> set (request_log d). lr_response_code r = None \<longleftrightarrow> lr_time_taken r = None)"

lemma answer_row_id [simp]:
  "lr_id (answer_row t1 t2 ms code auth r) = lr_id r"
  "lr_reference (answer_row t1 t2 ms code auth r) = lr_reference r"
  "lr_connection_id (answer_row t1 t2 ms code auth r) = lr_connection_id r"
  "lr_mti (answer_row t1 t2 ms code auth r) = lr_mti r"
  "lr_stresstest_id (answer_row t1 t2 ms code auth r) = lr_stresstest_id r"
  "lr_processing_code (answer_row t1 t2 ms code auth r) = lr_processing_code r"
  "lr_request_message (answer_row t1 t2 ms code auth r) = lr_request_message r"
  "lr_original_log_id (answer_row t1 t2 ms code auth r) = lr_original_log_id r"
  "lr_time_taken (answer_row t1 t2 ms code auth r) = Some ms"
  "lr_response_code (answer_row t1 t2 ms code auth r) = Some code"
  by (simp_all add: answer_row_def)

lemma new_log_row_fields [simp]:
  "lr_id (new_log_row i now e) = i" "lr_reference (new_log_row i now e) = rl_reference e"
  "lr_connection_id (new_log_row i now e) = rl_connection_id e"
  "lr_mti (new_log_row i now e) = Some (rl_mti e)"
  "lr_stresstest_id (new_log_row i now e) = rl_stresstest_id e"
  "lr_time_taken (new_log_row i now e) = None" "lr_response_code (new_log_row i now e) = None"
  "lr_original_log_id (new_log_row i now e) = nullIfZero (rl_original_log_id e)"
  by (simp_all add: new_log_row_def)

lemma map_if_key: "(\<And>r. f (g r) = f r) \<Longrightarrow> map f (map (\<lambda>r. if P r then g r else r) xs) = map f xs"
  by (induction xs) auto

lemma sorted_filter_key: "sorted_wrt (<) (map f xs) \<Longrightarrow> sorted_wrt (<) (map f (filter P xs))"
  by (simp add: sorted_wrt_map sorted_wrt_filter)

lemma exec_op_wf [wf_intros]:
  assumes "db_wf d"
  shows "db_wf (fst (exec_op now op d))"
proof (cases op)
  case (UpdateResponse ref conn mti t1 t2 ms code auth)
  have "map lr_id (request_log (fst (exec_op now op d))) = map lr_id (request_log d)"
    unfolding UpdateResponse by (simp del: map_map) (rule map_if_key, simp)
  with assms show ?thesis unfolding UpdateResponse by (auto simp: db_wf_def simp del: map_map)
next
  case (DeleteLog ref conn mti)
  with assms show ?thesis by (auto simp: db_wf_def intro: sorted_filter_key)
next
  case (MarkSent ref conn t)
  have "map sr_id (scheduled (fst (exec_op now op d))) = map sr_id (scheduled d)"
    unfolding MarkSent by (simp del: map_map add: Let_def) (rule map_if_key, simp)
  with assms show ?thesis unfolding MarkSent by (auto simp: db_wf_def Let_def simp del: map_map)
next
  case (InsertScheduled tid t ref conn msg)
  with assms show ?thesis by (fastforce simp: db_wf_def sorted_wrt_append)
next
  case (InsertLog e)
  with assms show ?thesis by (fastforce simp: db_wf_def sorted_wrt_append)
next
  case (SetTotal tid n)
  have "map st_id (stress_tests (fst (exec_op now op d))) = map st_id (stress_tests d)"
    unfolding SetTotal by (simp del: map_map) (rule map_if_key, simp)
  with assms show ?thesis unfolding SetTotal by (auto simp: db_wf_def simp del: map_map)
qed

lemma exec_ops_wf: "db_wf d \<Longrightarrow> db_wf (exec_ops now ops d)"
  by (induction ops arbitrary: d) (auto intro: exec_op_wf)

text \<open>A row that has been answered stays as it is, whatever is written afterwards.\<close>

lemma exec_op_answered:
  assumes "r \<in> set (request_log d)" "lr_time_taken r \<noteq> None"
  shows "r \<in> set (request_log (fst (exec_op now op d)))"
  using assms by (cases op) (auto simp: unanswered_def Let_def image_iff split: if_splits)

lemma exec_ops_answered:
  "r \<in> set (request_log d) \<Longrightarrow> lr_time_taken r \<noteq> None \<Longrightarrow> r \<in> set (request_log (exec_ops now ops d))"
  by (induction ops arbitrary: d) (auto intro: exec_op_answered)

section \<open>Refund candidates\<close>

lemma scan_candidates_Ok:
  "scan_candidates rs = Ok cs \<Longrightarrow> map rc_log_id cs = map lr_id rs \<and> map rc_reference cs = map lr_reference rs
     \<and> map (Some \<circ> rc_request_message) cs = map lr_request_message rs"
  by (induction rs arbitrary: cs) (auto simp: result_simps split: option.splits)

lemma scan_candidates_total:
  "(\<exists>cs. scan_candidates rs = Ok cs) \<longleftrightarrow> (\<forall>r \<in> set rs. lr_request_message r \<noteq> None)"
proof (induction rs)
  case (Cons r rs)
  then show ?case by (cases "lr_request_message r") (auto simp: result_simps)
qed simp

lemma candidates_in_log_order:
  assumes "db_wf d"
  shows "sort_key lr_id (filter (candidate_row (request_log d) src) (request_log d))
           = filter (candidate_row (request_log d) src) (request_log d)"
proof -
  have "sorted_wrt (<) (map lr_id (filter (candidate_row (request_log d) src) (request_log d)))"
    using assms by (intro sorted_filter_key) (simp add: db_wf_def)
  then have "sorted (map lr_id (filter (candidate_row (request_log d) src) (request_log d)))"
    by (rule strict_sorted_imp_sorted)
  then show ?thesis by (rule sort_key_id_if_sorted)
qed

text \<open>Adding one row to the log.\<close>

lemma candidate_row_snoc:
  "candidate_row (rows @ [n]) src r \<longleftrightarrow>
     candidate_row rows src r
     \<and> \<not> (lr_stresstest_id n = lr_stresstest_id r \<and> lr_reference n = lr_reference r
           \<and> lr_mti n \<in> {Some ''0400'', Some ''0420''})
     \<and> \<not> (lr_original_log_id n = Some (lr_id r) \<and> (lr_response_code n = Some ''00'' \<or> lr_response_code n = None))"
  by (auto simp: candidate_row_def reversed_def refund_done_or_pending_def)

lemma map_if_none: "filter P xs = [] \<Longrightarrow> map (\<lambda>r. if P r then g r else r) xs = xs"
  by (induction xs) (auto split: if_splits)

lemma insert_then_answer:
  assumes "filter (unanswered (rl_reference e) (rl_connection_id e) (rl_mti e)) (request_log d) = []"
  shows "request_log (exec_ops now [InsertLog e, UpdateResponse (rl_reference e) (rl_connection_id e) (rl_mti e) t1 t2 ms code auth] d)
           = request_log d @ [answer_row t1 t2 ms code auth (new_log_row (log_seq d + 1) now e)]"
    and "request_log (exec_ops now [InsertLog e, DeleteLog (rl_reference e) (rl_connection_id e) (rl_mti e)] d) = request_log d"
  using map_if_none[OF assms] assms by (auto simp: unanswered_def filter_empty_conv)

section \<open>Properties\<close>

definition empty_db :: database where
  "empty_db = \<lparr>request_log = [], log_seq = 0, scheduled = [], scheduled_seq = 0, stress_tests = [], stress_seq = 0\<rparr>"

lemma empty_db_wf: "db_wf empty_db"
  by (simp add: empty_db_def db_wf_def)

text \<open>
  C23: Whatever sequence of writes runs, the tables keep their integrity (ids increase along each
  table and are never reused, a row has a response code exactly when it is answered), and a
  row that has been answered is never changed or deleted again.
\<close>

theorem answered_rows_are_final:
  assumes "db_wf d"
  shows "db_wf (exec_ops now ops d)
         \<and> (\<forall>r \<in> set (request_log d). lr_time_taken r \<noteq> None \<longrightarrow> r \<in> set (request_log (exec_ops now ops d)))"
  using exec_ops_wf[OF assms] exec_ops_answered by blast

definition sale_entry :: RequestLog where
  "sale_entry = \<lparr>rl_reference = ''000000000001'', rl_connection_id = ''c1'', rl_mti = ''0200'',
     rl_request_time = 5, rl_stresstest_id = 1, rl_processing_code = ''000000'', rl_pan = [],
     rl_amount = [], rl_currency = [], rl_request_message = ''m1'', rl_original_log_id = 0\<rparr>"

definition sale_db :: database where
  "sale_db = exec_ops 0 [AddRequestLog sale_entry,
     UpdateResponseTime ''000000000001'' ''c1'' ''0200'' 5 2000005 ''00'' ''123456''] empty_db"

lemma sale_db_log:
  "request_log sale_db = [answer_row 5 2000005 2 ''00'' ''123456'' (new_log_row 1 0 sale_entry)]"
  by (simp add: sale_db_def AddRequestLog_def UpdateResponseTime_def unanswered_def empty_db_def
      sale_entry_def Milliseconds_def time_sub_def)

lemma sale_db_wf: "db_wf sale_db"
  unfolding sale_db_def by (rule exec_ops_wf[OF empty_db_wf])

theorem answered_rows_are_final_witness:
  "answer_row 5 2000005 2 ''00'' ''123456'' (new_log_row 1 0 sale_entry)
     \<in> set (request_log (exec_ops 0 [DeleteRequestLog ''000000000001'' ''c1'' ''0200''] sale_db))"
  using answered_rows_are_final[OF sale_db_wf, of 0 "[DeleteRequestLog ''000000000001'' ''c1'' ''0200'']"]
  by (simp only: sale_db_log) simp

text \<open>
  The refund candidates of a test, when every candidate row holds its message, are exactly
  its approved purchases without a logged reversal and without an approved or pending refund,
  each once and in log order.
\<close>

theorem refund_candidates_exact:
  assumes "db_wf d" "\<forall>r \<in> set (request_log d). candidate_row (request_log d) src r \<longrightarrow> lr_request_message r \<noteq> None"
  shows "\<exists>cs. GetRefundCandidates d src = Ok cs
           \<and> map rc_log_id cs = map lr_id (filter (candidate_row (request_log d) src) (request_log d))
           \<and> map (Some \<circ> rc_request_message) cs
               = map lr_request_message (filter (candidate_row (request_log d) src) (request_log d))
           \<and> distinct (map rc_log_id cs)"
proof -
  let ?rs = "filter (candidate_row (request_log d) src) (request_log d)"
  obtain cs where cs: "GetRefundCandidates d src = Ok cs"
    using scan_candidates_total[of ?rs] assms(2)
    by (auto simp: GetRefundCandidates_def candidates_in_log_order[OF assms(1)])
  have "sorted_wrt (<) (map lr_id ?rs)"
    using assms(1) by (intro sorted_filter_key) (simp add: db_wf_def)
  then have "distinct (map lr_id ?rs)" by (auto simp: strict_sorted_iff)
  with scan_candidates_Ok[of ?rs cs] cs show ?thesis
    by (simp add: GetRefundCandidates_def candidates_in_log_order[OF assms(1)])
qed

lemma sale_candidate: "candidate_row (request_log sale_db) 1 (answer_row 5 2000005 2 ''00'' ''123456'' (new_log_row 1 0 sale_entry))"
  unfolding sale_db_log
  by (simp add: candidate_row_def reversed_def refund_done_or_pending_def)
     (simp add: new_log_row_def sale_entry_def nullIfZero_def)

theorem refund_candidates_exact_witness:
  "\<exists>cs. GetRefundCandidates sale_db 1 = Ok cs
     \<and> map rc_log_id cs = map lr_id (filter (candidate_row (request_log sale_db) 1) (request_log sale_db))
     \<and> map (Some \<circ> rc_request_message) cs
         = map lr_request_message (filter (candidate_row (request_log sale_db) 1) (request_log sale_db))
     \<and> distinct (map rc_log_id cs)"
  by (rule refund_candidates_exact[OF sale_db_wf]) (simp add: sale_db_log new_log_row_def)

text \<open>
  C24: The life of a refund: logging it takes its sale out of the candidates; the answer puts the
  sale back exactly when it declines, as does deleting the row of a refund never sent. While
  the refund is unanswered, for example because its connection closed, the sale stays out.
\<close>

theorem refund_lifecycle:
  assumes "db_wf d" "o' \<in> set (request_log d)" "candidate_row (request_log d) src o'"
    and "rl_original_log_id e = lr_id o'" "rl_stresstest_id e \<noteq> src"
    and "filter (unanswered (rl_reference e) (rl_connection_id e) (rl_mti e)) (request_log d) = []"
  shows "\<not> candidate_row (request_log (exec_ops now [AddRequestLog e] d)) src o'
         \<and> (candidate_row (request_log (exec_ops now [AddRequestLog e,
               UpdateResponseTime (rl_reference e) (rl_connection_id e) (rl_mti e) t1 t2 code auth] d)) src o'
             \<longleftrightarrow> code \<noteq> ''00'')
         \<and> candidate_row (request_log (exec_ops now [AddRequestLog e,
               DeleteRequestLog (rl_reference e) (rl_connection_id e) (rl_mti e)] d)) src o'"
proof -
  have id: "nullIfZero (rl_original_log_id e) = Some (lr_id o')"
    using assms(1,2,4) by (auto simp: db_wf_def nullIfZero_def)
  have src: "lr_stresstest_id o' = src" using assms(3) by (simp add: candidate_row_def)
  show ?thesis
    unfolding AddRequestLog_def UpdateResponseTime_def DeleteRequestLog_def
      insert_then_answer[OF assms(6)]
    using assms(3,5) src id by (auto simp: candidate_row_snoc)
qed

definition refund_entry :: RequestLog where
  "refund_entry = \<lparr>rl_reference = ''000000000002'', rl_connection_id = ''c1'', rl_mti = ''0200'',
     rl_request_time = 9, rl_stresstest_id = 2, rl_processing_code = ''200000'', rl_pan = [],
     rl_amount = [], rl_currency = [], rl_request_message = ''m2'', rl_original_log_id = 1\<rparr>"

theorem refund_lifecycle_witness:
  "let o' = answer_row 5 2000005 2 ''00'' ''123456'' (new_log_row 1 0 sale_entry); d = sale_db; e = refund_entry in
   \<not> candidate_row (request_log (exec_ops 0 [AddRequestLog e] d)) 1 o'
   \<and> (candidate_row (request_log (exec_ops 0 [AddRequestLog e,
        UpdateResponseTime (rl_reference e) (rl_connection_id e) (rl_mti e) 9 10 ''05'' []] d)) 1 o'
      \<longleftrightarrow> ''05'' \<noteq> ''00'')
   \<and> candidate_row (request_log (exec_ops 0 [AddRequestLog e,
        DeleteRequestLog (rl_reference e) (rl_connection_id e) (rl_mti e)] d)) 1 o'"
  unfolding Let_def
  by (rule refund_lifecycle[OF sale_db_wf])
     (use sale_candidate in \<open>simp_all add: sale_db_log refund_entry_def unanswered_def\<close>)

end
