(* ===== verification/Results.thy ===== *)
theory Results
  imports Database Go_Float "HOL-Library.Multiset"
begin

text \<open>
  \<open>GetStressTestResults\<close> of \<open>database/dao.go\<close>: counts per message type and overall, latency
  minimum, average, maximum and percentiles, achieved rate. A \<open>float64\<close> is the rational it
  denotes, rounded after each operation (\<open>Go_Float\<close>). \<open>GROUP BY\<close> gives no order, so the
  order in which the groups arrive is the parameter \<open>mtis\<close>.
\<close>

section \<open>Summaries\<close>

record LatencySummary =
  lat_min :: rat
  lat_avg :: rat
  lat_p50 :: rat
  lat_p95 :: rat
  lat_p99 :: rat
  lat_max :: rat

record RequestSummary =
  rs_logged :: int
  rs_answered :: int
  rs_unanswered :: int
  rs_latency :: LatencySummary

record StressTestResults =
  res_test :: StressTest
  res_summary :: RequestSummary
  res_achieved_per_second :: rat
  res_follow_ups_not_sent :: int
  res_by_mti :: "string \<rightharpoonup> RequestSummary"

definition zero_latency :: LatencySummary where
  "zero_latency = \<lparr>lat_min = 0, lat_avg = 0, lat_p50 = 0, lat_p95 = 0, lat_p99 = 0, lat_max = 0\<rparr>"

definition zero_summary :: RequestSummary where
  "zero_summary = \<lparr>rs_logged = 0, rs_answered = 0, rs_unanswered = 0, rs_latency = zero_latency\<rparr>"

section \<open>Percentiles\<close>

definition percentile :: "int list \<Rightarrow> rat \<Rightarrow> (string, rat) result" where
  "percentile xs p =
     (if xs = [] then Ok 0
      else let rank = int_of_f64 (f64_ceil (f64_mul p (f64_of_int (int (length xs)))));
               rank = (if rank < 1 then 1 else rank)
           in bindR (at_index xs (rank - 1)) (\<lambda>v. Ok (f64_of_int v)))"

definition setPercentiles :: "LatencySummary \<Rightarrow> int list \<Rightarrow> (string, LatencySummary) result" where
  "setPercentiles latency xs =
     bindR (percentile xs (f64 (50 / 100))) (\<lambda>p50.
     bindR (percentile xs (f64 (95 / 100))) (\<lambda>p95.
     bindR (percentile xs (f64 (99 / 100))) (\<lambda>p99.
     Ok (latency\<lparr>lat_p50 := p50, lat_p95 := p95, lat_p99 := p99\<rparr>))))"

section \<open>The groups\<close>

definition coalesce_mti :: "log_row \<Rightarrow> string" where
  "coalesce_mti r = (case lr_mti r of None \<Rightarrow> ''unknown'' | Some m \<Rightarrow> m)"

definition times :: "log_row list \<Rightarrow> int list" where
  "times rows = List.map_filter lr_time_taken rows"

definition group_rows :: "log_row list \<Rightarrow> string \<Rightarrow> log_row list" where
  "group_rows rows m = filter (\<lambda>r. coalesce_mti r = m) rows"

text \<open>\<open>min\<close>, \<open>sum\<close> and \<open>max\<close> over no value are NULL, which scans as 0.\<close>

definition sql_min :: "int list \<Rightarrow> rat" where
  "sql_min ts = (case ts of [] \<Rightarrow> 0 | t # us \<Rightarrow> f64_of_int (fold min us t))"

definition sql_max :: "int list \<Rightarrow> rat" where
  "sql_max ts = (case ts of [] \<Rightarrow> 0 | t # us \<Rightarrow> f64_of_int (fold max us t))"

definition sql_sum :: "int list \<Rightarrow> rat" where
  "sql_sum ts = f64_of_int (sum_list ts)"

definition group_summary :: "log_row list \<Rightarrow> RequestSummary" where
  "group_summary rows =
     (let ts = times rows; answered = int (length ts) in
      \<lparr>rs_logged = int (length rows), rs_answered = answered, rs_unanswered = int (length rows) - answered,
       rs_latency = zero_latency
         \<lparr>lat_min := sql_min ts, lat_max := sql_max ts,
          lat_avg := (if 0 < answered then f64_div (sql_sum ts) (f64_of_int answered) else 0)\<rparr>\<rparr>)"

text \<open>One round of the loop over the groups: the overall summary, the total and \<open>ByMTI\<close>.\<close>

definition add_group :: "log_row list \<Rightarrow> string \<Rightarrow> RequestSummary \<times> rat \<times> (string \<rightharpoonup> RequestSummary)
    \<Rightarrow> RequestSummary \<times> rat \<times> (string \<rightharpoonup> RequestSummary)" where
  "add_group rows m acc =
     (case acc of (r, totalMs, byMTI) \<Rightarrow>
        let g = group_rows rows m; s = group_summary g; lat = rs_latency r;
            lat' = (if 0 < rs_answered s then
                      lat\<lparr>lat_min := (if rs_answered r = 0 \<or> lat_min (rs_latency s) < lat_min lat
                                       then lat_min (rs_latency s) else lat_min lat),
                          lat_max := max (lat_max lat) (lat_max (rs_latency s))\<rparr>
                    else lat)
        in (r\<lparr>rs_logged := rs_logged r + rs_logged s, rs_answered := rs_answered r + rs_answered s,
              rs_latency := lat'\<rparr>,
            f64_add totalMs (sql_sum (times g)),
            byMTI(m \<mapsto> s)))"

definition all_groups :: "log_row list \<Rightarrow> string list \<Rightarrow> RequestSummary \<times> rat \<times> (string \<rightharpoonup> RequestSummary)" where
  "all_groups rows mtis = fold (add_group rows) mtis (zero_summary, 0, Map.empty)"

definition finish_summary :: "RequestSummary \<Rightarrow> rat \<Rightarrow> RequestSummary" where
  "finish_summary r totalMs =
     r\<lparr>rs_unanswered := rs_logged r - rs_answered r,
       rs_latency := (rs_latency r)
         \<lparr>lat_avg := (if 0 < rs_answered r then f64_div totalMs (f64_of_int (rs_answered r)) else 0)\<rparr>\<rparr>"

section \<open>Achieved rate\<close>

text \<open>\<open>Duration.Seconds\<close> adds whole seconds and the rest in floating point.\<close>

definition Seconds :: "int \<Rightarrow> rat" where
  "Seconds d = f64_add (f64_of_int (sgn d * (\<bar>d\<bar> div 10 ^ 9))) (f64_div (f64_of_int (sgn d * (\<bar>d\<bar> mod 10 ^ 9))) (10 ^ 9))"

definition achieved_per_second :: "StressTest \<Rightarrow> int \<Rightarrow> int \<Rightarrow> rat" where
  "achieved_per_second t now logged =
     (if 0 < st_test_time_secs t then
        let secs = f64_of_int (st_test_time_secs t);
            running = Seconds (time_sub now (st_created_at t));
            secs = (if running < secs then max running 1 else secs)
        in f64_div (f64_of_int logged) secs
      else 0)"

section \<open>GetStressTestResults\<close>

definition test_rows :: "database \<Rightarrow> int \<Rightarrow> log_row list" where
  "test_rows d i = filter (\<lambda>r. lr_stresstest_id r = i) (request_log d)"

definition follow_ups_not_sent :: "database \<Rightarrow> int \<Rightarrow> int" where
  "follow_ups_not_sent d i =
     int (length (filter (\<lambda>r. sr_stresstest_id r = i \<and> sr_sent_at r = None) (scheduled d)))"

text \<open>The loop that fills in each group's percentiles.\<close>

fun group_percentiles :: "log_row list \<Rightarrow> string list \<Rightarrow> (string \<rightharpoonup> RequestSummary)
    \<Rightarrow> (string, string \<rightharpoonup> RequestSummary) result" where
  "group_percentiles sortedRows [] byMTI = Ok byMTI"
| "group_percentiles sortedRows (m # ms) byMTI =
     (case byMTI m of
        None \<Rightarrow> group_percentiles sortedRows ms byMTI
      | Some s \<Rightarrow>
          bindR (setPercentiles (rs_latency s) (times (group_rows sortedRows m))) (\<lambda>lat.
          group_percentiles sortedRows ms (byMTI(m \<mapsto> s\<lparr>rs_latency := lat\<rparr>))))"

definition GetStressTestResults :: "database \<Rightarrow> int \<Rightarrow> string list \<Rightarrow> int \<Rightarrow> (string, StressTestResults) result" where
  "GetStressTestResults d stressTestID mtis now =
     (case GetStressTest d stressTestID of
        None \<Rightarrow> fail ''sql: no rows in result set''
      | Some t \<Rightarrow>
          let rows = test_rows d stressTestID;
              (r, totalMs, byMTI) = all_groups rows mtis;
              overall = finish_summary r totalMs;
              sortedRows = sort_key (the \<circ> lr_time_taken) (filter (\<lambda>x. lr_time_taken x \<noteq> None) rows)
          in bindR (setPercentiles (rs_latency overall) (times sortedRows)) (\<lambda>lat.
             bindR (group_percentiles sortedRows mtis byMTI) (\<lambda>byMTI.
             Ok \<lparr>res_test = t, res_summary = overall\<lparr>rs_latency := lat\<rparr>,
                 res_achieved_per_second = achieved_per_second t now (rs_logged overall),
                 res_follow_ups_not_sent = follow_ups_not_sent d stressTestID,
                 res_by_mti = byMTI\<rparr>)))"

section \<open>Percentiles are exact nearest ranks\<close>

lemma f64_percents:
  "f64 (1 / 2) = 1 / 2"
  "f64 (19 / 20) = 8556839292003942 / 9007199254740992"
  "f64 (99 / 100) = 8917127262193582 / 9007199254740992"
proof -
  have e: "exponent2 (1 / 2) = -1" "exponent2 (19 / 20) = -1" "exponent2 (99 / 100) = -1"
    by (rule exponent2_unique; simp add: power_int_def)+
  have u: "ulp (1 / 2) = 1 / 9007199254740992" "ulp (19 / 20) = 1 / 9007199254740992"
    "ulp (99 / 100) = 1 / 9007199254740992"
    using e by (simp_all add: ulp_def power_int_def power_one_over)
  have r: "round_even 4503599627370496 = 4503599627370496"
    using round_even_int[of 4503599627370496] by simp
  have r2: "round_even (42784196460019712 / 5) = 8556839292003942"
    by (simp add: round_even_def Let_def floor_divide_of_int_eq[of 42784196460019712 5, simplified])
  have r3: "round_even (222928181554839552 / 25) = 8917127262193582"
    by (simp add: round_even_def Let_def floor_divide_of_int_eq[of 222928181554839552 25, simplified])
  show "f64 (1 / 2) = 1 / 2" by (simp add: f64_def u r)
  show "f64 (19 / 20) = 8556839292003942 / 9007199254740992" by (simp add: f64_def u r2)
  show "f64 (99 / 100) = 8917127262193582 / 9007199254740992" by (simp add: f64_def u r3)
qed

definition percent :: "int \<Rightarrow> bool" where
  "percent c \<longleftrightarrow> c = 50 \<or> c = 95 \<or> c = 99"

lemma percent_bounds:
  assumes "percent c"
  shows "0 \<le> f64 (of_int c / 100)" "f64 (of_int c / 100) \<le> of_int c / 100"
    "of_int c / 100 \<le> f64 (of_int c / 100) + 1 / 2 ^ 53"
  using assms f64_percents by (auto simp: percent_def)

definition nearest_rank :: "int \<Rightarrow> int \<Rightarrow> int" where
  "nearest_rank c n = (c * n + 99) div 100"

lemma nearest_rank_bounds:
  assumes "0 < c" "c \<le> 100" "0 < n"
  shows "1 \<le> nearest_rank c n" "nearest_rank c n \<le> n" "c * n \<le> 100 * nearest_rank c n"
    "100 * (nearest_rank c n - 1) < c * n"
proof -
  have div: "1 \<le> (m + 99) div 100 \<and> m \<le> 100 * ((m + 99) div 100) \<and> 100 * ((m + 99) div 100 - 1) < m
      \<and> (m \<le> 100 * n \<longrightarrow> (m + 99) div 100 \<le> n)" if "0 < m" for m :: int
  proof -
    define q where "q = (m + 99) div 100"
    obtain r where "m + 99 = 100 * q + r" "0 \<le> r" "r < 100"
    proof
      show "m + 99 = 100 * q + (m + 99) mod 100" "0 \<le> (m + 99) mod 100" "(m + 99) mod 100 < 100"
        by (simp_all add: q_def)
    qed
    then show ?thesis unfolding q_def[symmetric] using that by (intro conjI impI; simp)
  qed
  have "0 < c * n" "c * n \<le> 100 * n" using assms by simp_all
  with div[of "c * n"] show "1 \<le> nearest_rank c n" "nearest_rank c n \<le> n" "c * n \<le> 100 * nearest_rank c n"
    "100 * (nearest_rank c n - 1) < c * n"
    unfolding nearest_rank_def by blast+
qed

lemma rank_gap:
  fixes a q n x y :: rat
  assumes "q - 1 + 1 / 100 \<le> a" "a - n / 2 ^ 53 \<le> x" "x \<le> n" "n < 2 ^ 40" "x - x / 2 ^ 53 \<le> y"
  shows "q - 1 < y"
proof -
  have "n / 2 ^ 53 < 2 ^ 40 / 2 ^ 53" using assms(4) by (rule divide_strict_right_mono) simp
  then have "n / 2 ^ 53 < 1 / 8192" by simp
  moreover have "x / 2 ^ 53 \<le> n / 2 ^ 53" using assms(3) by (rule divide_right_mono) simp
  ultimately show ?thesis using assms(1,2,5) by linarith
qed

lemma rank_exact:
  assumes "percent c" "0 < n" "n < 2 ^ 40"
  shows "int_of_f64 (f64_ceil (f64_mul (f64 (of_int c / 100)) (f64_of_int n))) = nearest_rank c n"
proof -
  let ?p = "f64 (of_int c / 100)" and ?q = "nearest_rank c n" and ?n = "of_int n :: rat"
  have c: "0 < c" "c \<le> 100" using assms(1) by (auto simp: percent_def)
  note q = nearest_rank_bounds[OF c assms(2)]
  have n: "0 < ?n" "?n < 2 ^ 40"
    using assms(2,3) of_int_less_iff[of n "2 ^ 40", where 'a = rat] by simp_all
  have n53: "f64_of_int n = ?n" using assms(2,3) by (simp add: f64_of_int_def f64_of_int_exact)
  have le: "(of_int c / 100) * ?n \<le> of_int ?q"
    using q(3) of_int_le_iff[of "c * n" "100 * ?q", where 'a = rat] by simp
  have gt: "of_int ?q - 1 + 1 / 100 \<le> (of_int c / 100) * ?n"
  proof -
    have "100 * (?q - 1) + 1 \<le> c * n" using q(4) by simp
    then have "(of_int (100 * (?q - 1) + 1) :: rat) \<le> of_int (c * n)" by (simp only: of_int_le_iff)
    then show ?thesis by simp
  qed
  have upper: "?p * ?n \<le> of_int ?q"
    using percent_bounds(2)[OF assms(1)] mult_right_mono[of ?p "of_int c / 100" ?n] n(1) le by linarith
  have lower: "(of_int c / 100) * ?n - ?n / 2 ^ 53 \<le> ?p * ?n"
  proof -
    have "(of_int c / 100) * ?n \<le> (?p + 1 / 2 ^ 53) * ?n"
      using percent_bounds(3)[OF assms(1)] n(1) by (intro mult_right_mono) simp_all
    then show ?thesis by (simp add: algebra_simps)
  qed
  have p0: "0 \<le> ?p * ?n" using percent_bounds(1)[OF assms(1)] n(1) by simp
  have pn: "?p * ?n \<le> ?n"
  proof -
    have "?p \<le> 1" using percent_bounds(2)[OF assms(1)] c(2) by (auto intro: order_trans)
    then show ?thesis using n(1) by (simp add: mult_left_le_one_le)
  qed
  have f: "f64 (?p * ?n) \<le> of_int ?q"
    using upper p0 q(2) assms(3) by (intro f64_le_int) simp_all
  have "?p * ?n - ?p * ?n / 2 ^ 53 \<le> f64 (?p * ?n)"
    using f64_error[OF p0] by linarith
  then have "of_int ?q - 1 < f64 (?p * ?n)" by (rule rank_gap[OF gt lower pn n(2)])
  with f have "\<lceil>f64 (?p * ?n)\<rceil> = ?q" by (simp add: ceiling_unique)
  with q(1) show ?thesis by (simp add: f64_mul_def n53 f64_ceil_def int_of_f64_def)
qed

lemma percentile_value:
  assumes "percent c" "xs \<noteq> []" "length xs < 2 ^ 40"
  shows "percentile xs (f64 (of_int c / 100)) = Ok (f64_of_int (xs ! nat (nearest_rank c (int (length xs)) - 1)))"
proof -
  have c: "0 < c" "c \<le> 100" using assms(1) by (auto simp: percent_def)
  have n: "0 < int (length xs)" "int (length xs) < 2 ^ 40" using assms(2,3) by simp_all
  note q = nearest_rank_bounds[OF c n(1)]
  show ?thesis
    using assms(2) q(1,2) by (simp add: percentile_def rank_exact[OF assms(1) n] Let_def at_index_def)
qed

lemma sorted_count_le:
  assumes "sorted xs" "i < length xs"
  shows "Suc i \<le> length (filter (\<lambda>x. x \<le> xs ! i) xs)"
    and "w < xs ! i \<Longrightarrow> length (filter (\<lambda>x. x \<le> w) xs) \<le> i"
proof -
  have "filter (\<lambda>x. x \<le> xs ! i) (take (Suc i) xs) = take (Suc i) xs"
    using assms by (auto simp: filter_id_conv in_set_conv_nth sorted_iff_nth_mono)
  then have "Suc i = length (filter (\<lambda>x. x \<le> xs ! i) (take (Suc i) xs))" using assms(2) by simp
  also have "\<dots> \<le> length (filter (\<lambda>x. x \<le> xs ! i) xs)"
    by (metis append_take_drop_id filter_append length_append le_add1)
  finally show "Suc i \<le> length (filter (\<lambda>x. x \<le> xs ! i) xs)" .
next
  assume w: "w < xs ! i"
  have "filter (\<lambda>x. x \<le> w) (drop i xs) = []"
  proof -
    have "xs ! i \<le> x" if "x \<in> set (drop i xs)" for x
      using that assms by (auto simp: in_set_conv_nth sorted_iff_nth_mono)
    with w show ?thesis by (fastforce simp: filter_empty_conv)
  qed
  then have "filter (\<lambda>x. x \<le> w) xs = filter (\<lambda>x. x \<le> w) (take i xs)"
    by (metis append_Nil2 append_take_drop_id filter_append)
  then show "length (filter (\<lambda>x. x \<le> w) xs) \<le> i"
    using length_filter_le[of "\<lambda>x. x \<le> w" "take i xs"] by simp
qed

section \<open>The groups add up\<close>

definition rows_of :: "log_row list \<Rightarrow> string set \<Rightarrow> log_row list" where
  "rows_of rows D = filter (\<lambda>r. coalesce_mti r \<in> D) rows"

lemma times_simps [simp]:
  "times [] = []"
  "times (r # rows) = (case lr_time_taken r of None \<Rightarrow> times rows | Some t \<Rightarrow> t # times rows)"
  by (auto simp: times_def List.map_filter_simps split: option.splits)

lemma rows_of_insert:
  assumes "m \<notin> D"
  shows "length (rows_of rows (insert m D)) = length (rows_of rows D) + length (group_rows rows m)"
    and "length (times (rows_of rows (insert m D))) = length (times (rows_of rows D)) + length (times (group_rows rows m))"
    and "sum_list (times (rows_of rows (insert m D))) = sum_list (times (rows_of rows D)) + sum_list (times (group_rows rows m))"
    and "set (times (rows_of rows (insert m D))) = set (times (rows_of rows D)) \<union> set (times (group_rows rows m))"
  using assms by (induction rows) (auto simp: rows_of_def group_rows_def split: option.splits)

lemma rows_of_all: "set rows' \<subseteq> set rows \<Longrightarrow> rows_of rows' (coalesce_mti ` set rows) = rows'"
  by (auto simp: rows_of_def filter_id_conv)

lemma rows_of_empty: "rows_of rows {} = []"
  by (simp add: rows_of_def)

lemma times_subset: "set (times (rows_of rows D)) \<subseteq> set (times rows)"
  "set (times (group_rows rows m)) \<subseteq> set (times rows)"
  by (induction rows) (auto simp: rows_of_def group_rows_def split: option.splits)

text \<open>Latencies are non-negative and their sum is exact in a \<open>float64\<close>.\<close>

definition exact_times :: "log_row list \<Rightarrow> bool" where
  "exact_times rows \<longleftrightarrow> (\<forall>t \<in> set (times rows). 0 \<le> t) \<and> sum_list (times rows) \<le> 2 ^ 53"

lemma sum_list_part:
  fixes ts :: "int list"
  assumes "\<forall>t \<in> set ts. 0 \<le> t" "t \<in> set ts"
  shows "t \<le> sum_list ts"
  using assms by (induction ts) (auto simp: sum_list_nonneg add_increasing add_increasing2)

lemma exact_time:
  "exact_times rows \<Longrightarrow> t \<in> set (times rows) \<Longrightarrow> f64_of_int t = of_int t \<and> 0 \<le> t"
  using sum_list_part[of "times rows" t] by (auto simp: exact_times_def f64_of_int_def f64_of_int_exact)

lemma sql_min_eq:
  assumes "\<forall>t \<in> set ts. f64_of_int t = of_int t"
  shows "sql_min ts = (if ts = [] then 0 else of_int (Min (set ts)))"
proof (cases ts)
  case (Cons t us)
  have "fold min us t = Min (set ts)" using Cons by (simp add: Min.set_eq_fold del: set_simps Min_insert)
  moreover have "Min (set ts) \<in> set ts" using Cons by (intro Min_in) auto
  ultimately show ?thesis using Cons assms by (simp add: sql_min_def del: set_simps Min_insert)
qed (simp add: sql_min_def)

lemma sql_max_eq:
  assumes "\<forall>t \<in> set ts. f64_of_int t = of_int t"
  shows "sql_max ts = (if ts = [] then 0 else of_int (Max (set ts)))"
proof (cases ts)
  case (Cons t us)
  have "fold max us t = Max (set ts)" using Cons by (simp add: Max.set_eq_fold del: set_simps Max_insert)
  moreover have "Max (set ts) \<in> set ts" using Cons by (intro Max_in) auto
  ultimately show ?thesis using Cons assms by (simp add: sql_max_def del: set_simps Max_insert)
qed (simp add: sql_max_def)

text \<open>The overall figures after the groups in \<open>D\<close>.\<close>

definition totals_of :: "log_row list \<Rightarrow> RequestSummary \<Rightarrow> rat \<Rightarrow> bool" where
  "totals_of g r totalMs \<longleftrightarrow>
     rs_logged r = int (length g) \<and> rs_answered r = int (length (times g))
     \<and> totalMs = of_int (sum_list (times g))
     \<and> lat_min (rs_latency r) = (if times g = [] then 0 else of_int (Min (set (times g))))
     \<and> lat_max (rs_latency r) = (if times g = [] then 0 else of_int (Max (set (times g))))"

lemma add_group_totals:
  assumes ex: "exact_times rows" and D: "m \<notin> D" and t: "totals_of (rows_of rows D) r totalMs"
  shows "\<exists>r' t'. add_group rows m (r, totalMs, byMTI) = (r', t', byMTI(m \<mapsto> group_summary (group_rows rows m)))
           \<and> totals_of (rows_of rows (insert m D)) r' t'"
proof -
  let ?g = "times (group_rows rows m)" and ?d = "times (rows_of rows D)"
  note ins = rows_of_insert[OF D, of rows]
  have exg: "\<forall>t \<in> set ?g. f64_of_int t = of_int t" "\<forall>t \<in> set ?g. 0 \<le> t" "\<forall>t \<in> set ?d. 0 \<le> t"
    using exact_time[OF ex] times_subset by blast+
  have sums: "sum_list (times (rows_of rows (insert m D))) \<le> 2 ^ 53"
    "0 \<le> sum_list ?g" "0 \<le> sum_list ?d"
  proof -
    have "sum_list (times (rows_of rows E)) \<le> sum_list (times rows)" for E
      using ex unfolding exact_times_def
      by (induction rows) (auto simp: rows_of_def sum_list_nonneg add_increasing split: option.splits)
    with ex show "sum_list (times (rows_of rows (insert m D))) \<le> 2 ^ 53"
      by (auto simp: exact_times_def intro: order_trans)
    show "0 \<le> sum_list ?g" "0 \<le> sum_list ?d" using exg by (auto intro: sum_list_nonneg)
  qed
  have total: "f64_add totalMs (sql_sum ?g) = of_int (sum_list (times (rows_of rows (insert m D))))"
  proof -
    have "sql_sum ?g = of_int (sum_list ?g)"
      using sums ins(3) by (simp add: sql_sum_def f64_of_int_def f64_of_int_exact)
    moreover have "totalMs = of_int (sum_list ?d)" using t by (simp add: totals_of_def)
    ultimately have "f64_add totalMs (sql_sum ?g) = f64 (of_int (sum_list ?d + sum_list ?g))"
      by (simp add: f64_add_def)
    also have "\<dots> = of_int (sum_list ?d + sum_list ?g)"
      using sums ins(3) by (intro f64_of_int_exact) simp_all
    finally show ?thesis using ins(3) by simp
  qed
  have e: "times (rows_of rows (insert m D)) = [] \<longleftrightarrow> ?d = [] \<and> ?g = []"
    using ins(4) by (metis Un_empty set_empty)
  show ?thesis
  proof (cases "?g = []")
    case True
    with t total ins e show ?thesis
      by (simp add: add_group_def group_summary_def Let_def totals_of_def)
  next
    case False
    have mm: "Min (set ?d \<union> set ?g) = (if ?d = [] then Min (set ?g) else min (Min (set ?d)) (Min (set ?g)))"
      "Max (set ?d \<union> set ?g) = (if ?d = [] then Max (set ?g) else max (Max (set ?d)) (Max (set ?g)))"
      using False by (simp_all add: Min_Un Max_Un)
    obtain a b c d where v: "Min (set ?g) = a" "Max (set ?g) = b" "Min (set ?d) = c" "Max (set ?d) = d"
      by blast
    have "0 \<le> b" using False exg(2) v(2) by (metis List.finite_set Max_in set_empty)
    with False t total ins e show ?thesis
      unfolding totals_of_def ins(4) mm v
      by (auto simp: add_group_def group_summary_def Let_def sql_min_eq[OF exg(1)]
          sql_max_eq[OF exg(1)] zero_latency_def min_def max_def v)
  qed
qed

lemma fold_groups:
  assumes "exact_times rows"
  shows "distinct ms \<Longrightarrow> set ms \<inter> D = {} \<Longrightarrow> totals_of (rows_of rows D) r t \<Longrightarrow>
     \<exists>r' t'. fold (add_group rows) ms (r, t, b) =
               (r', t', \<lambda>m. if m \<in> set ms then Some (group_summary (group_rows rows m)) else b m)
             \<and> totals_of (rows_of rows (D \<union> set ms)) r' t'"
proof (induction ms arbitrary: D r t b)
  case Nil
  then show ?case by simp
next
  case (Cons m ms)
  obtain r' t' where g: "add_group rows m (r, t, b) = (r', t', b(m \<mapsto> group_summary (group_rows rows m)))"
    "totals_of (rows_of rows (insert m D)) r' t'"
    using add_group_totals[OF assms, of m D r t b] Cons.prems by auto
  have "distinct ms" "set ms \<inter> insert m D = {}" using Cons.prems by auto
  from Cons.IH[OF this g(2), of "b(m \<mapsto> group_summary (group_rows rows m))"]
  obtain r2 t2 where f: "fold (add_group rows) ms (r', t', b(m \<mapsto> group_summary (group_rows rows m))) =
      (r2, t2, \<lambda>k. if k \<in> set ms then Some (group_summary (group_rows rows k))
                    else (b(m \<mapsto> group_summary (group_rows rows m))) k)"
    "totals_of (rows_of rows (insert m D \<union> set ms)) r2 t2" by blast
  have "(\<lambda>k. if k \<in> set ms then Some (group_summary (group_rows rows k))
              else (b(m \<mapsto> group_summary (group_rows rows m))) k)
      = (\<lambda>k. if k \<in> set (m # ms) then Some (group_summary (group_rows rows k)) else b k)"
    by auto
  with f g(1) show ?case by simp
qed

lemma all_groups_totals:
  assumes "exact_times rows" "distinct mtis" "set mtis = coalesce_mti ` set rows"
  shows "\<exists>r t. all_groups rows mtis =
             (r, t, \<lambda>m. if m \<in> set mtis then Some (group_summary (group_rows rows m)) else None)
           \<and> totals_of rows r t"
proof -
  have "totals_of (rows_of rows {}) zero_summary 0"
    by (simp add: totals_of_def rows_of_empty zero_summary_def zero_latency_def)
  with fold_groups[OF assms(1,2), of "{}" zero_summary 0 Map.empty] show ?thesis
    by (simp add: all_groups_def assms(3) rows_of_all)
qed

section \<open>The whole query\<close>

definition pct :: "int \<Rightarrow> int list \<Rightarrow> rat" where
  "pct c xs = (if xs = [] then 0 else f64_of_int (xs ! nat (nearest_rank c (int (length xs)) - 1)))"

definition with_percentiles :: "LatencySummary \<Rightarrow> int list \<Rightarrow> LatencySummary" where
  "with_percentiles lat xs = lat\<lparr>lat_p50 := pct 50 xs, lat_p95 := pct 95 xs, lat_p99 := pct 99 xs\<rparr>"

lemma setPercentiles_ok:
  assumes "length xs < 2 ^ 40"
  shows "setPercentiles lat xs = Ok (with_percentiles lat xs)"
proof (cases "xs = []")
  case True
  then show ?thesis by (simp add: setPercentiles_def percentile_def with_percentiles_def pct_def)
next
  case False
  have "percent 50" "percent 95" "percent 99" by (simp_all add: percent_def)
  from this[THEN percentile_value, OF False assms] False show ?thesis
    by (simp add: setPercentiles_def with_percentiles_def pct_def)
qed

lemma group_percentiles_ok:
  assumes "\<forall>m \<in> set ms. length (times (group_rows rows m)) < 2 ^ 40" "distinct ms"
  shows "group_percentiles rows ms b =
     Ok (\<lambda>m. if m \<in> set ms
              then map_option (\<lambda>s. s\<lparr>rs_latency := with_percentiles (rs_latency s) (times (group_rows rows m))\<rparr>) (b m)
              else b m)"
  using assms
proof (induction ms arbitrary: b)
  case (Cons m ms)
  then show ?case
    by (cases "b m") (auto simp: setPercentiles_ok fun_eq_iff)
qed auto

lemma times_answered: "\<forall>r \<in> set xs. lr_time_taken r \<noteq> None \<Longrightarrow> times xs = map (the \<circ> lr_time_taken) xs"
  by (induction xs) auto

lemma times_filter_answered [simp]: "times (filter (\<lambda>x. lr_time_taken x \<noteq> None) rows) = times rows"
  "times (filter (\<lambda>x. \<exists>y. lr_time_taken x = Some y) rows) = times rows"
  by (induction rows) (auto split: option.splits)

lemma times_sorted:
  "times (sort_key (the \<circ> lr_time_taken) (filter (\<lambda>x. lr_time_taken x \<noteq> None) rows)) = sort (times rows)"
proof -
  let ?a = "filter (\<lambda>x. lr_time_taken x \<noteq> None) rows" and ?f = "the \<circ> lr_time_taken"
  have "times (sort_key ?f ?a) = map ?f (sort_key ?f ?a)"
    by (rule times_answered) simp
  moreover have "map ?f (sort_key ?f ?a) = sort (map ?f ?a)"
    by (rule properties_for_sort[symmetric]) simp_all
  moreover have "map ?f ?a = times ?a" by (rule times_answered[symmetric]) simp
  ultimately show ?thesis by simp
qed

lemma length_times: "length (times rows) \<le> length rows"
  by (induction rows) (auto split: option.splits)

lemma group_rows_length: "length (group_rows rows m) \<le> length rows"
  by (simp add: group_rows_def)

text \<open>The figures of a list of rows, exactly: the percentiles are those of nearest rank.\<close>

definition exact_latency :: "int list \<Rightarrow> LatencySummary" where
  "exact_latency ts =
     (if ts = [] then zero_latency
      else
        let p = (\<lambda>c. of_int (sort ts ! nat (nearest_rank c (int (length ts)) - 1))) in
        \<lparr>lat_min = of_int (Min (set ts)), lat_avg = f64 (of_int (sum_list ts) / of_int (int (length ts))),
         lat_p50 = p 50, lat_p95 = p 95, lat_p99 = p 99, lat_max = of_int (Max (set ts))\<rparr>)"

definition exact_summary :: "log_row list \<Rightarrow> RequestSummary" where
  "exact_summary rows =
     \<lparr>rs_logged = int (length rows), rs_answered = int (length (times rows)),
      rs_unanswered = int (length rows) - int (length (times rows)), rs_latency = exact_latency (times rows)\<rparr>"

lemma pct_exact:
  assumes "\<forall>t \<in> set ts. f64_of_int t = of_int t" "ts \<noteq> []" "0 < c" "c \<le> 100"
  shows "pct c (sort ts) = of_int (sort ts ! nat (nearest_rank c (int (length ts)) - 1))"
proof -
  have "1 \<le> nearest_rank c (int (length ts))" "nearest_rank c (int (length ts)) \<le> int (length ts)"
    using nearest_rank_bounds[OF assms(3,4), of "int (length ts)"] assms(2) by simp_all
  then have "sort ts ! nat (nearest_rank c (int (length ts)) - 1) \<in> set (sort ts)" by (intro nth_mem) simp
  then have "sort ts ! nat (nearest_rank c (int (length ts)) - 1) \<in> set ts" by simp
  moreover have "sort ts \<noteq> []" using assms(2) by (metis length_0_conv length_sort)
  ultimately show ?thesis using assms(1) by (simp add: pct_def)
qed

lemma percentiles_exact:
  assumes "\<forall>t \<in> set ts. f64_of_int t = of_int t"
    and "lat_min lat = (if ts = [] then 0 else of_int (Min (set ts)))"
    and "lat_max lat = (if ts = [] then 0 else of_int (Max (set ts)))"
    and "lat_avg lat = (if ts = [] then 0 else f64 (of_int (sum_list ts) / of_int (int (length ts))))"
  shows "with_percentiles lat (sort ts) = exact_latency ts"
proof (cases "ts = []")
  case True
  with assms show ?thesis by (cases lat) (simp add: with_percentiles_def exact_latency_def zero_latency_def pct_def)
next
  case False
  with assms pct_exact[OF assms(1) False] show ?thesis
    by (cases lat) (simp add: with_percentiles_def exact_latency_def Let_def)
qed

lemma exact_times_group:
  assumes "exact_times rows"
  shows "exact_times (group_rows rows m)"
proof -
  have "sum_list (times (group_rows rows m)) \<le> sum_list (times rows)"
    using assms unfolding exact_times_def
    by (induction rows) (auto simp: group_rows_def sum_list_nonneg add_increasing split: option.splits)
  with assms times_subset(2)[of rows m] show ?thesis by (auto simp: exact_times_def)
qed

lemma f64_length: "length (ts :: int list) < 2 ^ 40 \<Longrightarrow> f64_of_int (int (length ts)) = of_int (int (length ts))"
  unfolding f64_of_int_def by (intro f64_of_int_exact) simp_all

lemma f64_sum: "exact_times rows \<Longrightarrow> f64_of_int (sum_list (times rows)) = of_int (sum_list (times rows))"
  unfolding f64_of_int_def by (intro f64_of_int_exact) (auto simp: exact_times_def sum_list_nonneg)

lemma group_summary_exact:
  assumes "exact_times rows" "length (times rows) < 2 ^ 40"
  shows "(group_summary rows)\<lparr>rs_latency := with_percentiles (rs_latency (group_summary rows)) (sort (times rows))\<rparr>
           = exact_summary rows"
proof -
  have e: "\<forall>t \<in> set (times rows). f64_of_int t = of_int t" using exact_time[OF assms(1)] by blast
  have "with_percentiles (rs_latency (group_summary rows)) (sort (times rows)) = exact_latency (times rows)"
    by (rule percentiles_exact[OF e])
       (simp_all add: group_summary_def Let_def sql_min_eq[OF e] sql_max_eq[OF e] sql_sum_def f64_div_def
         f64_sum[OF assms(1)] f64_length[OF assms(2)])
  then show ?thesis by (simp add: exact_summary_def) (simp add: group_summary_def Let_def)
qed

lemma finish_exact:
  assumes "totals_of rows r t" "exact_times rows" "length (times rows) < 2 ^ 40"
  shows "(finish_summary r t)\<lparr>rs_latency := with_percentiles (rs_latency (finish_summary r t)) (sort (times rows))\<rparr>
           = exact_summary rows"
proof -
  have e: "\<forall>t \<in> set (times rows). f64_of_int t = of_int t" using exact_time[OF assms(2)] by blast
  have "with_percentiles (rs_latency (finish_summary r t)) (sort (times rows)) = exact_latency (times rows)"
    by (rule percentiles_exact[OF e])
       (use assms(1) in \<open>simp_all add: finish_summary_def totals_of_def f64_div_def f64_length[OF assms(3)]\<close>)
  moreover have "rs_logged (finish_summary r t) = int (length rows)" "rs_answered (finish_summary r t) = int (length (times rows))"
    "rs_unanswered (finish_summary r t) = int (length rows) - int (length (times rows))"
    using assms(1) by (simp_all add: finish_summary_def totals_of_def)
  ultimately show ?thesis by (simp add: exact_summary_def)
qed

lemma group_times_sorted:
  "times (group_rows (sort_key (the \<circ> lr_time_taken) (filter (\<lambda>x. lr_time_taken x \<noteq> None) rows)) m)
     = sort (times (group_rows rows m))"
proof -
  have "group_rows (sort_key (the \<circ> lr_time_taken) (filter (\<lambda>x. lr_time_taken x \<noteq> None) rows)) m
      = sort_key (the \<circ> lr_time_taken) (filter (\<lambda>x. lr_time_taken x \<noteq> None) (group_rows rows m))"
    by (simp add: group_rows_def filter_sort filter_filter conj_commute)
  then show ?thesis by (simp only: times_sorted)
qed

definition exact_results :: "StressTest \<Rightarrow> int \<Rightarrow> log_row list \<Rightarrow> int \<Rightarrow> StressTestResults" where
  "exact_results t now rows not_sent =
     \<lparr>res_test = t, res_summary = exact_summary rows,
      res_achieved_per_second = achieved_per_second t now (int (length rows)), res_follow_ups_not_sent = not_sent,
      res_by_mti = (\<lambda>m. if m \<in> coalesce_mti ` set rows then Some (exact_summary (group_rows rows m)) else None)\<rparr>"

lemma GetStressTestResults_ok:
  assumes "GetStressTest d i = Some t" "exact_times (test_rows d i)" "distinct mtis"
    and "set mtis = coalesce_mti ` set (test_rows d i)" "length (test_rows d i) < 2 ^ 40"
  shows "GetStressTestResults d i mtis now = Ok (exact_results t now (test_rows d i) (follow_ups_not_sent d i))"
proof -
  let ?rows = "test_rows d i"
  let ?s = "sort_key (the \<circ> lr_time_taken) (filter (\<lambda>x. lr_time_taken x \<noteq> None) ?rows)"
  obtain r tt where g: "all_groups ?rows mtis =
      (r, tt, \<lambda>m. if m \<in> set mtis then Some (group_summary (group_rows ?rows m)) else None)"
    and tot: "totals_of ?rows r tt"
    using all_groups_totals[OF assms(2-4)] by blast
  have len: "length (sort (times ?rows)) < 2 ^ 40" "length (times ?rows) < 2 ^ 40"
    "length (times (group_rows ?rows m)) < 2 ^ 40" for m
    using length_times[of ?rows] length_times[of "group_rows ?rows m"] group_rows_length[of ?rows m] assms(5) by simp_all
  have "\<forall>m \<in> set mtis. length (times (group_rows ?s m)) < 2 ^ 40" unfolding group_times_sorted using len(3) by simp
  note gp = group_percentiles_ok[OF this assms(3)]
  have m: "(\<lambda>m. if m \<in> set mtis
        then map_option (\<lambda>s. s\<lparr>rs_latency := with_percentiles (rs_latency s) (times (group_rows ?s m))\<rparr>)
               (if m \<in> set mtis then Some (group_summary (group_rows ?rows m)) else None)
        else if m \<in> set mtis then Some (group_summary (group_rows ?rows m)) else None)
      = (\<lambda>m. if m \<in> coalesce_mti ` set ?rows then Some (exact_summary (group_rows ?rows m)) else None)"
    unfolding group_times_sorted
    by (intro ext) (simp add: assms(4) group_summary_exact[OF exact_times_group[OF assms(2)] len(3)])
  have l: "rs_logged (finish_summary r tt) = int (length ?rows)" using tot by (simp add: finish_summary_def totals_of_def)
  show ?thesis
    unfolding GetStressTestResults_def assms(1) option.case Let_def g prod.case times_sorted
      setPercentiles_ok[OF len(1)] bindR.simps gp m finish_exact[OF tot assms(2) len(2)] l exact_results_def ..
qed

section \<open>Properties\<close>

text \<open>
  C34: The percentile routine, a ceiling of a product of doubles, returns the exact nearest rank
  for the three percentiles in use and any list of fewer than \<open>2^40\<close> latencies: at least
  that share of the values is at most the result, and for every smaller value it is less.
\<close>

theorem percentile_is_nearest_rank:
  assumes "percent c" "sorted xs" "xs \<noteq> []" "length xs < 2 ^ 40"
  shows "\<exists>v \<in> set xs. percentile xs (f64 (of_int c / 100)) = Ok (f64_of_int v)
           \<and> c * int (length xs) \<le> 100 * int (length (filter (\<lambda>x. x \<le> v) xs))
           \<and> (\<forall>w < v. 100 * int (length (filter (\<lambda>x. x \<le> w) xs)) < c * int (length xs))"
proof -
  have c: "0 < c" "c \<le> 100" using assms(1) by (auto simp: percent_def)
  have n: "0 < int (length xs)" using assms(3) by simp
  note q = nearest_rank_bounds[OF c n]
  let ?i = "nat (nearest_rank c (int (length xs)) - 1)"
  have i: "?i < length xs" "int ?i = nearest_rank c (int (length xs)) - 1" using q(1,2) by auto
  have "c * int (length xs) \<le> 100 * int (length (filter (\<lambda>x. x \<le> xs ! ?i) xs))"
    using q(3) sorted_count_le(1)[OF assms(2) i(1)] i(2) by linarith
  moreover have "\<forall>w < xs ! ?i. 100 * int (length (filter (\<lambda>x. x \<le> w) xs)) < c * int (length xs)"
  proof (intro allI impI)
    fix w
    assume "w < xs ! ?i"
    then have "int (length (filter (\<lambda>x. x \<le> w) xs)) \<le> int ?i"
      using sorted_count_le(2)[OF assms(2) i(1)] by (simp only: of_nat_le_iff)
    with q(4) i(2) show "100 * int (length (filter (\<lambda>x. x \<le> w) xs)) < c * int (length xs)" by simp
  qed
  ultimately show ?thesis
    using percentile_value[OF assms(1,3,4)] nth_mem[OF i(1)]
    by (intro bexI [of _ "xs ! ?i"]) (simp_all add: nat_diff_distrib')
qed

theorem percentile_is_nearest_rank_witness:
  "\<exists>v \<in> set [3, 5, 8, 20]. percentile [3, 5, 8, 20] (f64 (of_int 95 / 100)) = Ok (f64_of_int v)
     \<and> 95 * int (length [3 :: int, 5, 8, 20]) \<le> 100 * int (length (filter (\<lambda>x. x \<le> v) [3, 5, 8, 20]))
     \<and> (\<forall>w < v. 100 * int (length (filter (\<lambda>x. x \<le> w) [3, 5, 8, 20])) < 95 * int (length [3 :: int, 5, 8, 20]))"
  by (rule percentile_is_nearest_rank) (simp_all add: percent_def)

text \<open>
  C12: The results of a test do not depend on the order in which the database returns the groups
  and are exactly those of the log as a whole: each row is counted once, under its message type
  and overall, and for each type and overall minimum, maximum, average and the three nearest-rank
  percentiles are those of the latencies of its answered rows; the rate counts every row logged,
  and the follow-ups not sent are those of the test. The log has fewer than \<open>2^40\<close> rows, no
  negative latency, and latencies that add up to at most \<open>2^53\<close> milliseconds.
\<close>

theorem results_match_log:
  assumes "GetStressTest d i = Some t" "exact_times (test_rows d i)" "distinct mtis"
    and "set mtis = coalesce_mti ` set (test_rows d i)" "length (test_rows d i) < 2 ^ 40"
  shows "GetStressTestResults d i mtis now = Ok (exact_results t now (test_rows d i) (follow_ups_not_sent d i))"
  by (rule GetStressTestResults_ok[OF assms])

definition one_test_db :: database where
  "one_test_db = sale_db\<lparr>stress_tests := [\<lparr>st_id = 1, st_name = ''t'', st_created_at = 0,
     st_total_requests = 0, st_test_time_secs = 10, st_request_per_second = 1,
     st_node_test_mode = ''advertised'', st_test_type = ''sale'', st_source_test_id = 0\<rparr>]\<rparr>"

lemma one_test_rows: "test_rows one_test_db 1 = request_log sale_db"
  by (simp add: test_rows_def one_test_db_def sale_db_log sale_entry_def)

lemma one_test_times: "times (test_rows one_test_db 1) = [2]"
  unfolding one_test_rows by (simp add: sale_db_log)

theorem results_match_log_witness:
  "\<exists>res. GetStressTestResults one_test_db 1 [''0200''] 7 = Ok res
     \<and> rs_answered (res_summary res) = 1 \<and> lat_max (rs_latency (res_summary res)) = 2"
proof -
  have "GetStressTest one_test_db 1 = Some (hd (stress_tests one_test_db))"
    by (simp add: GetStressTest_def one_test_db_def)
  moreover have "exact_times (test_rows one_test_db 1)"
    by (simp add: exact_times_def one_test_times)
  moreover have "set [''0200''] = coalesce_mti ` set (test_rows one_test_db 1)"
    unfolding one_test_rows by (simp add: sale_db_log coalesce_mti_def sale_entry_def)
  moreover have "length (test_rows one_test_db 1) < 2 ^ 40"
    unfolding one_test_rows by (simp add: sale_db_log)
  ultimately have "GetStressTestResults one_test_db 1 [''0200''] 7
      = Ok (exact_results (hd (stress_tests one_test_db)) 7 (test_rows one_test_db 1) (follow_ups_not_sent one_test_db 1))"
    by (intro results_match_log) simp_all
  then show ?thesis
    by (simp add: exact_results_def exact_summary_def one_test_times) (simp add: exact_latency_def Let_def nearest_rank_def)
qed

end
