(* ===== verification/Request_Logs.thy ===== *)
theory Request_Logs
  imports Database
begin

text \<open>
  \<open>GetRequestLogs\<close> of \<open>database/dao.go\<close>: the log entries of a test, with the zero time and a zero
  duration for a request that has no response yet.
\<close>

section \<open>Reading the log of a test\<close>

record StoredLog =
  sl_id :: int
  sl_reference :: string
  sl_connection_id :: string
  sl_mti :: string
  sl_request_time :: int
  sl_response_time :: int
  sl_time_taken :: int
  sl_created_at :: int
  sl_stresstest_id :: int

text \<open>Go's zero \<open>time.Time\<close>, the first of January of the year 1, in nanoseconds since 1970; and what a
  NULL column leaves in \<open>sql.NullTime\<close> and \<open>sql.NullInt64\<close>.\<close>

definition zero_time :: int where "zero_time = - 62135596800 * 10 ^ 9"

definition null_time :: "int option \<Rightarrow> int" where
  "null_time t = (case t of None \<Rightarrow> zero_time | Some v \<Rightarrow> v)"

definition null_int :: "int option \<Rightarrow> int" where
  "null_int n = (case n of None \<Rightarrow> 0 | Some v \<Rightarrow> v)"

definition scan_log :: "log_row \<Rightarrow> StoredLog" where
  "scan_log r =
     \<lparr>sl_id = lr_id r, sl_reference = lr_reference r, sl_connection_id = lr_connection_id r,
      sl_mti = (case lr_mti r of None \<Rightarrow> [] | Some m \<Rightarrow> m), sl_request_time = lr_request_time r,
      sl_response_time = null_time (lr_response_time r), sl_time_taken = null_int (lr_time_taken r),
      sl_created_at = lr_created_at r, sl_stresstest_id = lr_stresstest_id r\<rparr>"

text \<open>The rows of one test come from its index in the order of their ids.\<close>

definition GetRequestLogs :: "database \<Rightarrow> int \<Rightarrow> StoredLog list" where
  "GetRequestLogs d stressTestID =
     map scan_log (filter (\<lambda>r. lr_stresstest_id r = stressTestID) (request_log d))"

section \<open>Properties\<close>

text \<open>A log entry as a caller hands it to \<open>AddRequestLog\<close>, read back.\<close>

definition logged :: "int \<Rightarrow> int \<Rightarrow> RequestLog \<Rightarrow> StoredLog" where
  "logged i now e =
     \<lparr>sl_id = i, sl_reference = rl_reference e, sl_connection_id = rl_connection_id e, sl_mti = rl_mti e,
      sl_request_time = rl_request_time e, sl_response_time = zero_time, sl_time_taken = 0,
      sl_created_at = now, sl_stresstest_id = rl_stresstest_id e\<rparr>"

lemma scan_new: "scan_log (new_log_row i now e) = logged i now e"
  by (simp add: scan_log_def logged_def null_time_def null_int_def new_log_row_def)

lemma scan_answered:
  "scan_log (answer_row t1 t2 ms code auth r) =
     (scan_log r)\<lparr>sl_request_time := t1, sl_response_time := t2, sl_time_taken := ms\<rparr>"
  by (simp add: scan_log_def answer_row_def null_time_def null_int_def)

text \<open>
  The log of a test is read back as it was written: a logged request is the last entry of its
  test, with a zero response time; its response fills in when it was sent and answered and the
  milliseconds between, whatever time it was logged with; and no other entry of any test changes.
\<close>

theorem request_log_read_back:
  assumes "filter (unanswered (rl_reference e) (rl_connection_id e) (rl_mti e)) (request_log d) = []"
    and "d' = fst (exec_op now (AddRequestLog e) d)"
    and "d'' = fst (exec_op later
           (UpdateResponseTime (rl_reference e) (rl_connection_id e) (rl_mti e) sentAt receivedAt code auth) d')"
  shows "GetRequestLogs d' i = GetRequestLogs d i
           @ (if rl_stresstest_id e = i then [logged (log_seq d + 1) now e] else [])
         \<and> GetRequestLogs d'' i = GetRequestLogs d i
           @ (if rl_stresstest_id e = i
              then [(logged (log_seq d + 1) now e)\<lparr>sl_request_time := sentAt, sl_response_time := receivedAt,
                      sl_time_taken := Milliseconds (time_sub receivedAt sentAt)\<rparr>] else [])"
  using assms(1) map_if_none[OF assms(1)]
  by (simp add: assms(2,3) GetRequestLogs_def AddRequestLog_def UpdateResponseTime_def scan_new scan_answered unanswered_def)

theorem request_log_read_back_witness:
  "let e = \<lparr>rl_reference = ''000000000001'', rl_connection_id = ''c1'', rl_mti = ''0200'', rl_request_time = 5,
             rl_stresstest_id = 7, rl_processing_code = ''000000'', rl_pan = [], rl_amount = [], rl_currency = [],
             rl_request_message = [], rl_original_log_id = 0\<rparr>;
       d = fst (exec_op 1 (AddRequestLog e) empty_db);
       d' = fst (exec_op 2 (UpdateResponseTime ''000000000001'' ''c1'' ''0200'' 6 3000006 ''00'' []) d)
   in map sl_time_taken (GetRequestLogs d' 7) = [3] \<and> map sl_response_time (GetRequestLogs d 7) = [zero_time]"
proof -
  let ?e = "\<lparr>rl_reference = ''000000000001'', rl_connection_id = ''c1'', rl_mti = ''0200'', rl_request_time = 5,
    rl_stresstest_id = 7, rl_processing_code = ''000000'', rl_pan = [], rl_amount = [], rl_currency = [],
    rl_request_message = [], rl_original_log_id = 0\<rparr>"
  have "filter (unanswered (rl_reference ?e) (rl_connection_id ?e) (rl_mti ?e)) (request_log empty_db) = []"
    by (simp add: empty_db_def)
  note read_back = this
  have none: "GetRequestLogs empty_db 7 = []" by (simp add: GetRequestLogs_def empty_db_def)
  from request_log_read_back[OF read_back refl refl, where now = 1 and later = 2 and sentAt = 6 and receivedAt = 3000006 and code = "''00''"
      and auth = "[]" and i = 7] show ?thesis
    using none by (simp add: Let_def logged_def Milliseconds_def time_sub_def)
qed

end
