(* ===== verification/Framing.thy ===== *)
theory Framing
  imports Codec
begin

text \<open>
  The socket framing of \<open>network/server/iso_server.go\<close> and \<open>network/client/iso_client.go\<close>:
  every message goes out behind its length in two big-endian bytes, and
  \<open>readLengthPrefixedMessage\<close>, which both programs have, reads it back. A connection's
  input is the list of bytes that arrive before the peer closes it; \<open>io.ReadFull\<close> fails
  when fewer are left than it was asked for.
\<close>

unbundle bit_operations_syntax

section \<open>Big-endian 16-bit lengths\<close>

definition PutUint16 :: "16 word \<Rightarrow> string" where
  "PutUint16 v = [char_of (unat (drop_bit 8 v)), char_of (unat (v AND 0xFF))]"

definition Uint16 :: "char \<Rightarrow> char \<Rightarrow> 16 word" where
  "Uint16 hi lo = push_bit 8 (word_of_nat (of_char hi)) OR word_of_nat (of_char lo)"

text \<open>\<open>uint16(n)\<close> keeps the low sixteen bits of an \<open>int\<close>.\<close>

definition uint16 :: "int \<Rightarrow> 16 word" where
  "uint16 n = word_of_int n"

section \<open>Writing and reading frames\<close>

definition write_frame :: "string \<Rightarrow> string" where
  "write_frame rawMsg = PutUint16 (uint16 (int (length rawMsg))) @ rawMsg"

datatype read_error = ShortLength | ShortMessage

definition ReadFull :: "'e \<Rightarrow> nat \<Rightarrow> string \<Rightarrow> ('e, string \<times> string) result" where
  "ReadFull e n input = (if length input < n then fail e else Ok (take n input, drop n input))"

definition readLengthPrefixedMessage :: "string \<Rightarrow> (read_error, string \<times> string) result" where
  "readLengthPrefixedMessage conn =
     bindR (ReadFull ShortLength 2 conn) (\<lambda>(lengthBytes, conn).
     bindR (at_index lengthBytes 0) (\<lambda>hi.
     bindR (at_index lengthBytes 1) (\<lambda>lo.
     ReadFull ShortMessage (unat (Uint16 hi lo)) conn)))"

section \<open>The length survives, modulo 65536\<close>

lemma unat_16: "unat (v :: 16 word) < 65536"
  using unsigned_less[of v, simplified] by simp

lemma bytes_disjoint: "push_bit 8 (a :: nat) AND of_char c = 0"
proof (rule bit_eqI)
  fix n
  have "\<not> bit (of_char c :: nat) n" if "8 \<le> n"
  proof -
    have "(256 :: nat) \<le> 2 ^ n" using power_increasing[OF that, of "2 :: nat"] by simp
    with nat_of_char_less_256[of c] have "(of_char c :: nat) < 2 ^ n" by (rule less_le_trans)
    then show ?thesis by (simp add: bit_iff_odd)
  qed
  then show "bit (push_bit 8 a AND of_char c) n \<longleftrightarrow> bit (0 :: nat) n"
    by (auto simp: bit_and_iff bit_push_bit_iff)
qed

lemma Uint16_unat: "unat (Uint16 hi lo) = 256 * of_char hi + of_char lo"
proof -
  have lt: "256 * (of_char hi :: nat) + of_char lo < 65536"
    using nat_of_char_less_256[of hi] nat_of_char_less_256[of lo] by linarith
  have "unat (push_bit 8 (word_of_nat (of_char hi) :: 16 word)) = push_bit 8 (of_char hi)"
    using lt by (simp add: push_bit_eq_mult unat_word_ariths unat_of_nat)
  moreover have "unat (word_of_nat (of_char lo) :: 16 word) = of_char lo"
    using lt by (simp add: unat_of_nat)
  ultimately have "unat (Uint16 hi lo) = push_bit 8 (of_char hi) OR of_char lo"
    by (simp add: Uint16_def unsigned_or_eq)
  also have "\<dots> = push_bit 8 (of_char hi) + of_char lo"
    by (rule disjunctive_add_eq_or[OF bytes_disjoint, symmetric])
  finally show ?thesis by (simp add: push_bit_eq_mult mult.commute)
qed

lemma uint16_unat: "unat (uint16 (int n)) = n mod 65536"
  by (simp add: uint16_def unat_of_nat)

lemma PutUint16_bytes:
  "PutUint16 v = [char_of (unat v div 256), char_of (unat v mod 256)]"
proof -
  have "unat (v AND 0xFF) = unat v mod 256"
  proof -
    have v: "(v AND 0xFF) = take_bit 8 v" by (simp add: take_bit_eq_mask mask_eq_exp_minus_1)
    show ?thesis unfolding v unsigned_take_bit_eq by (simp add: take_bit_eq_mod)
  qed
  then show ?thesis by (simp add: PutUint16_def drop_bit_eq_div unat_div_distrib)
qed

lemma length_PutUint16 [simp]: "length (PutUint16 v) = 2"
  by (simp add: PutUint16_def)

lemma Uint16_PutUint16: "Uint16 (PutUint16 v ! 0) (PutUint16 v ! 1) = v"
proof -
  have "unat v < 65536" using unat_16[of v] by simp
  then have "unat v div 256 < 256" by (simp add: less_mult_imp_div_less)
  then have "unat (Uint16 (PutUint16 v ! 0) (PutUint16 v ! 1)) = unat v"
    by (simp add: Uint16_unat PutUint16_bytes)
  then show ?thesis by (rule unsigned_word_eqI)
qed

lemma PutUint16_Uint16: "PutUint16 (Uint16 hi lo) = [hi, lo]"
  using nat_of_char_less_256[of hi] nat_of_char_less_256[of lo]
  by (simp add: PutUint16_bytes Uint16_unat)

lemma read_PutUint16:
  "readLengthPrefixedMessage (PutUint16 v @ rest) = ReadFull ShortMessage (unat v) rest"
proof -
  obtain hi lo where b: "PutUint16 v = [hi, lo]" by (simp add: PutUint16_def)
  then have "Uint16 hi lo = v" using Uint16_PutUint16[of v] by simp
  with b show ?thesis by (simp add: readLengthPrefixedMessage_def ReadFull_def at_index_def)
qed

lemma read_short: "length input < 2 \<Longrightarrow> readLengthPrefixedMessage input = fail ShortLength"
  by (simp add: readLengthPrefixedMessage_def ReadFull_def)

lemma read_cases:
  obtains "length input < 2" | v rest where "input = PutUint16 v @ rest"
proof (cases "length input < 2")
  case False
  then obtain hi lo rest where "input = hi # lo # rest"
    by (cases input; cases "tl input") auto
  then have "input = PutUint16 (Uint16 hi lo) @ rest" by (simp add: PutUint16_Uint16)
  then show ?thesis by (rule that(2))
qed (rule that(1))

section \<open>Frames of at most 65535 bytes are an exact codec\<close>

definition read_frame :: "unit \<Rightarrow> string \<Rightarrow> (string \<times> string) option" where
  "read_frame u input = (case readLengthPrefixedMessage input of Inl _ \<Rightarrow> None | Inr p \<Rightarrow> Some p)"

definition frame_fits :: "unit \<Rightarrow> string \<Rightarrow> bool" where
  "frame_fits u m \<longleftrightarrow> length m < 65536"

interpretation frames: exact_codec "\<lambda>u. write_frame" read_frame frame_fits
proof
  fix u m rest
  assume "frame_fits u m"
  then show "read_frame u (write_frame m @ rest) = Some (m, rest)"
    by (simp add: read_frame_def write_frame_def read_PutUint16 uint16_unat ReadFull_def frame_fits_def)
next
  fix u input m rest
  assume r: "read_frame u input = Some (m, rest)"
  show "frame_fits u m \<and> input = write_frame m @ rest"
  proof (cases input rule: read_cases)
    case 1
    with r show ?thesis by (simp add: read_frame_def read_short)
  next
    case (2 v r')
    then have m: "unat v \<le> length r'" "m = take (unat v) r'" "rest = drop (unat v) r'"
      using r by (auto simp: read_frame_def read_PutUint16 ReadFull_def split: if_splits)
    then have len: "length m = unat v" by simp
    then have "uint16 (int (length m)) = v" by (simp add: uint16_def)
    moreover have "length m < 65536" using len unat_16[of v] by simp
    ultimately show ?thesis using 2 m by (simp add: write_frame_def frame_fits_def)
  qed
qed

lemma write_frame_wraps:
  "readLengthPrefixedMessage (write_frame m @ rest) =
     Ok (take (length m mod 65536) m, drop (length m mod 65536) m @ rest)"
proof -
  have "length m mod 65536 \<le> length m" by simp
  then show ?thesis by (simp add: write_frame_def read_PutUint16 uint16_unat ReadFull_def)
qed

end
