(* ===== verification/Matching.thy ===== *)
theory Matching
  imports Framing Response
begin

text \<open>
  Pairing a response with its request: \<open>matchKey\<close> of \<open>network/server/iso_server.go\<close>, and the
  issuer client of \<open>network/client/iso_client.go\<close>, which answers every request it reads with
  the same message under the response MTI. \<open>mti[2]\<close> is a byte, and Go's \<open>string\<close> of a byte is
  the UTF-8 encoding of that code point, one byte below 128 and two above.
\<close>

unbundle bit_operations_syntax

section \<open>matchKey\<close>

definition byte :: "char \<Rightarrow> 8 word" where
  "byte c = word_of_nat (of_char c)"

definition char_of_byte :: "8 word \<Rightarrow> char" where
  "char_of_byte w = char_of (unat w)"

definition matchKey :: "string \<Rightarrow> string \<Rightarrow> (string, string) result" where
  "matchKey mti reference =
     bindR (go_slice mti 0 2) (\<lambda>front.
     bindR (at_index mti 2) (\<lambda>c.
     bindR (go_slice mti 3 4) (\<lambda>last.
     Ok (front @ string_of_byte (char_of_byte (byte c AND NOT 1)) @ last @ ''|'' @ reference))))"

section \<open>The issuer client\<close>

definition responseMTI :: "string \<Rightarrow> (string, string \<times> bool) result" where
  "responseMTI msg =
     (if length msg < 4 then Ok ([], False)
      else bindR (at_index msg 2) (\<lambda>c.
        if \<not> is_digit c \<or> (byte c - 48) mod 2 \<noteq> 0 then Ok ([], False)
        else
          bindR (go_slice msg 0 2) (\<lambda>front.
          bindR (go_slice msg 3 4) (\<lambda>last.
          Ok (front @ string_of_byte (char_of_byte (byte c + 1)) @ last, True)))))"

text \<open>\<open>copy(dst, src)\<close> overwrites as many leading bytes as both have.\<close>

definition go_copy :: "string \<Rightarrow> string \<Rightarrow> string" where
  "go_copy dst src = take (length dst) src @ drop (length src) dst"

text \<open>The reply to one message read, as written to the socket after the delay.\<close>

definition client_reply :: "string \<Rightarrow> (string, string option) result" where
  "client_reply msg =
     bindR (responseMTI msg) (\<lambda>(respMTI, ok).
       if ok then Ok (Some (write_frame (go_copy msg respMTI))) else Ok None)"

text \<open>The client's loop: the replies started, in reading order, until a read fails. The order in
  which their goroutines write them is that of \<open>issuer_exec\<close> in Issuer_Client.\<close>

function client_loop :: "string \<Rightarrow> (string, string list) result" where
  "client_loop conn =
     (case readLengthPrefixedMessage conn of
        Inl _ \<Rightarrow> Ok []
      | Inr (msg, conn') \<Rightarrow>
          bindR (client_reply msg) (\<lambda>r.
          bindR (client_loop conn') (\<lambda>rs.
          Ok (case r of None \<Rightarrow> rs | Some f \<Rightarrow> f # rs))))"
  by pat_completeness auto

lemma read_shrinks:
  "readLengthPrefixedMessage conn = Ok (m, rest) \<Longrightarrow> length rest < length conn"
  using frames.dec_exact[of "()" conn m rest]
  by (simp add: read_frame_def write_frame_def)

termination client_loop
  by (relation "measure length") (auto dest: read_shrinks)

declare client_loop.simps [simp del]

section \<open>Replies carry the request's key\<close>

text \<open>An MTI the client answers: four bytes, the third an even digit.\<close>

definition answerable :: "string \<Rightarrow> bool" where
  "answerable m \<longleftrightarrow> 4 \<le> length m \<and> is_digit (m ! 2) \<and> even (of_char (m ! 2) :: nat)"

definition odd_digit :: "char \<Rightarrow> char" where
  "odd_digit c = char_of (Suc (of_char c))"

definition reply_text :: "string \<Rightarrow> string" where
  "reply_text m = m[2 := odd_digit (m ! 2)]"

lemma byte_parity: "(byte c - 48) mod 2 = 0 \<longleftrightarrow> even (of_char c :: nat)"
proof -
  have "(byte c - 48) mod 2 = 0 \<longleftrightarrow> even (byte c - 48)" by (simp add: even_iff_mod_2_eq_zero)
  also have "\<dots> \<longleftrightarrow> even (byte c)" by simp
  also have "\<dots> \<longleftrightarrow> even (of_char c :: nat)"
    by (simp add: byte_def even_word_iff) 
  finally show ?thesis .
qed

lemma byte_next:
  assumes "of_char c < (255 :: nat)"
  shows "char_of_byte (byte c + 1) = odd_digit c" "byte (odd_digit c) = byte c + 1"
proof -
  have n: "byte c + 1 = word_of_nat (Suc (of_char c))" by (simp add: byte_def)
  show "char_of_byte (byte c + 1) = odd_digit c"
    unfolding n char_of_byte_def odd_digit_def unat_of_nat using assms by simp
  show "byte (odd_digit c) = byte c + 1"
    using assms by (simp add: byte_def odd_digit_def)
qed

lemma even_byte: "even (byte c) \<longleftrightarrow> even (of_char c :: nat)"
  by (simp add: byte_def)

lemma even_mask:
  fixes w :: "8 word"
  assumes "even w"
  shows "(w + 1) AND NOT 1 = w" "w AND NOT 1 = w"
proof -
  have "w + 1 = w OR 1"
    using assms by (intro disjunctive_add_eq_or) (simp add: and_one_eq even_iff_mod_2_eq_zero)
  then show "(w + 1) AND NOT 1 = w" "w AND NOT 1 = w"
    using assms by (auto simp: bit_eq_iff bit_simps bit_0)
qed

lemma char_of_byte_byte [simp]: "char_of_byte (byte c) = c"
  by (simp add: char_of_byte_def byte_def unat_of_nat)

lemma even_digit:
  assumes "is_digit c" "even (of_char c :: nat)"
  shows "is_digit (odd_digit c)" "of_char c < (255 :: nat)"
proof -
  have "(of_char c :: nat) \<noteq> 57" using assms(2) by auto
  with assms(1) show "is_digit (odd_digit c)" "of_char c < (255 :: nat)"
    by (auto simp: is_digit_def odd_digit_def)
qed

lemma matchKey_eval:
  "4 \<le> length mti \<Longrightarrow>
     matchKey mti ref = Ok (take 2 mti @ string_of_byte (char_of_byte (byte (mti ! 2) AND NOT 1))
                            @ take 1 (drop 3 mti) @ ''|'' @ ref)"
  by (simp add: matchKey_def go_slice_def at_index_def)

lemma responseMTI_eval:
  "responseMTI m =
     (if answerable m then Ok (take 2 m @ [odd_digit (m ! 2)] @ take 1 (drop 3 m), True) else Ok ([], False))"
proof (cases "answerable m")
  case True
  then have d: "4 \<le> length m" "is_digit (m ! 2)" "even (of_char (m ! 2) :: nat)"
    by (auto simp: answerable_def)
  with even_digit[OF d(2,3)] show ?thesis
    by (simp add: responseMTI_def answerable_def at_index_def go_slice_def byte_parity byte_next)
next
  case False
  then show ?thesis
    by (auto simp: responseMTI_def answerable_def at_index_def byte_parity)
qed

lemma reply_copy:
  assumes "answerable m"
  shows "go_copy m (take 2 m @ [odd_digit (m ! 2)] @ take 1 (drop 3 m)) = reply_text m"
proof -
  obtain a b c d r where "m = a # b # c # d # r"
    using assms by (auto simp: answerable_def Suc_le_length_iff numeral_eq_Suc)
  then show ?thesis by (simp add: go_copy_def reply_text_def)
qed

lemma client_reply_eval:
  "client_reply m = Ok (if answerable m then Some (write_frame (reply_text m)) else None)"
  using reply_copy[of m] by (simp add: client_reply_def responseMTI_eval)

lemma reply_key:
  assumes "answerable m"
  shows "matchKey (take 4 (reply_text m)) ref = matchKey (take 4 m) ref"
proof -
  have d: "4 \<le> length m" "is_digit (m ! 2)" "even (of_char (m ! 2) :: nat)"
    using assms by (auto simp: answerable_def)
  have "take 2 (reply_text m) = take 2 m" "drop 3 (reply_text m) = drop 3 m"
    using d(1) by (simp_all add: reply_text_def)
  moreover have "take 4 (reply_text m) ! 2 = odd_digit (m ! 2)" "length (reply_text m) = length m"
    using d(1) by (simp_all add: reply_text_def)
  moreover have "byte (odd_digit (m ! 2)) AND NOT 1 = byte (m ! 2) AND NOT 1"
    unfolding byte_next(2)[OF even_digit(2)[OF d(2,3)]]
    using even_mask[of "byte (m ! 2)"] d(3) by (simp only: even_byte)
  ultimately show ?thesis
    using d(1) by (simp add: matchKey_eval drop_take)
qed

lemma client_loop_frames:
  assumes "\<forall>m \<in> set ms. length m < 65536" "readLengthPrefixedMessage rest = fail e"
  shows "client_loop (concat (map write_frame ms) @ rest)
           = Ok (map (\<lambda>m. write_frame (reply_text m)) (filter answerable ms))"
  using assms(1)
proof (induction ms)
  case Nil
  then show ?case using assms(2) by (simp add: client_loop.simps)
next
  case (Cons m ms)
  have "readLengthPrefixedMessage (write_frame m @ concat (map write_frame ms) @ rest)
      = Ok (m, concat (map write_frame ms) @ rest)"
    using write_frame_wraps[of m] Cons.prems by simp
  with Cons show ?case
    by (subst client_loop.simps) (simp add: client_reply_eval)
qed

text \<open>Any input is a sequence of complete frames and an incomplete rest.\<close>

lemma input_frames:
  "\<exists>ms rest e. conn = concat (map write_frame ms) @ rest \<and> (\<forall>m \<in> set ms. length m < 65536)
               \<and> readLengthPrefixedMessage rest = fail e"
proof (induction "length conn" arbitrary: conn rule: less_induct)
  case less
  show ?case
  proof (cases "read_frame () conn")
    case None
    have "readLengthPrefixedMessage conn \<noteq> panic"
      by (cases conn rule: read_cases) (auto simp: read_short read_PutUint16 ReadFull_def)
    then obtain e where "readLengthPrefixedMessage conn = fail e"
      using None by (cases "readLengthPrefixedMessage conn" rule: sum.exhaust)
        (auto simp: read_frame_def intro: fault.exhaust)
    then show ?thesis by (intro exI [of _ "[]"] exI [of _ conn]) simp
  next
    case (Some p)
    obtain m c where p: "p = (m, c)" by (cases p)
    with Some frames.dec_exact[of "()" conn m c] have f: "length m < 65536" "conn = write_frame m @ c"
      by (auto simp: frame_fits_def)
    then have "length c < length conn" by (simp add: write_frame_def)
    from less[OF this] obtain ms rest e where
      "c = concat (map write_frame ms) @ rest" "\<forall>m \<in> set ms. length m < 65536"
      "readLengthPrefixedMessage rest = fail e" by blast
    with f show ?thesis by (intro exI [of _ "m # ms"] exI [of _ rest] exI [of _ e]) simp
  qed
qed

text \<open>Which messages share a key.\<close>

definition mti_digits :: "string \<Rightarrow> bool" where
  "mti_digits m \<longleftrightarrow> length m = 4 \<and> is_digit (m ! 2)"

lemma masked_digit:
  assumes "is_digit c"
  shows "\<exists>d. is_digit d \<and> char_of_byte (byte c AND NOT 1) = d
             \<and> (of_char d :: nat) = of_char c - of_char c mod 2"
proof -
  obtain k where k: "k < 10" "c = digit_char k" using digit_char_val[OF assms] by blast
  have "k \<in> {0, 1, 2, 3, 4, 5, 6, 7, 8, 9}" using k(1) by auto
  then show ?thesis
    unfolding k(2) by (auto simp: digit_char_def char_of_byte_def byte_def is_digit_def)
qed

lemma matchKey_eq_iff:
  assumes "mti_digits a" "mti_digits b"
  shows "matchKey a r = matchKey b q \<longleftrightarrow>
           take 2 a = take 2 b \<and> of_char (a ! 2) div 2 = (of_char (b ! 2) div 2 :: nat)
           \<and> a ! 3 = b ! 3 \<and> r = q"
proof -
  obtain d e where d: "is_digit d" "char_of_byte (byte (a ! 2) AND NOT 1) = d"
      "(of_char d :: nat) = of_char (a ! 2) - of_char (a ! 2) mod 2"
    and e: "is_digit e" "char_of_byte (byte (b ! 2) AND NOT 1) = e"
      "(of_char e :: nat) = of_char (b ! 2) - of_char (b ! 2) mod 2"
    using masked_digit[of "a ! 2"] masked_digit[of "b ! 2"] assms by (auto simp: mti_digits_def)
  have four: "take 1 (drop 3 x) = [x ! 3]" if "length x = 4" for x :: string
  proof -
    obtain p q u v where "x = [p, q, u, v]"
      using \<open>length x = 4\<close> by (auto simp: length_Suc_conv numeral_eq_Suc)
    then show ?thesis by simp
  qed
  have "d = e \<longleftrightarrow> of_char (a ! 2) div 2 = (of_char (b ! 2) div 2 :: nat)"
  proof -
    have "d = e \<longleftrightarrow> of_char d = (of_char e :: nat)" by simp
    then show ?thesis unfolding d(3) e(3) by (simp add: minus_mod_eq_mult_div)
  qed
  moreover have "matchKey a r = Ok (take 2 a @ [d] @ [a ! 3] @ ''|'' @ r)"
    "matchKey b q = Ok (take 2 b @ [e] @ [b ! 3] @ ''|'' @ q)"
    using assms d(1,2) e(1,2) four[of a] four[of b] by (simp_all add: mti_digits_def matchKey_eval)
  moreover have "length (take 2 a) = length (take 2 b)" using assms by (simp add: mti_digits_def)
  ultimately show ?thesis by simp
qed

section \<open>Properties\<close>

text \<open>
  C35: The two ends of a connection agree on the framing: \<open>readLengthPrefixedMessage\<close> gets a message
  and leaves the rest of its input exactly when the input begins with the frame written for that
  message and the message has at most 65535 bytes; it never panics; and a frame is the length in
  two bytes, the high one first, before the message. So several frames are read back in order.
\<close>

theorem frames_read_back:
  "(readLengthPrefixedMessage conn = Ok (m, rest) \<longleftrightarrow> length m < 65536 \<and> conn = write_frame m @ rest)
   \<and> readLengthPrefixedMessage conn \<noteq> panic
   \<and> write_frame m = char_of (length m div 256 mod 256) # char_of (length m mod 256) # m"
proof -
  have "readLengthPrefixedMessage conn = Ok (m, rest) \<longleftrightarrow> read_frame () conn = Some (m, rest)"
    by (simp add: read_frame_def split: sum.split)
  also have "\<dots> \<longleftrightarrow> length m < 65536 \<and> conn = write_frame m @ rest"
    using frames.dec_iff[of "()" conn m rest] by (simp add: frame_fits_def)
  finally have "readLengthPrefixedMessage conn = Ok (m, rest) \<longleftrightarrow> length m < 65536 \<and> conn = write_frame m @ rest" .
  moreover have "readLengthPrefixedMessage conn \<noteq> panic"
    by (cases conn rule: read_cases) (auto simp: read_short read_PutUint16 ReadFull_def)
  moreover have "n mod 65536 = 256 * (n div 256 mod 256) + n mod 256" for n :: nat
    using mod_mult2_eq[of n 256 256] by simp
  then have "write_frame m = char_of (length m div 256 mod 256) # char_of (length m mod 256) # m"
    by (simp add: write_frame_def PutUint16_bytes uint16_unat)
  ultimately show ?thesis by blast
qed

theorem frames_read_back_witness:
  "readLengthPrefixedMessage (char_of (0 :: nat) # char_of (4 :: nat) # ''0800xyz'') = Ok (''0800'', ''xyz'')
   \<and> readLengthPrefixedMessage (write_frame ''0800'' @ write_frame ''0100abc'') = Ok (''0800'', write_frame ''0100abc'')"
  using frames_read_back[of _ "''0800''"] by simp

text \<open>
  A message of 65536 bytes or more does not fit its length prefix, which wraps: the reader
  takes the length modulo 65536 as the message and reads the rest of it as further frames.
\<close>

theorem long_message_splits:
  assumes "65536 \<le> length m"
  shows "\<exists>m' rest'. readLengthPrefixedMessage (write_frame m @ rest) = Ok (m', rest' @ rest)
           \<and> length m' < 65536 \<and> m = m' @ rest' \<and> rest' \<noteq> []"
proof -
  have lt: "length m mod 65536 < 65536" by simp
  with assms have "drop (length m mod 65536) m \<noteq> []" by simp
  then show ?thesis
    using lt by (intro exI [of _ "take (length m mod 65536) m"] exI [of _ "drop (length m mod 65536) m"])
      (simp add: write_frame_wraps)
qed

theorem long_message_splits_witness:
  "\<exists>m' rest'. readLengthPrefixedMessage (write_frame (replicate 65540 CHR ''0'') @ []) = Ok (m', rest' @ [])
     \<and> length m' < 65536 \<and> replicate 65540 CHR ''0'' = m' @ rest' \<and> rest' \<noteq> []"
  by (rule long_message_splits) simp

text \<open>
  The issuer client's reader never panics, and starts a reply exactly for the messages whose third
  MTI byte is an even digit, each a frame of its own length that differs from the message in that
  byte alone and has the request's match key. The list is in the order of reading: each reply is
  written by its own goroutine after a delay, in any order (\<open>issuer_exec\<close> in Issuer_Client).
\<close>

theorem client_answers_requests:
  "\<exists>ms rest. conn = concat (map write_frame ms) @ rest \<and> (\<forall>m \<in> set ms. length m < 65536)
     \<and> (\<exists>e. readLengthPrefixedMessage rest = fail e)
     \<and> client_loop conn = Ok (map (\<lambda>m. write_frame (reply_text m)) (filter answerable ms))
     \<and> (\<forall>m \<in> set (filter answerable ms). \<forall>ref. matchKey (take 4 (reply_text m)) ref = matchKey (take 4 m) ref)"
proof -
  obtain ms rest e where c: "conn = concat (map write_frame ms) @ rest"
    "\<forall>m \<in> set ms. length m < 65536" "readLengthPrefixedMessage rest = fail e"
    using input_frames[of conn] by blast
  with client_loop_frames[OF c(2,3)] reply_key show ?thesis
    by (intro exI [of _ ms] exI [of _ rest]) auto
qed



text \<open>
  For the message types the stress templates send, the client's answer is of a type the
  server accepts. For a repeat (0101) the server's own answer type, 0110, has a different key
  from the request, so an issuer that answers as this server does is never matched.
\<close>

theorem answer_types_match:
  "(\<forall>mti \<in> {''0100'', ''0120'', ''0200'', ''0220'', ''0420'', ''0800''}.
      \<exists>r. responseMTI mti = Ok (r, True) \<and> isResponseMTI r \<and> matchKey r ref = matchKey mti ref)
   \<and> matchKey (toResponseMTI ''0100'') ref = matchKey ''0100'' ref
   \<and> matchKey (toResponseMTI ''0101'') ref \<noteq> matchKey ''0101'' ref"
  by (simp add: responseMTI_eval answerable_def is_digit_def odd_digit_def isResponseMTI_def
      responseMTISet_def toResponseMTI_requests matchKey_eval byte_def char_of_byte_def char_of_def bit_0)

theorem answer_types_match_witness:
  "\<exists>r. responseMTI ''0420'' = Ok (r, True) \<and> isResponseMTI r \<and> matchKey r [] = matchKey ''0420'' []"
  using answer_types_match[of "[]"] by blast

end
