(* ===== verification/Utils.thy ===== *)
theory Utils
  imports Iso_Spec
begin

text \<open>
  \<open>utils/helper.go\<close> and \<open>utils/message_helper.go\<close>: references, substrings by code point, the
  test cards and the message templates. The JSON decoder's outcome is a \<open>json_file\<close>, as for
  the specification, and \<open>rand.Intn\<close> the parameter \<open>intn\<close>; \<open>Intn(0)\<close> panics.
\<close>

section \<open>References\<close>

text \<open>\<open>referenceCounter.Add(1)\<close> returns the new value.\<close>

definition GenerateTimestampID :: "int \<Rightarrow> string \<times> int" where
  "GenerateTimestampID referenceCounter =
     (let c = wrap64 (referenceCounter + 1) in (fmt_0d 12 (sgn c * (\<bar>c\<bar> mod 1000000000000)), c))"

definition reference_of :: "int \<Rightarrow> string" where
  "reference_of c = fmt_0d 12 (c mod 1000000000000)"

lemma GenerateTimestampID_eval:
  "0 \<le> c \<Longrightarrow> c < 2 ^ 63 - 1 \<Longrightarrow> GenerateTimestampID c = (reference_of (c + 1), c + 1)"
  by (simp add: GenerateTimestampID_def reference_of_def wrap64_small Let_def)

lemma length_reference: "length (reference_of c) = 12"
  by (simp add: reference_of_def length_fmt_0d)

lemma reference_inj:
  assumes "a \<le> b" "b < a + 10 ^ 12" "reference_of a = reference_of b"
  shows "a = b"
proof -
  have "a mod 1000000000000 = b mod 1000000000000"
    using assms(3) unfolding reference_of_def by (rule fmt_0d_inj[rotated -1]) simp_all
  then have "1000000000000 dvd b - a" by (simp add: mod_eq_dvd_iff dvd_minus_iff dvd_diff_commute)
  moreover have "0 \<le> b - a" "b - a < 1000000000000" using assms(1,2) by simp_all
  ultimately show ?thesis using zdvd_imp_le[of 1000000000000 "b - a"] by fastforce
qed

section \<open>Code points\<close>

text \<open>\<open>[]rune(s)\<close> decodes UTF-8; a byte that starts no valid sequence gives U+FFFD.
  \<open>string(runes)\<close> encodes, and an invalid code point becomes U+FFFD.\<close>

abbreviation cont :: "char \<Rightarrow> bool" where
  "cont c \<equiv> 128 \<le> (of_char c :: nat) \<and> (of_char c :: nat) < 192"

fun decode_rune :: "string \<Rightarrow> nat \<times> nat" where
  "decode_rune [] = (65533, 0)"
| "decode_rune (a # s) =
     (let x = of_char a :: nat; b = (\<lambda>i. of_char (s ! i) :: nat);
          two = 1 \<le> length s \<and> cont (s ! 0); three = 2 \<le> length s \<and> cont (s ! 0) \<and> cont (s ! 1);
          four = 3 \<le> length s \<and> cont (s ! 0) \<and> cont (s ! 1) \<and> cont (s ! 2) in
      if x < 128 then (x, 1)
      else if 194 \<le> x \<and> x < 224 \<and> two then ((x - 192) * 64 + (b 0 - 128), 2)
      else if 224 \<le> x \<and> x < 240 \<and> three \<and> (x = 224 \<longrightarrow> 160 \<le> b 0) \<and> (x = 237 \<longrightarrow> b 0 < 160)
        then ((x - 224) * 4096 + (b 0 - 128) * 64 + (b 1 - 128), 3)
      else if 240 \<le> x \<and> x < 245 \<and> four \<and> (x = 240 \<longrightarrow> 144 \<le> b 0) \<and> (x = 244 \<longrightarrow> b 0 < 144)
        then ((x - 240) * 262144 + (b 0 - 128) * 4096 + (b 1 - 128) * 64 + (b 2 - 128), 4)
      else (65533, 1))"

lemma decode_rune_width: "s \<noteq> [] \<Longrightarrow> 0 < snd (decode_rune s)"
  by (cases s) (simp_all add: Let_def)

function runes :: "string \<Rightarrow> nat list" where
  "runes s = (if s = [] then [] else fst (decode_rune s) # runes (drop (snd (decode_rune s)) s))"
  by pat_completeness auto
termination
  by (relation "measure length") (use decode_rune_width in \<open>auto simp: Let_def\<close>)

declare runes.simps [simp del]

definition encode_rune :: "nat \<Rightarrow> string" where
  "encode_rune r =
     (let r = (if 1114112 \<le> r \<or> 55296 \<le> r \<and> r < 57344 then 65533 else r) in
      if r < 128 then [char_of r]
      else if r < 2048 then [char_of (192 + r div 64), char_of (128 + r mod 64)]
      else if r < 65536 then [char_of (224 + r div 4096), char_of (128 + r div 64 mod 64), char_of (128 + r mod 64)]
      else [char_of (240 + r div 262144), char_of (128 + r div 4096 mod 64), char_of (128 + r div 64 mod 64),
            char_of (128 + r mod 64)])"

definition string_of_runes :: "nat list \<Rightarrow> string" where
  "string_of_runes rs = concat (map encode_rune rs)"

definition Substr :: "string \<Rightarrow> int \<Rightarrow> int \<Rightarrow> ('e, string) result" where
  "Substr input start len =
     (let asRunes = runes input in
      if int (length asRunes) \<le> start then Ok []
      else
        let len = (if int (length asRunes) < wrap64 (start + len) then wrap64 (int (length asRunes) - start) else len) in
        bindR (go_slice asRunes start (wrap64 (start + len))) (\<lambda>rs. Ok (string_of_runes rs)))"

definition ascii :: "string \<Rightarrow> bool" where
  "ascii s \<longleftrightarrow> (\<forall>c \<in> set s. (of_char c :: nat) < 128)"

lemma runes_ascii: "ascii s \<Longrightarrow> runes s = map of_char s"
proof (induction s)
  case Nil
  show ?case by (simp add: runes.simps)
next
  case (Cons c s)
  then show ?case by (subst runes.simps) (simp add: ascii_def Let_def)
qed

lemma runes_of_ascii: "ascii s \<Longrightarrow> string_of_runes (map of_char s) = s"
  by (induction s) (simp_all add: string_of_runes_def encode_rune_def ascii_def)

lemma ascii_parts: "ascii s \<Longrightarrow> ascii (take n (drop m s))"
  by (auto simp: ascii_def dest: in_set_takeD in_set_dropD)

lemma Substr_eval:
  assumes "0 \<le> start" "0 \<le> len" "start + len < 2 ^ 63"
  shows "Substr input start len = Ok (string_of_runes (take (nat len) (drop (nat start) (runes input))))"
proof -
  let ?n = "int (length (runes input))"
  have w: "wrap64 (start + len) = start + len" using assms by (intro wrap64_small) simp_all
  show ?thesis
  proof (cases "?n \<le> start \<or> start + len \<le> ?n")
    case True
    then show ?thesis using assms
      by (auto simp: Substr_def Let_def w go_slice_def string_of_runes_def)
  next
    case False
    then have l: "wrap64 (?n - start) = ?n - start" using assms by (intro wrap64_small) simp_all
    moreover have "wrap64 (start + (?n - start)) = ?n"
      using False assms by (intro trans[OF wrap64_small]) simp_all
    moreover have "take (nat len) (drop (nat start) (runes input)) = drop (nat start) (runes input)"
      using False by (intro take_all) auto
    ultimately show ?thesis
      using False assms by (simp add: Substr_def Let_def w go_slice_def)
  qed
qed

lemma Substr_ascii:
  assumes "ascii input" "0 \<le> start" "0 \<le> len" "start + len < 2 ^ 63"
  shows "Substr input start len = Ok (take (nat len) (drop (nat start) input))"
  using runes_of_ascii[OF ascii_parts[OF assms(1), of "nat len" "nat start"]]
  by (simp add: Substr_eval[OF assms(2-4)] runes_ascii[OF assms(1)] take_map drop_map)

section \<open>Test cards and templates\<close>

record Card =
  CardNumber :: string
  CVV2 :: string
  Track2Data :: string
  ExpiryDate :: string

record IsoMsgTemplate =
  tmpl_message :: string
  tmpl_original :: string

text \<open>The file a path names, and what loading it leaves in the package variable. A failed decode
  may have filled part of the list.\<close>

definition data_file :: "string \<Rightarrow> string \<Rightarrow> string" where
  "data_file path name = (if has_suffix path ''.json'' then path else path @ name)"

definition LoadCards :: "(string \<Rightarrow> Card list json_file) \<Rightarrow> string \<Rightarrow> (string, Card list) result" where
  "LoadCards files dataPath =
     (let filePath = data_file dataPath ''test_cards.json'' in
      case files filePath of
        OpenFailed e \<Rightarrow> fail e
      | DecodeFailed e \<Rightarrow> fail e
      | Decoded cards \<Rightarrow> if cards = [] then fail (''no cards found in '' @ filePath) else Ok cards)"

definition LoadTemplates :: "(string \<Rightarrow> IsoMsgTemplate list json_file) \<Rightarrow> string \<Rightarrow> (string, IsoMsgTemplate list) result" where
  "LoadTemplates files templatePath =
     (case files (data_file templatePath ''template_messages.json'') of
        OpenFailed e \<Rightarrow> fail e
      | DecodeFailed e \<Rightarrow> fail e
      | Decoded templates \<Rightarrow> Ok templates)"

definition pick :: "(int \<Rightarrow> int) \<Rightarrow> 'a list \<Rightarrow> ('e, 'a) result" where
  "pick intn xs = (if xs = [] then panic else at_index xs (intn (int (length xs))))"

definition GetRandomCard :: "(int \<Rightarrow> int) \<Rightarrow> Card list \<Rightarrow> ('e, Card) result" where
  "GetRandomCard intn cards = pick intn cards"

definition RandomTemplate :: "(int \<Rightarrow> int) \<Rightarrow> IsoMsgTemplate list \<Rightarrow> ('e, IsoMsgTemplate) result" where
  "RandomTemplate intn templates = pick intn templates"

section \<open>Properties\<close>

fun ids :: "nat \<Rightarrow> int \<Rightarrow> string list" where
  "ids 0 c = []"
| "ids (Suc n) c = (let (r, c') = GenerateTimestampID c in r # ids n c')"

lemma ids_eval:
  "0 \<le> c \<Longrightarrow> c + int n < 2 ^ 63 \<Longrightarrow> ids n c = map (\<lambda>i. reference_of (c + int i)) [1..<Suc n]"
proof (induction n arbitrary: c)
  case (Suc n)
  have "[1..<Suc (Suc n)] = 1 # map Suc [1..<Suc n]"
    by (simp add: map_Suc_upt upt_conv_Cons)
  with Suc show ?case by (simp add: GenerateTimestampID_eval comp_def algebra_simps)
qed simp

text \<open>
  C19: Up to \<open>10^12\<close> references handed out in a row are different, and each has the twelve
  characters field 37 needs.
\<close>

theorem references_unique:
  assumes "0 \<le> c" "c + int n < 2 ^ 63" "n \<le> 10 ^ 12"
  shows "distinct (ids n c) \<and> (\<forall>r \<in> set (ids n c). length r = 12)"
proof -
  have "inj_on (\<lambda>i. reference_of (c + int i)) (set [1..<Suc n])"
  proof (rule inj_onI)
    fix i j
    assume ij: "i \<in> set [1..<Suc n]" "j \<in> set [1..<Suc n]" "reference_of (c + int i) = reference_of (c + int j)"
    have "i \<le> n" "j \<le> n" "1 \<le> i" "1 \<le> j" using ij by auto
    with assms(3) show "i = j"
      using reference_inj[of "c + int i" "c + int j"] reference_inj[of "c + int j" "c + int i"] ij(3)
      by (cases "i \<le> j") auto
  qed
  then show ?thesis
    unfolding ids_eval[OF assms(1,2)] by (auto simp: distinct_map length_reference)
qed

theorem references_unique_witness: "distinct (ids 3 999999999999)"
  using references_unique[of 999999999999 3] by simp

text \<open>
  \<open>Substr\<close> cuts by code point and never panics on the non-negative positions the program
  gives it; on ASCII text it is the byte substring, clipped at the end.
\<close>

theorem substr_of_ascii:
  assumes "0 \<le> start" "0 \<le> len" "start + len < 2 ^ 63"
  shows "(\<exists>v. (Substr input start len :: (string, string) result) = Ok v)
         \<and> (ascii input \<longrightarrow> (Substr input start len :: (string, string) result)
                = Ok (take (nat len) (drop (nat start) input)))"
  using Substr_eval[OF assms] Substr_ascii[OF _ assms] by blast

theorem substr_of_ascii_witness: "Substr ''CV051 949'' 2 2 = (Ok ''05'' :: (string, string) result)"
  using substr_of_ascii[of 2 2 "''CV051 949''"] by (simp add: ascii_def)

text \<open>
  After \<open>LoadCards\<close> succeeds a card can always be drawn; \<open>LoadTemplates\<close> accepts an empty
  list, and drawing from it panics.
\<close>

theorem drawing_after_loading:
  "(LoadCards cfiles p = Ok cards \<and> (\<forall>n > 0. 0 \<le> intn n \<and> intn n < n) \<longrightarrow>
       (\<exists>c \<in> set cards. (GetRandomCard intn cards :: (string, Card) result) = Ok c))
   \<and> (tfiles (data_file p ''template_messages.json'') = Decoded [] \<longrightarrow>
       LoadTemplates tfiles p = Ok [] \<and> (RandomTemplate intn [] :: (string, IsoMsgTemplate) result) = panic)"
proof -
  have "\<exists>c \<in> set cards. at_index cards (intn (int (length cards))) = (Ok c :: (string, Card) result)"
    if "cards \<noteq> []" "\<forall>n > 0. 0 \<le> intn n \<and> intn n < n" for cards :: "Card list"
    using that by (auto simp: at_index_def nat_less_iff)
  then show ?thesis
    by (auto simp: LoadCards_def LoadTemplates_def GetRandomCard_def RandomTemplate_def pick_def Let_def
        split: json_file.splits if_splits)
qed

theorem drawing_after_loading_witness:
  "LoadTemplates (\<lambda>_. Decoded []) ''data/'' = Ok []
   \<and> (RandomTemplate (\<lambda>n. 0) [] :: (string, IsoMsgTemplate) result) = panic"
  using drawing_after_loading[where tfiles = "\<lambda>_. Decoded []"] by blast

end
