(* ===== verification/Stress_Message.thy ===== *)
theory Stress_Message
  imports Utils Response Database
begin

text \<open>
  The messages a test sends: \<open>sendSingleMessage\<close>'s \<open>getIsoMessage\<close> and \<open>newRequestLog\<close> of
  \<open>network/server/iso_server.go\<close>, and the refund message of \<open>sendRefund\<close> in \<open>refund.go\<close>. What
  they do to the connection is in \<open>Connection\<close>.
\<close>

section \<open>A template with the card and the reference filled in\<close>

definition set_present :: "int \<Rightarrow> string \<Rightarrow> Iso8583Message \<Rightarrow> Iso8583Message" where
  "set_present i v m = (if GetField m i \<noteq> [] then SetField m i v else m)"

definition rewrite_cvv :: "Card \<Rightarrow> string \<Rightarrow> (iso_error, string option) result" where
  "rewrite_cvv cd de123 =
     (let ind = str_index de123 ''CV'' in
      if - 1 < ind then
        bindR (Substr de123 (ind + 2) 2) (\<lambda>lenStr.
        bindR (Substr de123 0 ind) (\<lambda>front.
        Ok (Some (front @
          (if lenStr = ''05'' then ''CV051 '' @ CVV2 cd
           else if lenStr = ''07'' then ''CV0711 '' @ CVV2 cd @ ''M''
           else []))))) 
      else Ok None)"

definition getIsoMessage :: "Card \<Rightarrow> string \<Rightarrow> IsoSpec \<Rightarrow> string \<Rightarrow> (iso_error, Iso8583Message) result" where
  "getIsoMessage cd reference specRef msg =
     bindR (NewIso8583Message msg specRef) (\<lambda>m.
       let m = set_present 1 (CardNumber cd) m;
           m = set_present 13 (ExpiryDate cd) m;
           m = set_present 34 (Track2Data cd) m in
       bindR (if GetField m 122 \<noteq> [] then
                bindR (rewrite_cvv cd (GetField m 122)) (\<lambda>v.
                  Ok (case v of None \<Rightarrow> m | Some s \<Rightarrow> SetField m 122 s))
              else Ok m)
         (\<lambda>m. Ok (SetField m 36 reference)))"

text \<open>The message to send now and, for a template with an original, the follow-up.\<close>

definition template_messages ::
    "Card \<Rightarrow> string \<Rightarrow> IsoSpec \<Rightarrow> IsoMsgTemplate \<Rightarrow> (iso_error, Iso8583Message \<times> Iso8583Message option) result" where
  "template_messages cd reference specRef t =
     (if tmpl_original t \<noteq> [] then
        bindR (getIsoMessage cd reference specRef (tmpl_original t)) (\<lambda>m.
        bindR (getIsoMessage cd reference specRef (tmpl_message t)) (\<lambda>f.
        Ok (m, Some f)))
      else
        bindR (getIsoMessage cd reference specRef (tmpl_message t)) (\<lambda>m.
        Ok (m, None)))"

definition newRequestLog :: "int \<Rightarrow> string \<Rightarrow> string \<Rightarrow> int \<Rightarrow> Iso8583Message \<Rightarrow> (iso_error, RequestLog) result" where
  "newRequestLog stressTestID reference connectionID now msg =
     bindR (GetMTI msg) (\<lambda>mti.
     bindR (FormatIso msg) (\<lambda>raw.
     Ok \<lparr>rl_reference = reference, rl_connection_id = connectionID, rl_mti = mti, rl_request_time = now,
         rl_stresstest_id = stressTestID, rl_processing_code = GetField msg 2, rl_pan = GetField msg 1,
         rl_amount = GetField msg 3, rl_currency = GetField msg 48, rl_request_message = raw,
         rl_original_log_id = 0\<rparr>))"

section \<open>A logged sale as a refund\<close>

definition refund_message ::
    "string \<Rightarrow> clock \<Rightarrow> string \<Rightarrow> IsoSpec \<Rightarrow> (iso_error, Iso8583Message) result" where
  "refund_message reference now original specRef =
     bindR (NewIso8583Message original specRef) (\<lambda>refund.
     bindR (go_slice (GetField refund 2) 2 (int (length (GetField refund 2)))) (\<lambda>code.
     let refund = SetField refund 2 (''20'' @ code);
         refund = set_present 6 (format_mdhms now) refund in
     bindR (if GetField refund 10 \<noteq> []
            then bindR (go_slice reference 6 (int (length reference))) (\<lambda>stan. Ok (SetField refund 10 stan))
            else Ok refund) (\<lambda>refund.
     Ok (SetField refund 36 reference))))"

section \<open>Well-formed templates give well-formed messages\<close>

definition card_fits :: "IsoSpec \<Rightarrow> Card \<Rightarrow> bool" where
  "card_fits spec cd \<longleftrightarrow> value_ok spec 1 (CardNumber cd) \<and> value_ok spec 13 (ExpiryDate cd)
     \<and> value_ok spec 34 (Track2Data cd) \<and> length (CVV2 cd) \<le> 10"

lemma present_key: "wf_msg m \<Longrightarrow> GetField m i \<noteq> [] \<Longrightarrow> i \<in> set (keys_of m)"
  using wf_msgD(3)[of m i] by (auto simp: GetField_def split: option.splits)

text \<open>\<open>updates m m'\<close>: \<open>m'\<close> is well-formed and has the bitmaps, text and specification of \<open>m\<close>.\<close>

definition updates :: "Iso8583Message \<Rightarrow> Iso8583Message \<Rightarrow> bool" where
  "updates m m' \<longleftrightarrow> wf_msg m' \<and> keys_of m' = keys_of m \<and> message m' = message m \<and> isoSpec m' = isoSpec m"

lemma value_ok_length: "length v = length w \<Longrightarrow> value_ok spec i v = value_ok spec i w"
  unfolding value_ok_def by (elim ssubst) (rule refl)

lemma updates_refl: "wf_msg m \<Longrightarrow> updates m m"
  by (simp add: updates_def)

lemma updates_set:
  assumes "updates m m'" "i \<in> set (keys_of m)" "value_ok (isoSpec m) i v"
  shows "updates m (SetField m' i v)"
  using assms wf_set_present[of m' i v] by (simp add: updates_def)

lemma updates_set_present:
  assumes "updates m m'" "value_ok (isoSpec m) i v"
  shows "updates m (set_present i v m')"
  using assms updates_set[of m m' i v] present_key[of m' i] by (auto simp: set_present_def updates_def)

lemma set_present_other: "j \<noteq> i \<Longrightarrow> GetField (set_present i v m) j = GetField m j"
  by (simp add: set_present_def)

lemma rewrite_cvv_ok:
  assumes "int (length s) < 2 ^ 62"
  shows "\<exists>v. rewrite_cvv cd s = Ok v"
proof -
  have "- 1 < str_index s ''CV'' \<Longrightarrow> str_index s ''CV'' + 2 \<le> int (length s)"
    using str_index_bound[of s "''CV''"] by simp
  with assms show ?thesis
    by (auto simp: rewrite_cvv_def Let_def Substr_eval)
qed

lemma rewrite_cvv_length:
  assumes "ascii s" "length s \<le> 900" "length (CVV2 cd) \<le> 10" "rewrite_cvv cd s = Ok (Some t)"
  shows "length t < 1000"
proof -
  let ?i = "str_index s ''CV''"
  have i: "- 1 < ?i" "?i + 2 \<le> int (length s)"
    using str_index_bound[of s "''CV''"] assms(4) by (auto simp: rewrite_cvv_def Let_def split: if_splits)
  then have "(Substr s 0 ?i :: (iso_error, string) result) = Ok (take (nat ?i) s)"
    using assms(1,2) Substr_ascii[of s 0 ?i] by simp
  moreover have "\<exists>l. (Substr s (?i + 2) 2 :: (iso_error, string) result) = Ok l"
    using i assms(2) by (simp add: Substr_eval)
  ultimately show ?thesis
    using assms(2-4) i(1) by (auto simp: rewrite_cvv_def Let_def split: if_splits)
qed

text \<open>The fields of the message: the card's where the template has them, with the value of the
  \<open>CV\<close> tag in field 123 replaced according to its two length digits and what follows it cut off,
  the reference, and the template's own.\<close>

definition card_field123 :: "Card \<Rightarrow> string \<Rightarrow> string" where
  "card_field123 cd s =
     (let i = str_index s ''CV'' in
      if i = -1 then s
      else take (nat i) s
           @ (if take 2 (drop (nat i + 2) s) = ''05'' then ''CV051 '' @ CVV2 cd
              else if take 2 (drop (nat i + 2) s) = ''07'' then ''CV0711 '' @ CVV2 cd @ ''M'' else []))"

definition stress_field :: "Card \<Rightarrow> string \<Rightarrow> Iso8583Message \<Rightarrow> int \<Rightarrow> string" where
  "stress_field cd reference m j =
     (if j = 36 then reference
      else if GetField m j = [] then []
      else if j = 1 then CardNumber cd else if j = 13 then ExpiryDate cd else if j = 34 then Track2Data cd
      else if j = 122 then card_field123 cd (GetField m 122) else GetField m j)"

lemma rewrite_cvv_ascii:
  assumes "ascii s" "length s \<le> 900"
  shows "rewrite_cvv cd s = Ok (if str_index s ''CV'' = -1 then None else Some (card_field123 cd s))"
proof (cases "str_index s ''CV'' = -1")
  case False
  then have i: "0 \<le> str_index s ''CV''" "str_index s ''CV'' + 2 \<le> int (length s)"
    using str_index_lower[of s "''CV''"] str_index_bound[of s "''CV''"] by simp_all
  then have "(Substr s 0 (str_index s ''CV'') :: (iso_error, string) result) = Ok (take (nat (str_index s ''CV'')) s)"
    "(Substr s (str_index s ''CV'' + 2) 2 :: (iso_error, string) result) = Ok (take 2 (drop (nat (str_index s ''CV'') + 2) s))"
    using assms Substr_ascii[of s 0 "str_index s ''CV''"] Substr_ascii[of s "str_index s ''CV'' + 2" 2]
    by (simp_all add: nat_add_distrib)
  with False i show ?thesis by (simp add: rewrite_cvv_def card_field123_def Let_def)
qed (simp add: rewrite_cvv_def)

lemma getIsoMessage_updates:
  assumes "NewIso8583Message msg spec = Ok m" "wf_msg m" "isoSpec m = spec"
    and "card_fits spec cd" "issuer_spec spec" "value_ok spec 36 reference"
    and "ascii (GetField m 122)" "length (GetField m 122) \<le> 900"
  shows "\<exists>r. getIsoMessage cd reference spec msg = Ok (SetField r 36 reference) \<and> updates m r
           \<and> (\<forall>j. j \<noteq> 36 \<longrightarrow> GetField r j = stress_field cd reference m j)"
proof -
  let ?m = "set_present 34 (Track2Data cd) (set_present 13 (ExpiryDate cd) (set_present 1 (CardNumber cd) m))"
  have u: "updates m ?m"
    using assms(2-4) by (intro updates_set_present updates_refl) (simp_all add: card_fits_def)
  have f: "GetField ?m 122 = GetField m 122" by (simp add: set_present_other)
  have g: "GetField ?m j = stress_field cd reference m j" if "j \<noteq> 36" "j \<noteq> 122" for j
    using that by (auto simp: stress_field_def set_present_def)
  show ?thesis
  proof (cases "GetField m 122 = []")
    case True
    then have "GetField ?m j = stress_field cd reference m j" if "j \<noteq> 36" for j
      using that f g[of j] by (cases "j = 122") (simp_all add: stress_field_def)
    with True u f assms(1) show ?thesis by (intro exI [of _ ?m]) (simp add: getIsoMessage_def Let_def)
  next
    case False
    then have k: "122 \<in> set (keys_of m)" using assms(2) by (intro present_key)
    let ?c = "card_field123 cd (GetField m 122)"
    let ?r = "if str_index (GetField m 122) ''CV'' = -1 then ?m else SetField ?m 122 ?c"
    note v = rewrite_cvv_ascii[OF assms(7,8), of cd]
    have "updates m ?r"
    proof (cases "str_index (GetField m 122) ''CV'' = -1")
      case no: False
      then have "length ?c < 1000" using v rewrite_cvv_length[OF assms(7,8), of cd ?c] assms(4) by (simp add: card_fits_def)
      with no u k assms(3,5) show ?thesis by (simp add: updates_set issuer_values)
    qed (simp add: u)
    moreover have "GetField ?r j = stress_field cd reference m j" if "j \<noteq> 36" for j
    proof (cases "j = 122")
      case True
      with f False show ?thesis by (simp add: stress_field_def card_field123_def)
    qed (use that g[of j] in simp)
    moreover have "getIsoMessage cd reference spec msg = Ok (SetField ?r 36 reference)"
      using False f v assms(1) by (simp add: getIsoMessage_def Let_def)
    ultimately show ?thesis by blast
  qed
qed

lemma newRequestLog_ok:
  assumes "wf_msg m"
  shows "newRequestLog tid reference conn now m = Ok
    \<lparr>rl_reference = reference, rl_connection_id = conn, rl_mti = take 4 (message m), rl_request_time = now,
     rl_stresstest_id = tid, rl_processing_code = GetField m 2, rl_pan = GetField m 1,
     rl_amount = GetField m 3, rl_currency = GetField m 48, rl_request_message = wire m, rl_original_log_id = 0\<rparr>"
  using wf_msgD(1)[OF assms]
  by (simp add: newRequestLog_def GetMTI_def go_slice_def FormatIso_wire[OF assms])

lemma refund_message_ok:
  assumes "wf_msg m" "sane_lengths (isoSpec m)" "short (wire m)" "2 \<le> length (GetField m 2)"
    and "value_ok (isoSpec m) 6 (format_mdhms now)" "value_ok (isoSpec m) 10 (drop 6 reference)"
    and "value_ok (isoSpec m) 36 reference" "36 \<in> set (keys_of m)" "length reference = 12"
  shows "\<exists>r. refund_message reference now (wire m) (isoSpec m) = Ok r \<and> wf_msg r
           \<and> GetField r 2 = ''20'' @ drop 2 (GetField m 2) \<and> GetField r 36 = reference
           \<and> GetField r 6 = (if GetField m 6 = [] then [] else format_mdhms now)
           \<and> GetField r 10 = (if GetField m 10 = [] then [] else drop 6 reference)
           \<and> (\<forall>j. j \<notin> {2, 6, 10, 36} \<longrightarrow> GetField r j = GetField m j)
           \<and> take 4 (message r) = take 4 (message m)"
proof -
  let ?m = "m\<lparr>message := wire m\<rparr>" and ?code = "''20'' @ drop 2 (GetField m 2)"
  have p: "NewIso8583Message (wire m) (isoSpec m) = Ok ?m"
    using parse_wire[OF assms(1,2), of "[]"] assms(3) by simp
  have wf: "wf_msg ?m" using wf_wire_message[OF assms(1), of "[]"] by simp
  have "2 \<in> set (keys_of m)" using assms(1,4) by (intro present_key) auto
  moreover have "value_ok (isoSpec m) 2 ?code"
  proof -
    have "value_ok (isoSpec m) 2 (GetField m 2)"
      using wf_msgD(4)[OF assms(1), of 2] assms(4) by (auto simp: GetField_def split: option.splits)
    moreover have "length ?code = length (GetField m 2)" using assms(4) by simp
    ultimately show ?thesis using value_ok_length by metis
  qed
  ultimately have u: "updates ?m (SetField ?m 2 ?code)"
    using wf by (intro updates_set updates_refl) simp_all
  let ?r1 = "set_present 6 (format_mdhms now) (SetField ?m 2 ?code)"
  have u1: "updates ?m ?r1" using updates_set_present[OF u] assms(5) by simp
  let ?r2 = "set_present 10 (drop 6 reference) ?r1"
  have u2: "updates ?m ?r2" using updates_set_present[OF u1] assms(6) by simp
  have u3: "updates ?m (SetField ?r2 36 reference)"
    using u2 assms(7,8) by (intro updates_set) simp_all
  have "refund_message reference now (wire m) (isoSpec m) = Ok (SetField ?r2 36 reference)"
    using assms(4,9) p
    by (simp add: refund_message_def go_slice_def set_present_def Let_def)
  moreover have "take 4 (wire m) = take 4 (message m)" using take_4_wire[OF assms(1)] .
  ultimately show ?thesis
    using u3 by (intro exI [of _ "SetField ?r2 36 reference"]) (simp add: updates_def set_present_def)
qed

section \<open>A sample sale under the shipped specification\<close>

definition sale_text :: string where
  "sale_text = ''02007220000008000000164111111111111111000000000000010000031412000012345600000000000A''"

definition sale_bits :: BitSet where "sale_bits = \<lparr>data = 0x7220000008000000\<rparr>"

definition sale_values :: "string list" where
  "sale_values = [''4111111111111111'', ''000000'', ''000000010000'', ''0314120000'', ''123456'', ''00000000000A'']"

definition sale_msg :: Iso8583Message where
  "sale_msg = built bundled_spec sale_text sale_bits None sale_values"

lemma sale_keys: "field_keys sale_bits None = [1, 2, 3, 6, 10, 36]"
  by (simp add: field_keys_def present_def has_bit_def sale_bits_def upto.simps)

lemma sale_defs:
  "FieldDefMap bundled_spec 2 = Some (field_def (2, ''LLVar'', 1, 19))"
  "FieldDefMap bundled_spec 3 = Some (field_def (3, ''Fixed'', 6, 6))"
  "FieldDefMap bundled_spec 4 = Some (field_def (4, ''Fixed'', 12, 12))"
  "FieldDefMap bundled_spec 7 = Some (field_def (7, ''Fixed'', 10, 10))"
  "FieldDefMap bundled_spec 11 = Some (field_def (11, ''Fixed'', 6, 6))"
  "FieldDefMap bundled_spec 14 = Some (field_def (14, ''Fixed'', 4, 4))"
  "FieldDefMap bundled_spec 35 = Some (field_def (35, ''LLVar'', 1, 37))"
  "FieldDefMap bundled_spec 37 = Some (field_def (37, ''Fixed'', 12, 12))"
  by (subst bundled_lookup; simp add: bundled_rows_def)+

lemma sale_decodes:
  "decode_message bundled_spec sale_text = Some ((''0200'', sale_bits, None, sale_values), [])"
proof -
  have h: "SetString new_BitSet ''7220000008000000'' 16 = Inr sale_bits"
    by (simp add: SetString_def ParseUint_def char_val_def new_BitSet_def sale_bits_def)
  have b: "\<not> has_bit sale_bits 0" by (simp add: has_bit_def sale_bits_def)
  show ?thesis
    by (simp add: decode_message_def take_str_def sale_text_def h b sale_keys decode_secondary_def
        decode_field_def decode_var_def sale_defs field_def_def sale_values_def eval_simps)
qed

lemma sale_wf: "wf_msg sale_msg"
  unfolding sale_msg_def by (rule built_wf[OF sale_decodes])

lemma sale_short: "short sale_text" by (simp add: short_def sale_text_def)

lemma sale_parses: "NewIso8583Message sale_text bundled_spec = Ok sale_msg"
  using NewIso8583Message_refines[OF sale_short bundled_sane] by (simp add: sale_decodes sale_msg_def)

lemma sale_simps:
  "isoSpec sale_msg = bundled_spec" "message sale_msg = sale_text" "keys_of sale_msg = [1, 2, 3, 6, 10, 36]"
  "msg_fields sale_msg = [1 \<mapsto> ''4111111111111111'', 2 \<mapsto> ''000000'', 3 \<mapsto> ''000000010000'',
     6 \<mapsto> ''0314120000'', 10 \<mapsto> ''123456'', 36 \<mapsto> ''00000000000A'']"
  by (simp_all add: sale_msg_def built_def sale_keys sale_values_def)

lemma sale_wire_short: "short (wire sale_msg)"
  using decode_message_length[OF sale_decodes] sale_short by (simp add: short_def sale_msg_def)

definition test_card :: Card where
  "test_card = \<lparr>CardNumber = ''5555555555554444'', CVV2 = ''949'', Track2Data = ''5555555555554444D2812'',
     ExpiryDate = ''2812''\<rparr>"

lemma test_card_fits: "card_fits bundled_spec test_card"
  by (simp add: card_fits_def value_ok_def sale_defs field_def_def test_card_def)

section \<open>Properties\<close>

text \<open>
  C28: From a template the parser accepts, a card whose data fit the specification and a fresh
  reference, \<open>getIsoMessage\<close> makes a message with the fields \<open>stress_field\<close> says: the card's
  number, expiry date and track 2 where the template has fields 2, 14 and 35, the card's CVV2 in
  field 123 up to the \<open>CV\<close> tag, the reference in field 37, and the template's own fields otherwise,
  provided field 123 is ASCII of at most 900 bytes. It is well-formed, so that it can be printed
  and read back, exactly when the template's bitmap announces field 37: the reference is
  written with \<open>SetField\<close> alone.
\<close>

theorem stress_message_built:
  assumes "NewIso8583Message text spec = Ok m" "short text" "sane_lengths spec" "issuer_spec spec"
    and "card_fits spec cd" "value_ok spec 36 reference"
    and "ascii (GetField m 122)" "length (GetField m 122) \<le> 900"
  shows "\<exists>r. getIsoMessage cd reference spec text = Ok r
           \<and> (\<forall>j. GetField r j = stress_field cd reference m j)
           \<and> (wf_msg r \<longleftrightarrow> 36 \<in> set (keys_of m))"
proof -
  note p = parsed_wf[OF assms(2,3,1)]
  obtain r where r: "getIsoMessage cd reference spec text = Ok (SetField r 36 reference)" "updates m r"
    "\<forall>j. j \<noteq> 36 \<longrightarrow> GetField r j = stress_field cd reference m j"
    using getIsoMessage_updates[OF assms(1) p(1,3) assms(5,4,6-8)] by blast
  have "wf_msg (SetField r 36 reference) \<longleftrightarrow> 36 \<in> set (keys_of m)"
    using r(2) updates_set[OF r(2)] set_unmarked_not_wf[of 36 r reference] assms(6) p(3)
    by (auto simp: updates_def)
  with r show ?thesis by (intro exI [of _ "SetField r 36 reference"]) (simp add: stress_field_def)
qed

theorem stress_message_built_witness:
  "\<exists>r. getIsoMessage test_card ''000000000123'' bundled_spec sale_text = Ok r
     \<and> GetField r 36 = ''000000000123'' \<and> GetField r 1 = ''5555555555554444'' \<and> GetField r 3 = ''000000010000'' \<and> wf_msg r"
proof -
  have "value_ok bundled_spec 36 ''000000000123''" by (simp add: value_ok_def sale_defs field_def_def)
  from stress_message_built[OF sale_parses sale_short bundled_sane bundled_issuer test_card_fits this]
  obtain r where "getIsoMessage test_card ''000000000123'' bundled_spec sale_text = Ok r"
    "\<forall>j. GetField r j = stress_field test_card ''000000000123'' sale_msg j" "wf_msg r \<longleftrightarrow> 36 \<in> set (keys_of sale_msg)"
    by (auto simp: sale_simps GetField_def ascii_def)
  then show ?thesis
    by (intro exI [of _ r]) (simp add: stress_field_def sale_simps GetField_def test_card_def)
qed

lemma card_field123_examples:
  "card_field123 test_card ''AV01XCV051 123rest'' = ''AV01XCV051 949''"
  "card_field123 test_card ''CV0711 123Mrest'' = ''CV0711 949M''" "card_field123 test_card ''AV01XCV06rest'' = ''AV01X''"
  by (simp_all add: card_field123_def test_card_def str_index.simps Let_def)

text \<open>
  C27: Replaying a logged sale never panics and keeps the sale: from the message text its log row
  holds, the refund is a well-formed message of the same type with processing code 20xxxx, the
  new reference, the present time in field 7 and the last six characters of the reference as
  trace number in field 11, each where the sale has that field, and every other field of the
  sale. The sale announces field 37 and its processing code begins with 00, as the candidate
  query asks.
\<close>

theorem refund_replays_sale:
  assumes "wf_msg m" "sane_lengths (isoSpec m)" "short (wire m)" "36 \<in> set (keys_of m)"
    and "newRequestLog tid ref conn t m = Ok entry" "take 2 (rl_processing_code entry) = ''00''"
    and "value_ok (isoSpec m) 6 (format_mdhms now)" "value_ok (isoSpec m) 10 (drop 6 reference)"
    and "value_ok (isoSpec m) 36 reference" "length reference = 12"
  shows "\<exists>r. refund_message reference now (rl_request_message entry) (isoSpec m) = Ok r \<and> wf_msg r
           \<and> GetMTI r = GetMTI m
           \<and> GetField r 2 = ''20'' @ drop 2 (GetField m 2) \<and> GetField r 36 = reference
           \<and> GetField r 6 = (if GetField m 6 = [] then [] else format_mdhms now)
           \<and> GetField r 10 = (if GetField m 10 = [] then [] else drop 6 reference)
           \<and> (\<forall>j. j \<notin> {2, 6, 10, 36} \<longrightarrow> GetField r j = GetField m j)"
proof -
  have e: "rl_request_message entry = wire m" "rl_processing_code entry = GetField m 2"
    using assms(5) by (auto simp: newRequestLog_ok[OF assms(1)])
  have "2 \<le> length (GetField m 2)"
  proof (rule ccontr)
    assume "\<not> 2 \<le> length (GetField m 2)"
    then have "length (take 2 (GetField m 2)) < 2" by simp
    then show False using assms(6) by (simp add: e(2))
  qed
  from refund_message_ok[OF assms(1-3) this assms(7-9,4,10)] obtain r where
    r: "refund_message reference now (wire m) (isoSpec m) = Ok r" "wf_msg r"
      "GetField r 2 = ''20'' @ drop 2 (GetField m 2)" "GetField r 36 = reference"
      "GetField r 6 = (if GetField m 6 = [] then [] else format_mdhms now)"
      "GetField r 10 = (if GetField m 10 = [] then [] else drop 6 reference)"
      "\<forall>j. j \<notin> {2, 6, 10, 36} \<longrightarrow> GetField r j = GetField m j" "take 4 (message r) = take 4 (message m)"
    by blast
  have "GetMTI r = GetMTI m"
    using wf_msgD(1)[OF r(2)] wf_msgD(1)[OF assms(1)] r(8) by (simp add: GetMTI_def go_slice_def)
  with r e show ?thesis by auto
qed

theorem refund_replays_sale_witness:
  "\<exists>r. refund_message ''000000000456'' \<lparr>ck_month = 3, ck_day = 14, ck_hour = 12, ck_minute = 0, ck_second = 0\<rparr>
         (wire sale_msg) bundled_spec = Ok r
     \<and> GetField r 2 = ''200000'' \<and> GetField r 36 = ''000000000456'' \<and> GetField r 10 = ''000456''
     \<and> GetField r 6 = format_mdhms \<lparr>ck_month = 3, ck_day = 14, ck_hour = 12, ck_minute = 0, ck_second = 0\<rparr>"
proof -
  let ?t = "\<lparr>ck_month = 3, ck_day = 14, ck_hour = 12, ck_minute = 0, ck_second = 0\<rparr>"
  have "length (format_mdhms ?t) = 10"
    by (rule length_format_mdhms) (simp add: valid_clock_def)
  then show ?thesis
    using refund_replays_sale[OF sale_wf _ sale_wire_short _ newRequestLog_ok[OF sale_wf, of 1 "''x''" "''c''" 0],
        of ?t "''000000000456''"]
    by (auto simp: sale_simps bundled_sane value_ok_def sale_defs field_def_def GetField_def)
qed

end
