(* ===== verification/Steps.thy ===== *)
theory Steps
  imports Prelude "HOL-Library.Multiset"
begin

text \<open>
  Goroutines as interleaved atomic steps. A component's state holds everything its goroutines
  share and where each of them is; a label says which goroutine moves, and how a \<open>select\<close> with
  several ready cases chooses. \<open>exec l s\<close> is the next state, or \<open>None\<close> when the label is not
  enabled in \<open>s\<close> (the goroutine blocks, or is elsewhere), so a schedule is a list of labels that
  runs by evaluation, and what holds after every schedule holds under every scheduler.
\<close>

section \<open>Schedules and reachable states\<close>

fun run :: "('l \<Rightarrow> 's \<Rightarrow> 's option) \<Rightarrow> 'l list \<Rightarrow> 's \<Rightarrow> 's option" where
  "run exec [] s = Some s"
| "run exec (l # ls) s = (case exec l s of None \<Rightarrow> None | Some s' \<Rightarrow> run exec ls s')"

lemma run_append:
  "run exec (ks @ ls) s = (case run exec ks s of None \<Rightarrow> None | Some s' \<Rightarrow> run exec ls s')"
  by (induction ks arbitrary: s) (auto split: option.splits)

text \<open>What no step undoes, no schedule undoes.\<close>

lemma run_preserves:
  assumes "\<And>l s s'. P s \<Longrightarrow> exec l s = Some s' \<Longrightarrow> P s'"
  shows "P s \<Longrightarrow> run exec ls s = Some s' \<Longrightarrow> P s'"
  by (induction ls arbitrary: s) (auto split: option.splits dest: assms)

inductive reachable :: "('l \<Rightarrow> 's \<Rightarrow> 's option) \<Rightarrow> ('s \<Rightarrow> bool) \<Rightarrow> 's \<Rightarrow> bool"
  for exec :: "'l \<Rightarrow> 's \<Rightarrow> 's option" and start :: "'s \<Rightarrow> bool" where
  start: "start s \<Longrightarrow> reachable exec start s"
| step: "reachable exec start s \<Longrightarrow> exec l s = Some s' \<Longrightarrow> reachable exec start s'"

lemma reachable_run:
  "run exec ls s = Some s' \<Longrightarrow> reachable exec start s \<Longrightarrow> reachable exec start s'"
  by (induction ls arbitrary: s) (auto split: option.splits intro: reachable.step)

lemma reachable_from_start: "start s \<Longrightarrow> run exec ls s = Some s' \<Longrightarrow> reachable exec start s'"
  by (rule reachable_run) (auto intro: reachable.start)

text \<open>A list of goroutines or waiting calls loses the one at a position.\<close>

definition drop_at :: "nat \<Rightarrow> 'a list \<Rightarrow> 'a list" where
  "drop_at i xs = take i xs @ drop (Suc i) xs"

lemma set_drop_at: "set (drop_at i xs) \<subseteq> set xs"
  by (auto simp: drop_at_def dest: in_set_takeD in_set_dropD)

lemma mset_drop_at: "i < length xs \<Longrightarrow> mset xs = add_mset (xs ! i) (mset (drop_at i xs))"
  using arg_cong[OF id_take_nth_drop[of i xs], of mset] by (simp add: drop_at_def)

lemma drop_at_0 [simp]: "drop_at 0 (x # xs) = xs"
  by (simp add: drop_at_def)

lemma drop_at_Suc [simp]: "drop_at (Suc i) (x # xs) = x # drop_at i xs"
  by (simp add: drop_at_def)

lemma drop_at_map: "map f (drop_at i xs) = drop_at i (map f xs)"
  by (simp add: drop_at_def take_map drop_map)

lemma distinct_drop_at: "distinct xs \<Longrightarrow> distinct (drop_at i xs)"
  by (auto simp: drop_at_def dest: in_set_takeD in_set_dropD set_take_disj_set_drop_if_distinct[of xs i "Suc i"])

section \<open>Invariants\<close>

locale invariant_system =
  fixes exec :: "'l \<Rightarrow> 's \<Rightarrow> 's option"
    and start :: "'s \<Rightarrow> bool"
    and inv :: "'s \<Rightarrow> bool"
  assumes inv_start: "start s \<Longrightarrow> inv s"
    and inv_step: "inv s \<Longrightarrow> exec l s = Some s' \<Longrightarrow> inv s'"
begin

lemma inv_reachable: "reachable exec start s \<Longrightarrow> inv s"
  by (induction rule: reachable.induct) (auto intro: inv_start inv_step)

lemma inv_run: "start s \<Longrightarrow> run exec ls s = Some s' \<Longrightarrow> inv s'"
  by (blast intro: inv_reachable reachable_from_start)

end

section \<open>Progress of one goroutine\<close>

text \<open>A system in which the labels of \<open>worker\<close> lower a measure: no schedule has infinitely many
  of them in a row, and one that runs it until it is not enabled is at most as long as the
  measure.\<close>

locale progress_system = invariant_system exec start inv
  for exec :: "'l \<Rightarrow> 's \<Rightarrow> 's option" and start :: "'s \<Rightarrow> bool" and inv :: "'s \<Rightarrow> bool" +
  fixes worker :: "'l \<Rightarrow> bool"
    and work :: "'s \<Rightarrow> nat"
    and goal :: "'s \<Rightarrow> bool"
  assumes worker_decreases: "inv s \<Longrightarrow> worker l \<Longrightarrow> exec l s = Some s' \<Longrightarrow> work s' < work s"
    and worker_enabled: "inv s \<Longrightarrow> \<not> goal s \<Longrightarrow> \<exists>l s'. worker l \<and> exec l s = Some s'"
begin

lemma worker_run_bounded:
  "inv s \<Longrightarrow> \<forall>l \<in> set ls. worker l \<Longrightarrow> run exec ls s = Some s' \<Longrightarrow> length ls + work s' \<le> work s"
proof (induction ls arbitrary: s)
  case (Cons l ls)
  then obtain t where t: "exec l s = Some t" "run exec ls t = Some s'" by (auto split: option.splits)
  with Cons.IH[of t] Cons.prems inv_step worker_decreases[of s l t] show ?case by fastforce
qed simp

lemma goal_reached:
  "inv s \<Longrightarrow> \<exists>ls s'. (\<forall>l \<in> set ls. worker l) \<and> run exec ls s = Some s' \<and> goal s'"
proof (induction "work s" arbitrary: s rule: less_induct)
  case less
  show ?case
  proof (cases "goal s")
    case True
    then show ?thesis by (intro exI [of _ "[]"] exI [of _ s]) simp
  next
    case False
    then obtain l t where t: "worker l" "exec l s = Some t" using worker_enabled less.prems by blast
    then obtain ls s' where "\<forall>l \<in> set ls. worker l" "run exec ls t = Some s'" "goal s'"
      using less.hyps[OF worker_decreases[OF less.prems t] inv_step[OF less.prems t(2)]] by blast
    with t show ?thesis by (intro exI [of _ "l # ls"] exI [of _ s']) simp
  qed
qed

end

end
