(* ===== verification/Connection.thy ===== *)
theory Connection
  imports Matching Stress_Message Steps
begin

text \<open>
  One client connection of \<open>network/server/iso_server.go\<close>: \<open>HandleRead\<close>, \<open>HandleChannelEvents\<close>,
  \<open>sendFollowUp\<close>, \<open>respond\<close>, \<open>TestConnection\<close>, \<open>Close\<close>, the queueing half of
  \<open>sendSingleMessage\<close> and \<open>sendRefund\<close>, and \<open>SendMessage\<close>. Every access to a channel, a
  \<open>sync.Map\<close>, a counter, the socket or the database queue is one step; a goroutine is the
  \<open>task\<close> it executes next. \<open>db_log\<close> is what the connection queued to the batch writer.
\<close>

section \<open>State\<close>

record IsoRequestResponse =
  rr_reference :: string
  rr_mti :: string
  rr_stressTestId :: int
  rr_rawRequest :: string

record sentRequest =
  sq_mti :: string
  sq_sentAt :: int

record pendingFollowUp =
  fu_mti :: string
  fu_rawMessage :: string
  fu_stressTestId :: int

definition writeChannelSize :: nat where "writeChannelSize = 1024"

text \<open>A message being sent: its log row, from which the request is made, and whether it is a
  stress message, which may have a follow-up, or a refund.\<close>

record send =
  sd_entry :: RequestLog
  sd_stress :: bool

definition send_request :: "send \<Rightarrow> IsoRequestResponse" where
  "send_request s =
     \<lparr>rr_reference = rl_reference (sd_entry s), rr_mti = rl_mti (sd_entry s),
      rr_stressTestId = rl_stresstest_id (sd_entry s), rr_rawRequest = rl_request_message (sd_entry s)\<rparr>"

text \<open>What a goroutine does next.\<close>

datatype task =
    RecordFollowUp send pendingFollowUp
  | StoreFollowUp send pendingFollowUp
  | LogSend send
  | QueueSend send
  | CountSendDrop send
  | ForgetFollowUp send
  | UnlogSend send
  | AbortSend send
  | Respond Iso8583Message
  | QueueAnswer string
  | CountAnswerDrop
  | MatchResponse string string int string string \<comment> \<open>MTI, reference, received at, code, auth id\<close>
  | CountUnmatched
  | UpdateRow string sentRequest int string string
  | TakeFollowUp string
  | LogFollowUp string pendingFollowUp
  | QueueFollowUp string pendingFollowUp int
  | MarkFollowUp string int
  | CountFollowUpDrop string pendingFollowUp
  | UnlogFollowUp string pendingFollowUp
  | DeliverTest nat string
  | TestRange
  | TestStore string
  | TestWrite string nat
  | TestWait string nat
  | TestDelete string bool
  | CloseAfterTest

datatype reader_pc = Reading | Handling task | ReaderDone
datatype writer_pc = Idle | Holding IsoRequestResponse | Writing IsoRequestResponse | WriterDone

record conn =
  conn_id :: string
  c_spec :: IsoSpec
  c_templates :: "IsoMsgTemplate list"
  c_cards :: "Card list"
  c_sales :: "RefundCandidate list"
  referenceCounter :: int
  writeChannel :: "IsoRequestResponse list"
  closed :: bool
  sentTimes :: "string \<rightharpoonup> sentRequest"
  followUps :: "string \<rightharpoonup> pendingFollowUp"
  connTestMap :: "string \<rightharpoonup> nat"
  wait_chans :: "string option list"
  db_log :: "writeOp list"
  refused :: "string list"
  sent_frames :: "string list"
  sentCount :: nat
  droppedCount :: nat
  unmatchedCount :: nat
  tasks :: "task list"
  reader :: reader_pc
  cwriter :: writer_pc
  crashed :: bool

text \<open>What the run-time and the other processes choose at a step.\<close>

record env =
  e_now :: int
  e_clock :: clock
  e_intn :: "int \<Rightarrow> int"
  e_card_intn :: "int \<Rightarrow> int"
  e_db_ok :: bool
  e_io_ok :: bool
  e_timeout :: bool

section \<open>One step of a goroutine\<close>

text \<open>The batch writer refuses a write only once it is being closed, and then every call that
  begins later; a call of another goroutine that began before may still be accepted. The writes
  about one reference are made one after the other, so after a refusal all later writes about
  that reference are refused.\<close>

definition db_up :: "env \<Rightarrow> string \<Rightarrow> conn \<Rightarrow> bool" where
  "db_up e reference c \<longleftrightarrow> e_db_ok e \<and> reference \<notin> set (refused c)"

definition enqueue :: "env \<Rightarrow> string \<Rightarrow> writeOp \<Rightarrow> conn \<Rightarrow> conn" where
  "enqueue e reference op c =
     (if db_up e reference c then c\<lparr>db_log := db_log c @ [op]\<rparr>
      else c\<lparr>refused := reference # refused c\<rparr>)"

definition crash :: "conn \<Rightarrow> conn" where
  "crash c = c\<lparr>crashed := True\<rparr>"

definition can_queue :: "conn \<Rightarrow> bool" where
  "can_queue c \<longleftrightarrow> length (writeChannel c) < writeChannelSize"

definition queue_request :: "IsoRequestResponse \<Rightarrow> conn \<Rightarrow> conn" where
  "queue_request q c = c\<lparr>writeChannel := writeChannel c @ [q]\<rparr>"

definition follow_entry :: "conn \<Rightarrow> string \<Rightarrow> pendingFollowUp \<Rightarrow> int \<Rightarrow> RequestLog" where
  "follow_entry c reference fu now =
     \<lparr>rl_reference = reference, rl_connection_id = conn_id c, rl_mti = fu_mti fu, rl_request_time = now,
      rl_stresstest_id = fu_stressTestId fu, rl_processing_code = [], rl_pan = [], rl_amount = [],
      rl_currency = [], rl_request_message = [], rl_original_log_id = 0\<rparr>"

definition follow_request :: "string \<Rightarrow> pendingFollowUp \<Rightarrow> IsoRequestResponse" where
  "follow_request reference fu =
     \<lparr>rr_reference = reference, rr_mti = fu_mti fu, rr_stressTestId = fu_stressTestId fu,
      rr_rawRequest = fu_rawMessage fu\<rparr>"

definition test_text :: "string \<Rightarrow> string" where
  "test_text stan = ''080082200000000000000400000000000000'' @ stan @ ''026612361''"

text \<open>Each operation below is one step of a goroutine: the new state and what the goroutine does
  next, if anything; \<open>None\<close> while it is blocked.\<close>

type_synonym step_result = "(conn \<times> task option) option"

subsection \<open>Sending a request: \<open>sendSingleMessage\<close> and \<open>sendRefund\<close>\<close>

abbreviation send_reference :: "send \<Rightarrow> string" where
  "send_reference s \<equiv> rl_reference (sd_entry s)"

definition record_follow_up :: "env \<Rightarrow> send \<Rightarrow> pendingFollowUp \<Rightarrow> conn \<Rightarrow> step_result" where
  "record_follow_up e s fu c =
     Some (enqueue e (send_reference s)
             (AddScheduledMessage (fu_stressTestId fu) (e_now e) (send_reference s) (conn_id c) (fu_rawMessage fu)) c,
           Some (StoreFollowUp s fu))"

definition store_follow_up :: "send \<Rightarrow> pendingFollowUp \<Rightarrow> conn \<Rightarrow> step_result" where
  "store_follow_up s fu c = Some (c\<lparr>followUps := (followUps c)(send_reference s \<mapsto> fu)\<rparr>, Some (LogSend s))"

definition log_send :: "env \<Rightarrow> send \<Rightarrow> conn \<Rightarrow> step_result" where
  "log_send e s c =
     Some (enqueue e (send_reference s) (AddRequestLog (sd_entry s)) c,
           if db_up e (send_reference s) c then Some (QueueSend s)
           else if sd_stress s then Some (AbortSend s) else None)"

definition queue_send :: "send \<Rightarrow> conn \<Rightarrow> step_result" where
  "queue_send s c =
     (if can_queue c then Some (queue_request (send_request s) c, None) else Some (c, Some (CountSendDrop s)))"

definition count_drop :: "conn \<Rightarrow> conn" where
  "count_drop c = c\<lparr>droppedCount := droppedCount c + 1\<rparr>"

definition forget_follow_up :: "send \<Rightarrow> task option \<Rightarrow> conn \<Rightarrow> step_result" where
  "forget_follow_up s k c = Some (c\<lparr>followUps := (followUps c)(send_reference s := None)\<rparr>, k)"

definition unlog_send :: "env \<Rightarrow> send \<Rightarrow> conn \<Rightarrow> step_result" where
  "unlog_send e s c =
     Some (enqueue e (send_reference s)
             (DeleteRequestLog (send_reference s) (conn_id c) (rl_mti (sd_entry s))) c, None)"

subsection \<open>Answering a request: \<open>respond\<close>\<close>

definition respond :: "env \<Rightarrow> Iso8583Message \<Rightarrow> conn \<Rightarrow> step_result" where
  "respond e req c =
     (case bindR (buildResponse (e_intn e) (e_clock e) req) (\<lambda>(slept, resp). FormatIso resp) of
        Inl Panic \<Rightarrow> Some (crash c, None)
      | Inl (Err _) \<Rightarrow> Some (c, None)
      | Inr raw \<Rightarrow> Some (c, Some (QueueAnswer raw)))"

definition raw_request :: "string \<Rightarrow> IsoRequestResponse" where
  "raw_request raw = \<lparr>rr_reference = [], rr_mti = [], rr_stressTestId = 0, rr_rawRequest = raw\<rparr>"

definition queue_answer :: "string \<Rightarrow> conn \<Rightarrow> step_result" where
  "queue_answer raw c =
     (if can_queue c then Some (queue_request (raw_request raw) c, None) else Some (c, Some CountAnswerDrop))"

subsection \<open>Matching a response: \<open>HandleRead\<close>\<close>

definition match_response :: "string \<Rightarrow> string \<Rightarrow> int \<Rightarrow> string \<Rightarrow> string \<Rightarrow> conn \<Rightarrow> step_result" where
  "match_response mti reference receivedAt code auth c =
     (case matchKey mti reference of
        Inl _ \<Rightarrow> Some (crash c, None)
      | Inr k \<Rightarrow>
          (case sentTimes c k of
             None \<Rightarrow> Some (c, Some CountUnmatched)
           | Some s \<Rightarrow> Some (c\<lparr>sentTimes := (sentTimes c)(k := None)\<rparr>,
                             Some (UpdateRow reference s receivedAt code auth))))"

definition update_row :: "env \<Rightarrow> string \<Rightarrow> sentRequest \<Rightarrow> int \<Rightarrow> string \<Rightarrow> string \<Rightarrow> conn \<Rightarrow> step_result" where
  "update_row e reference s receivedAt code auth c =
     Some (enqueue e reference
             (UpdateResponseTime reference (conn_id c) (sq_mti s) (sq_sentAt s) receivedAt code auth) c,
           Some (TakeFollowUp reference))"

definition take_follow_up :: "string \<Rightarrow> conn \<Rightarrow> step_result" where
  "take_follow_up reference c =
     Some (c\<lparr>followUps := (followUps c)(reference := None)\<rparr>,
           map_option (LogFollowUp reference) (followUps c reference))"

subsection \<open>The follow-up: \<open>sendFollowUp\<close>\<close>

definition log_follow_up :: "env \<Rightarrow> string \<Rightarrow> pendingFollowUp \<Rightarrow> conn \<Rightarrow> step_result" where
  "log_follow_up e reference fu c =
     Some (enqueue e reference (AddRequestLog (follow_entry c reference fu (e_now e))) c,
           if db_up e reference c then Some (QueueFollowUp reference fu (e_now e)) else None)"

definition queue_follow_up :: "string \<Rightarrow> pendingFollowUp \<Rightarrow> int \<Rightarrow> conn \<Rightarrow> step_result" where
  "queue_follow_up reference fu now c =
     (if can_queue c then Some (queue_request (follow_request reference fu) c, Some (MarkFollowUp reference now))
      else Some (c, Some (CountFollowUpDrop reference fu)))"

definition mark_follow_up :: "env \<Rightarrow> string \<Rightarrow> int \<Rightarrow> conn \<Rightarrow> step_result" where
  "mark_follow_up e reference now c =
     Some (enqueue e reference (MarkScheduledMessageSent reference (conn_id c) now) c, None)"

definition unlog_follow_up :: "env \<Rightarrow> string \<Rightarrow> pendingFollowUp \<Rightarrow> conn \<Rightarrow> step_result" where
  "unlog_follow_up e reference fu c =
     Some (enqueue e reference (DeleteRequestLog reference (conn_id c) (fu_mti fu)) c, None)"

subsection \<open>The echo test: \<open>TestConnection\<close>\<close>

text \<open>The read loop's send into the test's channel of one place.\<close>

definition deliver_test :: "nat \<Rightarrow> string \<Rightarrow> conn \<Rightarrow> step_result" where
  "deliver_test ch msg c =
     (if wait_chans c ! ch = None
      then Some (c\<lparr>wait_chans := (wait_chans c)[ch := Some msg]\<rparr>, None) else None)"

definition test_range :: "env \<Rightarrow> conn \<Rightarrow> step_result" where
  "test_range e c = Some (c, if connTestMap c = Map.empty then Some (TestStore (format_mdhms (e_clock e))) else None)"

definition test_store :: "string \<Rightarrow> conn \<Rightarrow> step_result" where
  "test_store stan c =
     (let ch = length (wait_chans c) in
      Some (c\<lparr>wait_chans := wait_chans c @ [None], connTestMap := (connTestMap c)(stan \<mapsto> ch)\<rparr>,
            Some (TestWrite stan ch)))"

definition test_write :: "env \<Rightarrow> string \<Rightarrow> nat \<Rightarrow> conn \<Rightarrow> step_result" where
  "test_write e stan ch c =
     (if e_io_ok e
      then Some (c\<lparr>sent_frames := sent_frames c @ [write_frame (test_text stan)]\<rparr>, Some (TestWait stan ch))
      else Some (c, Some (TestDelete stan False)))"

definition test_wait :: "env \<Rightarrow> string \<Rightarrow> nat \<Rightarrow> conn \<Rightarrow> step_result" where
  "test_wait e stan ch c =
     (if e_timeout e then Some (c, Some (TestDelete stan False))
      else
        (case wait_chans c ! ch of
           None \<Rightarrow> None
         | Some msg \<Rightarrow>
             (case go_slice msg 0 4 :: (string, string) result of
                Inl _ \<Rightarrow> Some (crash c, None)
              | Inr mti \<Rightarrow> Some (c\<lparr>wait_chans := (wait_chans c)[ch := None]\<rparr>,
                                 Some (TestDelete stan (mti = ''0810'' \<or> mti = ''0800''))))))"

definition test_delete :: "string \<Rightarrow> bool \<Rightarrow> conn \<Rightarrow> step_result" where
  "test_delete stan ok c =
     Some (c\<lparr>connTestMap := (connTestMap c)(stan := None)\<rparr>, if ok then None else Some CloseAfterTest)"

subsection \<open>The next step of a goroutine\<close>

fun exec_task :: "env \<Rightarrow> task \<Rightarrow> conn \<Rightarrow> step_result" where
  "exec_task e (RecordFollowUp s fu) c = record_follow_up e s fu c"
| "exec_task e (StoreFollowUp s fu) c = store_follow_up s fu c"
| "exec_task e (LogSend s) c = log_send e s c"
| "exec_task e (QueueSend s) c = queue_send s c"
| "exec_task e (CountSendDrop s) c =
     Some (count_drop c, Some (if sd_stress s then ForgetFollowUp s else UnlogSend s))"
| "exec_task e (ForgetFollowUp s) c = forget_follow_up s (Some (UnlogSend s)) c"
| "exec_task e (UnlogSend s) c = unlog_send e s c"
| "exec_task e (AbortSend s) c = forget_follow_up s None c"
| "exec_task e (Respond req) c = respond e req c"
| "exec_task e (QueueAnswer raw) c = queue_answer raw c"
| "exec_task e CountAnswerDrop c = Some (count_drop c, None)"
| "exec_task e (MatchResponse mti reference receivedAt code auth) c =
     match_response mti reference receivedAt code auth c"
| "exec_task e CountUnmatched c = Some (c\<lparr>unmatchedCount := unmatchedCount c + 1\<rparr>, None)"
| "exec_task e (UpdateRow reference s receivedAt code auth) c = update_row e reference s receivedAt code auth c"
| "exec_task e (TakeFollowUp reference) c = take_follow_up reference c"
| "exec_task e (LogFollowUp reference fu) c = log_follow_up e reference fu c"
| "exec_task e (QueueFollowUp reference fu now) c = queue_follow_up reference fu now c"
| "exec_task e (MarkFollowUp reference now) c = mark_follow_up e reference now c"
| "exec_task e (CountFollowUpDrop reference fu) c = Some (count_drop c, Some (UnlogFollowUp reference fu))"
| "exec_task e (UnlogFollowUp reference fu) c = unlog_follow_up e reference fu c"
| "exec_task e (DeliverTest ch msg) c = deliver_test ch msg c"
| "exec_task e TestRange c = test_range e c"
| "exec_task e (TestStore stan) c = test_store stan c"
| "exec_task e (TestWrite stan ch) c = test_write e stan ch c"
| "exec_task e (TestWait stan ch) c = test_wait e stan ch c"
| "exec_task e (TestDelete stan ok) c = test_delete stan ok c"
| "exec_task e CloseAfterTest c = Some (c\<lparr>closed := True\<rparr>, None)"

lemmas [simp] = record_follow_up_def store_follow_up_def log_send_def queue_send_def count_drop_def
  forget_follow_up_def unlog_send_def respond_def raw_request_def queue_answer_def match_response_def update_row_def
  take_follow_up_def log_follow_up_def queue_follow_up_def mark_follow_up_def unlog_follow_up_def deliver_test_def
  test_range_def test_store_def test_write_def test_wait_def test_delete_def

section \<open>Starting goroutines\<close>

text \<open>A worker takes a job of a stress test: reference, template, card, messages.\<close>

definition stress_task :: "env \<Rightarrow> int \<Rightarrow> string \<Rightarrow> conn \<Rightarrow> (iso_error, task) result" where
  "stress_task e tid reference c =
     bindR (RandomTemplate (e_intn e) (c_templates c)) (\<lambda>t.
     bindR (GetRandomCard (e_card_intn e) (c_cards c)) (\<lambda>cd.
     bindR (template_messages cd reference (c_spec c) t) (\<lambda>(m, f).
     bindR (case f of
              None \<Rightarrow> Ok None
            | Some fm \<Rightarrow>
                bindR (FormatIso fm) (\<lambda>raw.
                bindR (GetMTI fm) (\<lambda>mti.
                Ok (Some \<lparr>fu_mti = mti, fu_rawMessage = raw, fu_stressTestId = tid\<rparr>)))) (\<lambda>fu.
     bindR (newRequestLog tid reference (conn_id c) (e_now e) m) (\<lambda>entry.
     let s = \<lparr>sd_entry = entry, sd_stress = True\<rparr> in
     Ok (case fu of None \<Rightarrow> LogSend s | Some f \<Rightarrow> RecordFollowUp s f))))))"

text \<open>\<open>sendRefund\<close> takes its reference only after the original has parsed.\<close>

definition refund_task :: "env \<Rightarrow> int \<Rightarrow> RefundCandidate \<Rightarrow> string \<Rightarrow> conn \<Rightarrow> (iso_error, task) result" where
  "refund_task e tid original reference c =
     bindR (refund_message reference (e_clock e) (rc_request_message original) (c_spec c)) (\<lambda>m.
     bindR (newRequestLog tid reference (conn_id c) (e_now e) m) (\<lambda>entry.
     Ok (LogSend \<lparr>sd_entry = entry\<lparr>rl_original_log_id := rc_log_id original\<rparr>, sd_stress = False\<rparr>)))"

definition spawn :: "(iso_error, task) result \<Rightarrow> conn \<Rightarrow> conn" where
  "spawn r c = (case r of Inl Panic \<Rightarrow> crash c | Inl (Err _) \<Rightarrow> c | Inr t \<Rightarrow> c\<lparr>tasks := tasks c @ [t]\<rparr>)"

section \<open>The read loop\<close>

text \<open>What \<open>HandleRead\<close> does with one frame.\<close>

datatype frame_action = Ignore | Handle task | Spawn task | Crash

definition on_frame :: "conn \<Rightarrow> string \<Rightarrow> int \<Rightarrow> frame_action" where
  "on_frame c msgBody receivedAt =
     (if length msgBody < 20 then Ignore
      else
        let mti = take 4 msgBody in
        case (if (mti = ''0810'' \<or> mti = ''0800'') \<and> 46 \<le> length msgBody
              then connTestMap c (take 10 (drop 36 msgBody)) else None) of
          Some ch \<Rightarrow> Handle (DeliverTest ch msgBody)
        | None \<Rightarrow>
            (case NewIso8583Message msgBody (c_spec c) of
               Inl Panic \<Rightarrow> Crash
             | Inl (Err _) \<Rightarrow> Ignore
             | Inr m \<Rightarrow>
                 if isRequestMTI mti then Spawn (Respond m)
                 else if isResponseMTI mti then
                   Handle (MatchResponse mti (GetField m 36) receivedAt
                             (GetField m fieldIdxResponseCode) (GetField m fieldIdxAuthID))
                 else Ignore))"

section \<open>Steps of the connection\<close>

datatype conn_label =
    StartStress int env
  | StartRefund int nat env
  | OtherReference \<comment> \<open>another connection takes a reference\<close>
  | SendRaw string \<comment> \<open>\<open>IsoServer.SendMessage\<close>\<close>
  | StartTest
  | Task nat env
  | ReadFrame string env
  | ReadFail
  | Reader env
  | Recv
  | SeeClose
  | StoreSent env
  | WriteDone env
  | CloseConn

definition next_reference :: "conn \<Rightarrow> string \<times> conn" where
  "next_reference c =
     (let (r, n) = GenerateTimestampID (referenceCounter c) in (r, c\<lparr>referenceCounter := n\<rparr>))"

text \<open>A frame that is already in the reader's buffer is still returned after the socket was closed,
  so \<open>ReadFrame\<close> does not ask whether it is; the next read from the socket itself is \<open>ReadFail\<close>.\<close>

fun conn_exec :: "conn_label \<Rightarrow> conn \<Rightarrow> conn option" where
  "conn_exec (StartStress tid e) c =
     (if crashed c then None
      else let (r, c') = next_reference c in Some (spawn (stress_task e tid r c') c'))"
| "conn_exec (StartRefund tid i e) c =
     (if crashed c \<or> length (c_sales c) \<le> i then None
      else
        case NewIso8583Message (rc_request_message (c_sales c ! i)) (c_spec c) of
          Inl Panic \<Rightarrow> Some (crash c)
        | Inl (Err _) \<Rightarrow> Some c
        | Inr _ \<Rightarrow> (let (r, c') = next_reference c in Some (spawn (refund_task e tid (c_sales c ! i) r c') c')))"
| "conn_exec OtherReference c = (if crashed c then None else Some (snd (next_reference c)))"
| "conn_exec (SendRaw raw) c =
     (if crashed c then None
      else Some (if can_queue c
                 then queue_request (raw_request raw) c else c))"
| "conn_exec StartTest c = (if crashed c then None else Some (c\<lparr>tasks := tasks c @ [TestRange]\<rparr>))"
| "conn_exec (Task i e) c =
     (if crashed c \<or> length (tasks c) \<le> i then None
      else
        case exec_task e (tasks c ! i) c of
          None \<Rightarrow> None
        | Some (c', k) \<Rightarrow>
            Some (c'\<lparr>tasks := (case k of None \<Rightarrow> drop_at i (tasks c) | Some t \<Rightarrow> (tasks c)[i := t])\<rparr>))"
| "conn_exec (ReadFrame msg e) c =
     (if crashed c \<or> reader c \<noteq> Reading then None
      else
        Some (case on_frame c msg (e_now e) of
                Ignore \<Rightarrow> c
              | Handle t \<Rightarrow> c\<lparr>reader := Handling t\<rparr>
              | Spawn t \<Rightarrow> c\<lparr>tasks := tasks c @ [t]\<rparr>
              | Crash \<Rightarrow> crash c))"
| "conn_exec ReadFail c =
     (if crashed c \<or> reader c \<noteq> Reading then None else Some (c\<lparr>reader := ReaderDone, closed := True\<rparr>))"
| "conn_exec (Reader e) c =
     (if crashed c then None
      else
        case reader c of
          Handling t \<Rightarrow>
            (case exec_task e t c of
               None \<Rightarrow> None
             | Some (c', k) \<Rightarrow> Some (c'\<lparr>reader := (case k of None \<Rightarrow> Reading | Some t' \<Rightarrow> Handling t')\<rparr>))
        | _ \<Rightarrow> None)"
| "conn_exec Recv c =
     (if crashed c then None
      else
        case (cwriter c, writeChannel c) of
          (Idle, q # qs) \<Rightarrow> Some (c\<lparr>writeChannel := qs, cwriter := Holding q\<rparr>)
        | _ \<Rightarrow> None)"
| "conn_exec SeeClose c =
     (if crashed c \<or> cwriter c \<noteq> Idle \<or> \<not> closed c then None else Some (c\<lparr>cwriter := WriterDone\<rparr>))"
| "conn_exec (StoreSent e) c =
     (if crashed c then None
      else
        case cwriter c of
          Holding q \<Rightarrow>
            if rr_reference q = [] then Some (c\<lparr>cwriter := Writing q\<rparr>)
            else
              (case matchKey (rr_mti q) (rr_reference q) of
                 Inl _ \<Rightarrow> Some (crash c)
               | Inr k \<Rightarrow> Some (c\<lparr>sentTimes := (sentTimes c)(k \<mapsto> \<lparr>sq_mti = rr_mti q, sq_sentAt = e_now e\<rparr>),
                                cwriter := Writing q\<rparr>))
        | _ \<Rightarrow> None)"
| "conn_exec (WriteDone e) c =
     (if crashed c then None
      else
        case cwriter c of
          Writing q \<Rightarrow>
            Some (if e_io_ok e
                  then c\<lparr>sent_frames := sent_frames c @ [write_frame (rr_rawRequest q)],
                         sentCount := sentCount c + 1, cwriter := Idle\<rparr>
                  else c\<lparr>closed := True, cwriter := WriterDone\<rparr>)
        | _ \<Rightarrow> None)"
| "conn_exec CloseConn c = (if crashed c then None else Some (c\<lparr>closed := True\<rparr>))"

section \<open>A new connection\<close>

text \<open>\<open>HandleNewConnect\<close> registers it with empty maps and starts both loops.\<close>

definition newIsoConnection ::
    "string \<Rightarrow> IsoSpec \<Rightarrow> IsoMsgTemplate list \<Rightarrow> Card list \<Rightarrow> RefundCandidate list \<Rightarrow> int \<Rightarrow> conn" where
  "newIsoConnection cid spec templates cards sales counter =
     \<lparr>conn_id = cid, c_spec = spec, c_templates = templates, c_cards = cards, c_sales = sales,
      referenceCounter = counter, writeChannel = [], closed = False, sentTimes = Map.empty,
      followUps = Map.empty, connTestMap = Map.empty, wait_chans = [], db_log = [], refused = [],
      sent_frames = [], sentCount = 0, droppedCount = 0, unmatchedCount = 0, tasks = [],
      reader = Reading, cwriter = Idle, crashed = False\<rparr>"

end
