(* ===== verification/Lifecycle.thy ===== *)
theory Lifecycle
  imports Connection "HOL-Library.Multiset"
begin

text \<open>
  What a connection promises about each reference: it is handed out once, and from then on one
  goroutine, the write queue or \<open>sentTimes\<close> is responsible for it. The abstract state is a
  multiset of such places, each with the message types of the unanswered rows it has in the log;
  every step of \<open>Connection\<close> is a move of this life cycle. From it follows what the update and
  the delete of \<open>dao.go\<close> rely on: exactly one unanswered row matches.
\<close>

section \<open>Match keys determine the reference\<close>

lemma string_of_byte_first:
  "(of_char (hd (string_of_byte a)) :: nat) < 128 \<longleftrightarrow> length (string_of_byte a) = 1"
proof (cases "(of_char a :: nat) < 128")
  case False
  have "(of_char a :: nat) < 256" by simp
  then have "(of_char a :: nat) div 64 < 4" by (simp add: div_less_iff_less_mult)
  then show ?thesis using False by (simp add: string_of_byte_def Let_def)
qed simp

lemma string_of_byte_length: "length (string_of_byte a) = 1 \<or> length (string_of_byte a) = 2"
  by (simp add: string_of_byte_def Let_def)

lemma string_of_byte_rest:
  assumes "string_of_byte a @ xs = string_of_byte b @ ys"
  shows "xs = ys"
proof -
  have "hd (string_of_byte a @ xs) = hd (string_of_byte b @ ys)" using assms by simp
  moreover have "string_of_byte a \<noteq> []" "string_of_byte b \<noteq> []"
    using string_of_byte_length[of a] string_of_byte_length[of b] by auto
  ultimately have "length (string_of_byte a) = 1 \<longleftrightarrow> length (string_of_byte b) = 1"
    using string_of_byte_first[of a] string_of_byte_first[of b] by simp
  then have "length (string_of_byte a) = length (string_of_byte b)"
    using string_of_byte_length[of a] string_of_byte_length[of b] by auto
  then show ?thesis using assms by simp
qed

lemma matchKey_reference:
  assumes "matchKey a r = Ok k" "matchKey b q = Ok k"
  shows "r = q"
proof -
  obtain u x l where u: "length u = 2" "length l = 1" "k = u @ string_of_byte x @ l @ ''|'' @ r"
    using assms(1) by (auto simp: matchKey_def result_simps dest!: go_slice_OkD)
  obtain v y l' where v: "length v = 2" "length l' = 1" "k = v @ string_of_byte y @ l' @ ''|'' @ q"
    using assms(2) by (auto simp: matchKey_def result_simps dest!: go_slice_OkD)
  have "string_of_byte x @ l @ ''|'' @ r = string_of_byte y @ l' @ ''|'' @ q"
    using u(1,3) v(1,3) by simp
  then have "l @ ''|'' @ r = l' @ ''|'' @ q" by (rule string_of_byte_rest)
  then show ?thesis using u(2) v(2) by simp
qed

section \<open>The unanswered rows of a reference\<close>

text \<open>The message types of the unanswered rows of one connection and reference, in log order:
  the effect of a write, and of a sequence of writes.\<close>

fun row_effect :: "string \<Rightarrow> string \<Rightarrow> writeOp \<Rightarrow> string list \<Rightarrow> string list" where
  "row_effect cid r (InsertLog e) ms =
     (if rl_connection_id e = cid \<and> rl_reference e = r then ms @ [rl_mti e] else ms)"
| "row_effect cid r (UpdateResponse r' c m _ _ _ _ _) ms = (if c = cid \<and> r' = r then filter (\<lambda>x. x \<noteq> m) ms else ms)"
| "row_effect cid r (DeleteLog r' c m) ms = (if c = cid \<and> r' = r then filter (\<lambda>x. x \<noteq> m) ms else ms)"
| "row_effect cid r _ ms = ms"

definition open_rows :: "string \<Rightarrow> string \<Rightarrow> writeOp list \<Rightarrow> string list" where
  "open_rows cid r ops = fold (row_effect cid r) ops []"

lemma open_rows_Nil [simp]: "open_rows cid r [] = []"
  by (simp add: open_rows_def)

lemma open_rows_snoc [simp]: "open_rows cid r (ops @ [op]) = row_effect cid r op (open_rows cid r ops)"
  by (simp add: open_rows_def)

definition op_reference :: "writeOp \<Rightarrow> string" where
  "op_reference op =
     (case op of UpdateResponse r _ _ _ _ _ _ _ \<Rightarrow> r | DeleteLog r _ _ \<Rightarrow> r | MarkSent r _ _ \<Rightarrow> r
      | InsertScheduled _ _ r _ _ \<Rightarrow> r | InsertLog e \<Rightarrow> rl_reference e | SetTotal _ _ \<Rightarrow> [])"

lemma row_effect_other: "op_reference op \<noteq> r \<Longrightarrow> row_effect cid r op ms = ms"
  by (cases op) (auto simp: op_reference_def)

text \<open>The connection a write is about.\<close>

definition op_conn :: "writeOp \<Rightarrow> string option" where
  "op_conn op =
     (case op of UpdateResponse _ c _ _ _ _ _ _ \<Rightarrow> Some c | DeleteLog _ c _ \<Rightarrow> Some c | MarkSent _ c _ \<Rightarrow> Some c
      | InsertScheduled _ _ _ c _ \<Rightarrow> Some c | InsertLog e \<Rightarrow> Some (rl_connection_id e) | SetTotal _ _ \<Rightarrow> None)"

lemma row_effect_other_conn: "op_conn op \<noteq> Some cid \<Longrightarrow> row_effect cid r op ms = ms"
  by (cases op) (auto simp: op_conn_def)

text \<open>A write finds what it expects: an insert no unanswered row of its reference, an update or
  a delete exactly the one it names.\<close>

definition write_ok :: "string \<Rightarrow> writeOp list \<Rightarrow> writeOp \<Rightarrow> bool" where
  "write_ok cid before op \<longleftrightarrow>
     op_conn op = Some cid
     \<and> (case op of
          UpdateResponse r _ m _ _ _ _ _ \<Rightarrow> open_rows cid r before = [m]
        | DeleteLog r _ m \<Rightarrow> open_rows cid r before = [m]
        | InsertLog e \<Rightarrow> open_rows cid (rl_reference e) before = []
        | _ \<Rightarrow> True)"

definition good_log :: "string \<Rightarrow> writeOp list \<Rightarrow> bool" where
  "good_log cid ops \<longleftrightarrow> (\<forall>xs op ys. ops = xs @ op # ys \<longrightarrow> write_ok cid xs op)"

lemma good_log_Nil [simp]: "good_log cid []"
  by (simp add: good_log_def)

lemma good_log_snoc [simp]: "good_log cid (ops @ [op]) \<longleftrightarrow> good_log cid ops \<and> write_ok cid ops op"
proof
  assume g: "good_log cid (ops @ [op])"
  have "write_ok cid xs o'" if "ops = xs @ o' # ys" for xs o' ys
    using g that unfolding good_log_def by (metis append.assoc append_Cons)
  with g show "good_log cid ops \<and> write_ok cid ops op" unfolding good_log_def by blast
next
  assume g: "good_log cid ops \<and> write_ok cid ops op"
  show "good_log cid (ops @ [op])"
    unfolding good_log_def
  proof (intro allI impI)
    fix xs o' ys
    assume "ops @ [op] = xs @ o' # ys"
    then show "write_ok cid xs o'"
      using g by (cases ys rule: rev_cases) (auto simp: good_log_def)
  qed
qed

section \<open>The life cycle of references\<close>

text \<open>A place is a reference and the message types of its unanswered rows, as whoever is
  responsible for the reference knows them; \<open>used\<close> are the references handed out since \<open>base\<close>.\<close>

type_synonym place = "string \<times> string list"

definition used :: "int \<Rightarrow> int \<Rightarrow> string \<Rightarrow> bool" where
  "used base n r \<longleftrightarrow> (\<exists>k. base < k \<and> k \<le> n \<and> r = reference_of k)"

definition in_log :: "string \<Rightarrow> writeOp list \<Rightarrow> string list \<Rightarrow> place \<Rightarrow> bool" where
  "in_log cid lg refs p \<longleftrightarrow> open_rows cid (fst p) lg = snd p \<or> fst p \<in> set refs \<and> snd p = []"

definition sent_place :: "(string \<rightharpoonup> sentRequest) \<Rightarrow> string \<Rightarrow> place \<Rightarrow> bool" where
  "sent_place sent k p \<longleftrightarrow>
     (\<exists>s. sent k = Some s \<and> snd p = [sq_mti s] \<and> matchKey (sq_mti s) (fst p) = Ok k)"

text \<open>No reference has two places.\<close>

definition places_unique :: "place multiset \<Rightarrow> bool" where
  "places_unique T \<longleftrightarrow> (\<forall>r. count (image_mset fst T) r \<le> 1)"

lemma places_unique_empty [simp]: "places_unique {#}"
  by (simp add: places_unique_def)

lemma places_unique_add [simp]:
  "places_unique (add_mset p T) \<longleftrightarrow> places_unique T \<and> fst p \<notin> fst ` set_mset T"
proof -
  have "count (image_mset fst T) (fst p) = 0 \<longleftrightarrow> fst p \<notin> fst ` set_mset T"
    by (metis not_in_iff set_image_mset)
  moreover have "(\<forall>r. count (image_mset fst (add_mset p T)) r \<le> 1) \<longleftrightarrow>
      (\<forall>r. count (image_mset fst T) r \<le> 1) \<and> count (image_mset fst T) (fst p) = 0"
    by (auto simp: le_Suc_eq)
  ultimately show ?thesis by (simp add: places_unique_def)
qed

definition lifecycle ::
    "string \<Rightarrow> int \<Rightarrow> int \<Rightarrow> place multiset \<Rightarrow> (string \<rightharpoonup> sentRequest) \<Rightarrow> writeOp list \<Rightarrow> string list \<Rightarrow> bool" where
  "lifecycle cid base n T sent lg refs \<longleftrightarrow>
     good_log cid lg
     \<and> (\<forall>r. \<not> used base n r \<longrightarrow> open_rows cid r lg = [])
     \<and> (\<forall>p \<in># T. used base n (fst p) \<and> in_log cid lg refs p)
     \<and> places_unique T
     \<and> (\<forall>k. sent k \<noteq> None \<longrightarrow> (\<exists>p. sent_place sent k p))
     \<and> (\<forall>k p. sent_place sent k p \<longrightarrow> used base n (fst p) \<and> in_log cid lg refs p \<and> fst p \<notin> fst ` set_mset T)
     \<and> (\<forall>k k' p p'. sent_place sent k p \<and> sent_place sent k' p' \<and> fst p = fst p' \<longrightarrow> k = k')"

lemma lifecycle_start: "lifecycle cid base n {#} Map.empty [] []"
  by (simp add: lifecycle_def used_def sent_place_def)

lemma lifecycle_good: "lifecycle cid base n T sent lg refs \<Longrightarrow> good_log cid lg"
  by (simp add: lifecycle_def)

lemma sent_place_reference: "sent_place sent k p \<Longrightarrow> sent_place sent k q \<Longrightarrow> p = q"
  using matchKey_reference by (fastforce simp: sent_place_def prod_eq_iff)

text \<open>Nobody is responsible any more.\<close>

lemma lifecycleD:
  assumes "lifecycle cid base n T sent lg refs"
  shows "good_log cid lg" "\<not> used base n r \<Longrightarrow> open_rows cid r lg = []"
    "p \<in># T \<Longrightarrow> used base n (fst p)" "p \<in># T \<Longrightarrow> in_log cid lg refs p" "places_unique T"
    "sent k \<noteq> None \<Longrightarrow> \<exists>p. sent_place sent k p"
    "sent_place sent k p \<Longrightarrow> used base n (fst p)" "sent_place sent k p \<Longrightarrow> in_log cid lg refs p"
    "sent_place sent k p \<Longrightarrow> q \<in># T \<Longrightarrow> fst p \<noteq> fst q"
    "sent_place sent k p \<Longrightarrow> sent_place sent k' p' \<Longrightarrow> fst p = fst p' \<Longrightarrow> k = k'"
  using assms unfolding lifecycle_def by blast+

lemma lifecycleI:
  assumes "good_log cid lg" "\<And>r. \<not> used base n r \<Longrightarrow> open_rows cid r lg = []"
    "\<And>p. p \<in># T \<Longrightarrow> used base n (fst p)" "\<And>p. p \<in># T \<Longrightarrow> in_log cid lg refs p" "places_unique T"
    "\<And>k. sent k \<noteq> None \<Longrightarrow> \<exists>p. sent_place sent k p"
    "\<And>k p. sent_place sent k p \<Longrightarrow> used base n (fst p)" "\<And>k p. sent_place sent k p \<Longrightarrow> in_log cid lg refs p"
    "\<And>k p q. sent_place sent k p \<Longrightarrow> q \<in># T \<Longrightarrow> fst p \<noteq> fst q"
    "\<And>k k' p p'. sent_place sent k p \<Longrightarrow> sent_place sent k' p' \<Longrightarrow> fst p = fst p' \<Longrightarrow> k = k'"
  shows "lifecycle cid base n T sent lg refs"
  using assms unfolding lifecycle_def by blast

lemma lifecycle_drop: "lifecycle cid base n (add_mset p T) sent lg refs \<Longrightarrow> lifecycle cid base n T sent lg refs"
  unfolding lifecycle_def by simp

text \<open>Once a write about a reference is refused, whoever is responsible for it claims no open row.\<close>

lemma lifecycle_refuse:
  assumes "lifecycle cid base n T sent lg refs"
  shows "lifecycle cid base n T sent lg (r # refs)"
proof -
  note d = lifecycleD[OF assms]
  have m: "in_log cid lg refs p \<Longrightarrow> in_log cid lg (r # refs) p" for p by (auto simp: in_log_def)
  show ?thesis
    by (rule lifecycleI) (fact d(1) d(2) d(3) d(5) d(6) d(7) d(9) d(10) | rule m, erule d(4) d(8))+
qed

lemma lifecycle_refused:
  assumes "lifecycle cid base n (add_mset (r, ms) T) sent lg refs" "r \<in> set refs"
  shows "lifecycle cid base n (add_mset (r, []) T) sent lg refs"
  using assms unfolding lifecycle_def in_log_def by auto

text \<open>The responsible goroutine makes a write.\<close>

lemma lifecycle_write:
  assumes l: "lifecycle cid base n (add_mset (r, ms) T) sent lg refs"
    and r: "r \<notin> set refs" "op_reference op = r"
    and ok: "open_rows cid r lg = ms \<Longrightarrow> write_ok cid lg op" "row_effect cid r op ms = ms'"
  shows "lifecycle cid base n (add_mset (r, ms') T) sent (lg @ [op]) refs"
proof -
  note d = lifecycleD[OF l]
  have u: "used base n r" and o: "open_rows cid r lg = ms" using d(3,4)[of "(r, ms)"] r by (auto simp: in_log_def)
  have other: "in_log cid (lg @ [op]) refs p \<longleftrightarrow> in_log cid lg refs p" if "fst p \<noteq> r" for p
    using that r by (simp add: in_log_def row_effect_other)
  have T: "fst p \<noteq> r" if "p \<in># T" for p using d(5) that by force
  have S: "fst p \<noteq> r" if "sent_place sent k p" for k p using d(9)[OF that, of "(r, ms)"] by simp
  show ?thesis
  proof (rule lifecycleI)
    show "good_log cid (lg @ [op])" using d(1) ok(1)[OF o] by simp
    show "open_rows cid q (lg @ [op]) = []" if "\<not> used base n q" for q
      using d(2)[OF that] u that r(2) row_effect_other[of op q] by auto
    show "in_log cid (lg @ [op]) refs p" if "p \<in># add_mset (r, ms') T" for p
    proof (cases "p = (r, ms')")
      case True
      then show ?thesis using o ok(2) by (simp add: in_log_def)
    next
      case False
      then have p: "p \<in># T" using that by simp
      show ?thesis using other[OF T[OF p]] d(4)[of p] p by simp
    qed
    show "in_log cid (lg @ [op]) refs p" if "sent_place sent k p" for k p
      using d(8)[OF that] S[OF that] other by simp
    show "used base n (fst p)" if "p \<in># add_mset (r, ms') T" for p
      using that d(3)[of p] u by (cases "p = (r, ms')") simp_all
    show "fst p \<noteq> fst q" if "sent_place sent k p" "q \<in># add_mset (r, ms') T" for k p q
      using that d(9)[OF that(1), of q] S[OF that(1)] by (cases "q = (r, ms')") simp_all
    show "places_unique (add_mset (r, ms') T)" using d(5) by simp
  qed (fact d(6) d(7) d(10))+
qed

lemma lifecycle_note:
  assumes "lifecycle cid base n T sent lg refs" "op_conn op = Some cid"
    and "\<And>q ms. row_effect cid q op ms = ms" "\<And>before. write_ok cid before op"
  shows "lifecycle cid base n T sent (lg @ [op]) refs"
  using assms unfolding lifecycle_def in_log_def by simp

text \<open>Handing the reference to \<open>sentTimes\<close>, and taking it back when its response arrives.\<close>

lemma lifecycle_sent:
  assumes l: "lifecycle cid base n (add_mset (r, [m]) T) sent lg refs" and k: "matchKey m r = Ok k" "sq_mti s = m"
  shows "lifecycle cid base n T (sent(k \<mapsto> s)) lg refs"
proof -
  have new: "sent_place (sent(k \<mapsto> s)) k' p \<longleftrightarrow> (if k' = k then p = (r, [m]) else sent_place sent k' p)" for k' p
  proof (cases "k' = k")
    case True
    have "matchKey m (fst p) = Ok k \<longleftrightarrow> fst p = r" using k(1) matchKey_reference by blast
    then show ?thesis using True k(2) by (auto simp: sent_place_def prod_eq_iff)
  qed (simp add: sent_place_def)
  note d = lifecycleD[OF l]
  have other: "fst p \<noteq> r" if "sent_place sent k' p" for k' p using d(9)[OF that, of "(r, [m])"] by simp
  have T: "fst q \<noteq> r" if "q \<in># T" for q using d(5) that by force
  have old: "k' = k \<and> p = (r, [m]) \<or> sent_place sent k' p" if "sent_place (sent(k \<mapsto> s)) k' p" for k' p
    using that new by (auto split: if_splits)
  show ?thesis
  proof (rule lifecycleI)
    show "\<exists>p. sent_place (sent(k \<mapsto> s)) k' p" if "(sent(k \<mapsto> s)) k' \<noteq> None" for k'
      using that d(6)[of k'] new by (cases "k' = k") auto
    show "used base n (fst p)" "in_log cid lg refs p" if "sent_place (sent(k \<mapsto> s)) k' p" for k' p
      using old[OF that] d(3,4)[of "(r, [m])"] d(7,8)[of k' p] by auto
    show "fst p \<noteq> fst q" if "sent_place (sent(k \<mapsto> s)) k' p" "q \<in># T" for k' p q
      using old[OF that(1)] T[OF that(2)] d(9)[of k' p q] that(2) by auto
    show "k' = k''" if "sent_place (sent(k \<mapsto> s)) k' p" "sent_place (sent(k \<mapsto> s)) k'' p'" "fst p = fst p'" for k' k'' p p'
      using old[OF that(1)] old[OF that(2)] that(3) other[of k' p] other[of k'' p'] d(10)[of k' p k'' p'] by auto
  qed (use d(1-5) in simp_all)
qed

lemma lifecycle_match:
  assumes l: "lifecycle cid base n T sent lg refs" and k: "matchKey m r = Ok k" "sent k = Some s"
  shows "lifecycle cid base n (add_mset (r, [sq_mti s]) T) (sent(k := None)) lg refs"
proof -
  note d = lifecycleD[OF l]
  obtain p where p: "sent_place sent k p" using d(6) k(2) by blast
  then have "fst p = r" "snd p = [sq_mti s]" using k matchKey_reference by (auto simp: sent_place_def)
  then have pr: "sent_place sent k (r, [sq_mti s])" using p by (cases p) simp
  have gone: "sent_place (sent(k := None)) k' q \<longleftrightarrow> k' \<noteq> k \<and> sent_place sent k' q" for k' q
    by (auto simp: sent_place_def)
  have other: "fst q \<noteq> r" if "sent_place sent k' q" "k' \<noteq> k" for k' q using d(10)[OF that(1) pr] that(2) by auto
  have T: "fst q \<noteq> r" if "q \<in># T" for q using d(9)[OF pr that] by simp
  show ?thesis
  proof (rule lifecycleI)
    show "\<exists>q. sent_place (sent(k := None)) k' q" if "(sent(k := None)) k' \<noteq> None" for k'
      using that d(6)[of k'] gone by (cases "k' = k") auto
    show "used base n (fst q)" "in_log cid lg refs q" if "q \<in># add_mset (r, [sq_mti s]) T" for q
      using that d(3,4)[of q] d(7,8)[OF pr] by (cases "q = (r, [sq_mti s])"; simp)+
    show "places_unique (add_mset (r, [sq_mti s]) T)" using d(5) T by auto
    show "used base n (fst q)" "in_log cid lg refs q" if "sent_place (sent(k := None)) k' q" for k' q
      using that d(7,8)[of k' q] gone by simp_all
    show "fst p \<noteq> fst q" if "sent_place (sent(k := None)) k' p" "q \<in># add_mset (r, [sq_mti s]) T" for k' p q
      using that d(9)[of k' p q] other[of k' p] gone by (cases "q = (r, [sq_mti s])") simp_all
    show "k' = k''" if "sent_place (sent(k := None)) k' p" "sent_place (sent(k := None)) k'' p'" "fst p = fst p'" for k' k'' p p'
      using that d(10)[of k' p k'' p'] gone by simp
  qed (use d(1,2) in simp_all)
qed

text \<open>A reference is handed out.\<close>

lemma used_mono: "used base n r \<Longrightarrow> n \<le> n' \<Longrightarrow> used base n' r"
  by (auto simp: used_def)

lemma reference_fresh:
  assumes "0 \<le> base" "base \<le> n" "n < base + 10 ^ 12"
  shows "\<not> used base n (reference_of (n + 1))"
proof
  assume "used base n (reference_of (n + 1))"
  then obtain k where "base < k" "k \<le> n" "reference_of k = reference_of (n + 1)" by (auto simp: used_def)
  with reference_inj[of k "n + 1"] assms show False by simp
qed

lemma lifecycle_next:
  assumes "lifecycle cid base n T sent lg refs"
  shows "lifecycle cid base (n + 1) T sent lg refs"
proof -
  note d = lifecycleD[OF assms]
  have m: "used base n r \<Longrightarrow> used base (n + 1) r" for r by (auto simp: used_def)
  show ?thesis
  proof (rule lifecycleI)
    show "open_rows cid r lg = []" if "\<not> used base (n + 1) r" for r using that m d(2) by blast
    show "used base (n + 1) (fst p)" if "p \<in># T" for p using d(3)[OF that] by (rule m)
    show "used base (n + 1) (fst p)" if "sent_place sent k p" for k p using d(7)[OF that] by (rule m)
  qed (fact d(1) d(4) d(5) d(6) d(8) d(9) d(10))+
qed

lemma lifecycle_fresh:
  assumes l: "lifecycle cid base n T sent lg refs" and n: "0 \<le> base" "base \<le> n" "n < base + 10 ^ 12"
  shows "lifecycle cid base (n + 1) (add_mset (reference_of (n + 1), []) T) sent lg refs"
proof -
  let ?r = "reference_of (n + 1)"
  note f = reference_fresh[OF n] and d = lifecycleD[OF l] and d' = lifecycleD[OF lifecycle_next[OF l]]
  have u: "used base (n + 1) ?r" unfolding used_def using n by (intro exI [of _ "n + 1"]) simp
  have T: "fst q \<noteq> ?r" if "q \<in># T" for q using d(3)[OF that] f by auto
  have S: "fst q \<noteq> ?r" if "sent_place sent k q" for k q using d(7)[OF that] f by auto
  show ?thesis
  proof (rule lifecycleI)
    show "used base (n + 1) (fst p)" "in_log cid lg refs p" if "p \<in># add_mset (?r, []) T" for p
      using that d'(3,4)[of p] u d(2)[OF f] by (cases "p = (?r, [])"; simp add: in_log_def)+
    show "places_unique (add_mset (?r, []) T)" using d(5) T by force
    show "fst p \<noteq> fst q" if "sent_place sent k p" "q \<in># add_mset (?r, []) T" for k p q
      using that d(9)[of k p q] S[of k p] by (cases "q = (?r, [])") simp_all
  qed (fact d'(1) d'(2) d'(6) d'(7) d'(8) d'(10))+
qed

section \<open>The places of a connection\<close>

definition send_place :: "send \<Rightarrow> string list \<Rightarrow> place multiset" where
  "send_place s ms = {#(rl_reference (sd_entry s), ms)#}"

fun task_places :: "task \<Rightarrow> place multiset" where
  "task_places (RecordFollowUp s fu) = send_place s []"
| "task_places (StoreFollowUp s fu) = send_place s []"
| "task_places (LogSend s) = send_place s []"
| "task_places (QueueSend s) = send_place s [rl_mti (sd_entry s)]"
| "task_places (CountSendDrop s) = send_place s [rl_mti (sd_entry s)]"
| "task_places (ForgetFollowUp s) = send_place s [rl_mti (sd_entry s)]"
| "task_places (UnlogSend s) = send_place s [rl_mti (sd_entry s)]"
| "task_places (UpdateRow reference s _ _ _) = {#(reference, [sq_mti s])#}"
| "task_places (TakeFollowUp reference) = {#(reference, [])#}"
| "task_places (LogFollowUp reference fu) = {#(reference, [])#}"
| "task_places (QueueFollowUp reference fu now) = {#(reference, [fu_mti fu])#}"
| "task_places (CountFollowUpDrop reference fu) = {#(reference, [fu_mti fu])#}"
| "task_places (UnlogFollowUp reference fu) = {#(reference, [fu_mti fu])#}"
| "task_places _ = {#}"

definition request_places :: "IsoRequestResponse \<Rightarrow> place multiset" where
  "request_places q = (if rr_reference q = [] then {#} else {#(rr_reference q, [rr_mti q])#})"

fun writer_places :: "writer_pc \<Rightarrow> place multiset" where
  "writer_places (Holding q) = request_places q"
| "writer_places _ = {#}"

fun reader_places :: "reader_pc \<Rightarrow> place multiset" where
  "reader_places (Handling t) = task_places t"
| "reader_places _ = {#}"

definition queue_places :: "conn \<Rightarrow> place multiset" where
  "queue_places c = sum_list (map request_places (writeChannel c)) + writer_places (cwriter c)"

definition places :: "conn \<Rightarrow> place multiset" where
  "places c = sum_list (map task_places (tasks c)) + reader_places (reader c) + queue_places c"

text \<open>What a task that writes to the log knows: the log row names this connection.\<close>

fun task_ok :: "string \<Rightarrow> task \<Rightarrow> bool" where
  "task_ok cid (RecordFollowUp s fu) = (rl_connection_id (sd_entry s) = cid)"
| "task_ok cid (StoreFollowUp s fu) = (rl_connection_id (sd_entry s) = cid)"
| "task_ok cid (LogSend s) = (rl_connection_id (sd_entry s) = cid)"
| "task_ok cid _ = True"

text \<open>A step of a goroutine, whatever else (\<open>R\<close>) the other goroutines hold.\<close>

definition conn_lifecycle :: "int \<Rightarrow> place multiset \<Rightarrow> conn \<Rightarrow> bool" where
  "conn_lifecycle base R c \<longleftrightarrow>
     lifecycle (conn_id c) base (referenceCounter c) (R + queue_places c) (sentTimes c) (db_log c) (refused c)"

definition after_places :: "task option \<Rightarrow> place multiset" where
  "after_places k = (case k of None \<Rightarrow> {#} | Some t \<Rightarrow> task_places t)"

lemma drop_places:
  "lifecycle cid base n (A + B) sent lg refs \<Longrightarrow> lifecycle cid base n A sent lg refs"
proof (induction B)
  case (add x B)
  then show ?case using lifecycle_drop by simp
qed simp

lemma enqueue_conn [simp]:
  "conn_id (enqueue e r op c) = conn_id c" "referenceCounter (enqueue e r op c) = referenceCounter c"
  "sentTimes (enqueue e r op c) = sentTimes c" "queue_places (enqueue e r op c) = queue_places c"
  by (simp_all add: enqueue_def queue_places_def)

lemma write_step:
  assumes "conn_lifecycle base (add_mset (r, ms) R) c" "op_reference op = r"
    and "open_rows (conn_id c) r (db_log c) = ms \<Longrightarrow> write_ok (conn_id c) (db_log c) op"
    and "row_effect (conn_id c) r op ms = ms'"
  shows "conn_lifecycle base (add_mset (r, if db_up e r c then ms' else []) R) (enqueue e r op c)"
proof -
  note l = assms(1)[unfolded conn_lifecycle_def]
  show ?thesis
  proof (cases "db_up e r c")
    case True
    then show ?thesis
      using lifecycle_write[of "conn_id c" base _ r ms "R + queue_places c" _ _ _ op ms'] l assms(2-4)
      by (simp add: conn_lifecycle_def db_up_def enqueue_def queue_places_def)
  next
    case False
    have "lifecycle (conn_id c) base (referenceCounter c) (add_mset (r, []) (R + queue_places c)) (sentTimes c)
        (db_log c) (r # refused c)"
      using lifecycle_refused[OF lifecycle_refuse[OF l[simplified], of r]] by simp
    then show ?thesis using False by (simp add: conn_lifecycle_def enqueue_def queue_places_def)
  qed
qed

lemma note_step:
  assumes "conn_lifecycle base R c" "op_conn op = Some (conn_id c)"
    and "\<And>q ms. row_effect (conn_id c) q op ms = ms" "\<And>before. write_ok (conn_id c) before op"
  shows "conn_lifecycle base R (enqueue e r op c)"
  using assms lifecycle_note[OF _ assms(2-4)] lifecycle_refuse
  by (auto simp: conn_lifecycle_def enqueue_def queue_places_def)

lemmas op_simps = op_reference_def op_conn_def write_ok_def UpdateResponseTime_def DeleteRequestLog_def
  MarkScheduledMessageSent_def AddScheduledMessage_def AddRequestLog_def

lemma queue_places_update [simp]:
  "queue_places (c\<lparr>followUps := f\<rparr>) = queue_places c" "queue_places (c\<lparr>droppedCount := n\<rparr>) = queue_places c"
  "queue_places (c\<lparr>unmatchedCount := n\<rparr>) = queue_places c" "queue_places (c\<lparr>sentTimes := st\<rparr>) = queue_places c"
  "queue_places (c\<lparr>wait_chans := ws\<rparr>) = queue_places c" "queue_places (c\<lparr>connTestMap := tm\<rparr>) = queue_places c"
  "queue_places (c\<lparr>sent_frames := fr\<rparr>) = queue_places c" "queue_places (c\<lparr>closed := b\<rparr>) = queue_places c"
  "queue_places (c\<lparr>tasks := ts\<rparr>) = queue_places c" "queue_places (c\<lparr>reader := rd\<rparr>) = queue_places c"
  "queue_places (c\<lparr>sentCount := n\<rparr>) = queue_places c" "queue_places (c\<lparr>referenceCounter := z\<rparr>) = queue_places c"
  "queue_places (crash c) = queue_places c"
  "queue_places (queue_request q c) = queue_places c + request_places q"
  by (simp_all add: queue_places_def crash_def queue_request_def)

lemma conn_lifecycle_update [simp]:
  "conn_lifecycle base R (c\<lparr>followUps := f\<rparr>) = conn_lifecycle base R c"
  "conn_lifecycle base R (c\<lparr>droppedCount := n\<rparr>) = conn_lifecycle base R c"
  "conn_lifecycle base R (c\<lparr>unmatchedCount := n\<rparr>) = conn_lifecycle base R c"
  "conn_lifecycle base R (c\<lparr>wait_chans := ws\<rparr>) = conn_lifecycle base R c"
  "conn_lifecycle base R (c\<lparr>connTestMap := tm\<rparr>) = conn_lifecycle base R c"
  "conn_lifecycle base R (c\<lparr>sent_frames := fr\<rparr>) = conn_lifecycle base R c"
  "conn_lifecycle base R (c\<lparr>closed := b\<rparr>) = conn_lifecycle base R c"
  "conn_lifecycle base R (c\<lparr>tasks := ts\<rparr>) = conn_lifecycle base R c"
  "conn_lifecycle base R (c\<lparr>reader := rd\<rparr>) = conn_lifecycle base R c"
  "conn_lifecycle base R (c\<lparr>sentCount := n\<rparr>) = conn_lifecycle base R c"
  "conn_lifecycle base R (crash c) = conn_lifecycle base R c"
  "conn_lifecycle base R (queue_request q c) = conn_lifecycle base (R + request_places q) c"
  by (simp_all add: conn_lifecycle_def ac_simps)
    (simp_all add: crash_def queue_request_def)

lemma conn_lifecycle_drop: "conn_lifecycle base (R + P) c \<Longrightarrow> conn_lifecycle base R c"
  unfolding conn_lifecycle_def by (metis drop_places add.assoc add.commute)

lemma conn_lifecycle_drop1: "conn_lifecycle base (add_mset p R) c \<Longrightarrow> conn_lifecycle base R c"
  using conn_lifecycle_drop[of base R "{#p#}"] by simp

lemma queued_places:
  "conn_lifecycle base (add_mset (rr_reference q, [rr_mti q]) R) c \<Longrightarrow> conn_lifecycle base (R + request_places q) c"
  by (auto simp: request_places_def dest: conn_lifecycle_drop1)

lemma match_step:
  assumes "conn_lifecycle base R c" "matchKey m r = Ok k" "sentTimes c k = Some s"
  shows "conn_lifecycle base (add_mset (r, [sq_mti s]) R) (c\<lparr>sentTimes := (sentTimes c)(k := None)\<rparr>)"
  using lifecycle_match[OF assms(1)[unfolded conn_lifecycle_def] assms(2,3)] by (simp add: conn_lifecycle_def)

lemma exec_task_frame:
  "exec_task e t c = Some (c', k) \<Longrightarrow>
     tasks c' = tasks c \<and> reader c' = reader c \<and> cwriter c' = cwriter c \<and> conn_id c' = conn_id c
     \<and> referenceCounter c' = referenceCounter c \<and> length (wait_chans c) \<le> length (wait_chans c')"
  by (cases t)
     (auto simp: enqueue_def queue_request_def crash_def Let_def split: if_splits sum.splits fault.splits option.splits)

lemma exec_task_lifecycle:
  assumes x: "exec_task e t c = Some (c', k)" and l: "conn_lifecycle base (R + task_places t) c"
    and ok: "task_ok (conn_id c) t"
  shows "conn_lifecycle base (R + after_places k) c' \<and> (\<forall>t'. k = Some t' \<longrightarrow> task_ok (conn_id c) t')"
proof (cases t)
  case (RecordFollowUp s fu)
  from write_step[of base "rl_reference (sd_entry s)" "[]" R c
      "AddScheduledMessage (fu_stressTestId fu) (e_now e) (rl_reference (sd_entry s)) (conn_id c) (fu_rawMessage fu)" "[]" e]
  show ?thesis using x l ok by (auto simp: RecordFollowUp after_places_def op_simps send_place_def)
next
  case (LogSend s)
  from write_step[of base "rl_reference (sd_entry s)" "[]" R c "AddRequestLog (sd_entry s)" "[rl_mti (sd_entry s)]" e]
  show ?thesis
    using x l ok
    by (auto simp: LogSend after_places_def op_simps send_place_def dest: conn_lifecycle_drop1 split: if_splits)
next
  case (UnlogSend s)
  from write_step[of base "rl_reference (sd_entry s)" "[rl_mti (sd_entry s)]" R c
      "DeleteRequestLog (rl_reference (sd_entry s)) (conn_id c) (rl_mti (sd_entry s))" "[]" e]
  show ?thesis
    using x l ok by (auto simp: UnlogSend after_places_def op_simps send_place_def dest: conn_lifecycle_drop1)
next
  case (QueueSend s)
  with x l queued_places[of base "send_request s" R c] show ?thesis
    by (auto simp: after_places_def send_place_def send_request_def split: if_splits)
next
  case (UpdateRow r s t2 code auth)
  from write_step[of base r "[sq_mti s]" R c
      "UpdateResponseTime r (conn_id c) (sq_mti s) (sq_sentAt s) t2 code auth" "[]" e]
  show ?thesis using x l ok by (auto simp: UpdateRow after_places_def op_simps)
next
  case (LogFollowUp r fu)
  from write_step[of base r "[]" R c "AddRequestLog (follow_entry c r fu (e_now e))" "[fu_mti fu]" e]
  show ?thesis
    using x l ok
    by (auto simp: LogFollowUp after_places_def op_simps follow_entry_def dest: conn_lifecycle_drop1 split: if_splits)
next
  case (UnlogFollowUp r fu)
  from write_step[of base r "[fu_mti fu]" R c "DeleteRequestLog r (conn_id c) (fu_mti fu)" "[]" e]
  show ?thesis using x l ok by (auto simp: UnlogFollowUp after_places_def op_simps dest: conn_lifecycle_drop1)
next
  case (QueueFollowUp r fu now)
  with x l queued_places[of base "follow_request r fu" R c] show ?thesis
    by (auto simp: after_places_def follow_request_def split: if_splits)
next
  case (MarkFollowUp r now)
  have "conn_lifecycle base R (enqueue e r (MarkScheduledMessageSent r (conn_id c) now) c)"
    by (rule note_step) (use l MarkFollowUp in \<open>simp_all add: op_simps\<close>)
  with x MarkFollowUp show ?thesis by (auto simp: after_places_def)
next
  case (MatchResponse mti r t2 code auth)
  with x l match_step[of base R c mti r] show ?thesis
    by (auto simp: after_places_def split: sum.splits option.splits)
next
  case (TakeFollowUp r)
  with x l show ?thesis by (auto simp: after_places_def dest: conn_lifecycle_drop1 split: option.splits)
qed (use x l ok in \<open>auto simp: after_places_def send_place_def request_places_def Let_def
       dest: conn_lifecycle_drop1 split: if_splits sum.splits fault.splits option.splits\<close>)

section \<open>The invariant of a connection\<close>

definition conn_inv :: "string \<Rightarrow> int \<Rightarrow> conn \<Rightarrow> bool" where
  "conn_inv cid base c \<longleftrightarrow>
     conn_id c = cid \<and> base \<le> referenceCounter c \<and> referenceCounter c \<le> base + 10 ^ 12
     \<and> conn_lifecycle base (sum_list (map task_places (tasks c)) + reader_places (reader c)) c
     \<and> (\<forall>t \<in> set (tasks c). task_ok cid t) \<and> (\<forall>t. reader c = Handling t \<longrightarrow> task_ok cid t)"

text \<open>A connection as \<open>HandleNewConnect\<close> registers it; \<open>base\<close> is where the reference counter is.\<close>

definition conn_start :: "string \<Rightarrow> int \<Rightarrow> conn \<Rightarrow> bool" where
  "conn_start cid base c \<longleftrightarrow>
     0 \<le> base \<and> base < 2 ^ 62
     \<and> (\<exists>spec templates cards sales. c = newIsoConnection cid spec templates cards sales base)"

text \<open>The steps while fewer than \<open>10^12\<close> references have been handed out since.\<close>

definition bounded_exec :: "int \<Rightarrow> conn_label \<Rightarrow> conn \<Rightarrow> conn option" where
  "bounded_exec base l c = (if referenceCounter c < base + 10 ^ 12 then conn_exec l c else None)"

lemma conn_lifecycle_crashed [simp]: "conn_lifecycle base R (c\<lparr>crashed := b\<rparr>) = conn_lifecycle base R c"
  by (simp add: conn_lifecycle_def queue_places_def)

lemma conn_inv_start: "conn_start cid base c \<Longrightarrow> conn_inv cid base c"
  using lifecycle_start[of cid base base]
  by (auto simp: conn_start_def newIsoConnection_def conn_inv_def conn_lifecycle_def queue_places_def)

lemma task_split:
  fixes f :: "'a \<Rightarrow> 'b multiset"
  assumes "i < length xs"
  shows "\<exists>R. sum_list (map f xs) = R + f (xs ! i) \<and> sum_list (map f (drop_at i xs)) = R
           \<and> (\<forall>x. sum_list (map f (xs[i := x])) = R + f x)"
proof -
  let ?R = "sum_list (map f (take i xs)) + sum_list (map f (drop (Suc i) xs))"
  have "sum_list (map f xs) = ?R + f (xs ! i)"
    using arg_cong[OF id_take_nth_drop[OF assms], of "\<lambda>ys. sum_list (map f ys)"] by (simp add: ac_simps)
  then show ?thesis
    using assms by (intro exI [of _ ?R]) (simp add: drop_at_def upd_conv_take_nth_drop ac_simps)
qed

lemma newRequestLog_fields:
  "newRequestLog tid r cid t m = Ok e \<Longrightarrow> rl_reference e = r \<and> rl_connection_id e = cid"
  by (auto simp: newRequestLog_def result_simps)

lemma stress_task_places:
  "stress_task e tid r c = Ok t \<Longrightarrow> task_places t = {#(r, [])#} \<and> task_ok (conn_id c) t"
  by (auto simp: stress_task_def result_simps Let_def send_place_def dest!: newRequestLog_fields split: option.splits)

lemma refund_task_places:
  "refund_task e tid o' r c = Ok t \<Longrightarrow> task_places t = {#(r, [])#} \<and> task_ok (conn_id c) t"
  by (auto simp: refund_task_def result_simps Let_def send_place_def dest!: newRequestLog_fields)

lemma conn_inv_bounded: "base \<le> n \<Longrightarrow> n < base + 10 ^ 12 \<Longrightarrow> 0 \<le> base \<Longrightarrow> base < 2 ^ 62 \<Longrightarrow>
    GenerateTimestampID n = (reference_of (n + 1), n + 1)"
  by (simp add: GenerateTimestampID_eval)

text \<open>A new task with a new reference.\<close>

lemma spawn_inv:
  assumes inv: "conn_inv cid base c" and n: "referenceCounter c < base + 10 ^ 12" "0 \<le> base" "base < 2 ^ 62"
    and nx: "next_reference c = (r, c')"
    and t: "\<And>t. mk = Ok t \<Longrightarrow> task_places t = {#(r, [])#} \<and> task_ok cid t"
  shows "conn_inv cid base (spawn mk c')"
proof -
  let ?n = "referenceCounter c" and ?R = "sum_list (map task_places (tasks c)) + reader_places (reader c)"
  have b: "base \<le> ?n" using inv by (simp add: conn_inv_def)
  have r: "r = reference_of (?n + 1)" "c' = c\<lparr>referenceCounter := ?n + 1\<rparr>"
    using nx conn_inv_bounded[OF b n] by (auto simp: next_reference_def)
  have l: "lifecycle cid base ?n (?R + queue_places c) (sentTimes c) (db_log c) (refused c)"
    using inv by (auto simp: conn_inv_def conn_lifecycle_def)
  have l1: "conn_lifecycle base ?R c'"
    using lifecycle_next[OF l] inv by (simp add: r(2) conn_lifecycle_def conn_inv_def)
  have l2: "conn_lifecycle base (?R + {#(r, [])#}) c'"
    using lifecycle_fresh[OF l n(2) b n(1)] inv by (simp add: r conn_lifecycle_def conn_inv_def)
  show ?thesis
  proof (cases mk)
    case (Inr t')
    with t l2 inv n(1) show ?thesis by (simp add: conn_inv_def spawn_def r(2) ac_simps)
  next
    case (Inl x)
    then show ?thesis
      using l1 inv n(1) by (cases x) (simp_all add: conn_inv_def spawn_def r(2) crash_def)
  qed
qed

lemma on_frame_places:
  "on_frame c msg t = Spawn k \<Longrightarrow> task_places k = {#} \<and> task_ok cid k"
  "on_frame c msg t = Handle k \<Longrightarrow> task_places k = {#} \<and> task_ok cid k"
  by (auto simp: on_frame_def Let_def split: if_splits option.splits sum.splits fault.splits)

lemma conn_inv_frame:
  assumes "conn_inv cid base c" "conn_id c' = conn_id c" "referenceCounter c' = referenceCounter c"
    and "tasks c' = tasks c" "reader c' = reader c"
    and "conn_lifecycle base (sum_list (map task_places (tasks c)) + reader_places (reader c)) c'"
  shows "conn_inv cid base c'"
  using assms by (simp add: conn_inv_def)

lemma reader_inv:
  assumes inv: "conn_inv cid base c" and rd: "reader c = Handling t" and x: "exec_task e t c = Some (c', k)"
  shows "conn_inv cid base (c'\<lparr>reader := (case k of None \<Rightarrow> Reading | Some t' \<Rightarrow> Handling t')\<rparr>)"
proof -
  have "conn_lifecycle base (sum_list (map task_places (tasks c)) + task_places t) c" "task_ok (conn_id c) t"
    using inv rd by (auto simp: conn_inv_def)
  from exec_task_lifecycle[OF x this] exec_task_frame[OF x] inv show ?thesis
    by (auto simp: conn_inv_def after_places_def split: option.splits)
qed

lemma task_inv:
  assumes inv: "conn_inv cid base c" and i: "i < length (tasks c)" and x: "exec_task e (tasks c ! i) c = Some (c', k)"
  shows "conn_inv cid base (c'\<lparr>tasks := (case k of None \<Rightarrow> drop_at i (tasks c) | Some t \<Rightarrow> (tasks c)[i := t])\<rparr>)"
proof -
  obtain R where R: "sum_list (map task_places (tasks c)) = R + task_places (tasks c ! i)"
    "sum_list (map task_places (drop_at i (tasks c))) = R"
    "\<forall>x. sum_list (map task_places ((tasks c)[i := x])) = R + task_places x"
    using task_split[OF i] by blast
  have "conn_lifecycle base (R + reader_places (reader c) + task_places (tasks c ! i)) c" "task_ok (conn_id c) (tasks c ! i)"
    using inv i R(1) by (auto simp: conn_inv_def ac_simps)
  from exec_task_lifecycle[OF x this] have s:
    "conn_lifecycle base (R + reader_places (reader c) + after_places k) c'" "\<forall>t'. k = Some t' \<longrightarrow> task_ok cid t'"
    using inv by (auto simp: conn_inv_def)
  have f: "\<forall>t \<in> set (drop_at i (tasks c)). task_ok cid t" "\<forall>t \<in> set (tasks c). task_ok cid t"
    using inv set_drop_at[of i "tasks c"] by (auto simp: conn_inv_def)
  show ?thesis
  proof (cases k)
    case None
    then show ?thesis using s R f exec_task_frame[OF x] inv by (simp add: conn_inv_def after_places_def)
  next
    case (Some t')
    have "\<forall>t \<in> set ((tasks c)[i := t']). task_ok cid t"
      using f(2) s(2) Some set_update_subset_insert[of "tasks c" i t'] by auto
    then show ?thesis
      using Some s R exec_task_frame[OF x] inv by (simp add: conn_inv_def after_places_def ac_simps)
  qed
qed

lemma conn_inv_drop_lifecycle:
  "conn_inv cid base c \<Longrightarrow> conn_lifecycle base (sum_list (map task_places (tasks c)) + reader_places (reader c)) c"
  by (simp add: conn_inv_def)

lemma conn_inv_step:
  assumes inv: "conn_inv cid base c" and b: "0 \<le> base" "base < 2 ^ 62"
    and x: "bounded_exec base l c = Some c'"
  shows "conn_inv cid base c'"
proof -
  have n: "referenceCounter c < base + 10 ^ 12" and y: "conn_exec l c = Some c'"
    using x by (auto simp: bounded_exec_def split: if_splits)
  note life = conn_inv_drop_lifecycle[OF inv]
  show ?thesis
  proof (cases l)
    case (StartStress tid e)
    obtain r d where d: "next_reference c = (r, d)" by fastforce
    moreover have "conn_id d = cid" using d inv by (auto simp: next_reference_def conn_inv_def Let_def split: prod.splits)
    ultimately show ?thesis
      using y spawn_inv[OF inv n b d, of "stress_task e tid r d"] stress_task_places[of e tid r d]
      by (auto simp: StartStress split: if_splits)
  next
    case (StartRefund tid i e)
    obtain r d where d: "next_reference c = (r, d)" by fastforce
    moreover have "conn_id d = cid" using d inv by (auto simp: next_reference_def conn_inv_def Let_def split: prod.splits)
    moreover have "conn_inv cid base (crash c)" by (rule conn_inv_frame[OF inv]) (use life in \<open>simp_all add: crash_def\<close>)
    ultimately show ?thesis
      using y inv spawn_inv[OF inv n b d, of "refund_task e tid (c_sales c ! i) r d"]
        refund_task_places[of e tid "c_sales c ! i" r d]
      by (auto simp: StartRefund split: if_splits sum.splits fault.splits)
  next
    case OtherReference
    obtain r d where d: "next_reference c = (r, d)" by fastforce
    show ?thesis
      using y spawn_inv[OF inv n b d, of "fail undefined"] d by (auto simp: OtherReference spawn_def split: if_splits)
  next
    case (SendRaw raw)
    let ?q = "\<lparr>rr_reference = [], rr_mti = [], rr_stressTestId = 0, rr_rawRequest = raw\<rparr>"
    have "conn_inv cid base (queue_request ?q c)"
    proof (rule conn_inv_frame[OF inv])
      show "conn_lifecycle base (sum_list (map task_places (tasks c)) + reader_places (reader c)) (queue_request ?q c)"
        using life by (simp add: request_places_def)
    qed (simp_all add: queue_request_def)
    then show ?thesis using y inv by (auto simp: SendRaw split: if_splits)
  next
    case StartTest
    then show ?thesis using y inv by (auto simp: conn_inv_def split: if_splits)
  next
    case (Task i e)
    then show ?thesis
      using y task_inv[OF inv, of i e] by (auto split: if_splits option.splits)
  next
    case (ReadFrame msg e)
    then show ?thesis
      using y inv on_frame_places[of c msg "e_now e"]
      by (auto simp: conn_inv_def crash_def split: if_splits frame_action.splits)
  next
    case ReadFail
    then show ?thesis using y inv by (auto simp: conn_inv_def split: if_splits)
  next
    case (Reader e)
    then show ?thesis
      using y reader_inv[OF inv, of _ e] by (auto split: if_splits option.splits reader_pc.splits)
  next
    case Recv
    then show ?thesis
      using y inv
      by (auto simp: conn_inv_def conn_lifecycle_def queue_places_def ac_simps split: if_splits writer_pc.splits list.splits)
  next
    case SeeClose
    then show ?thesis using y inv by (auto simp: conn_inv_def conn_lifecycle_def queue_places_def split: if_splits)
  next
    case (StoreSent e)
    show ?thesis
    proof (cases "cwriter c")
      case (Holding q)
      show ?thesis
      proof (cases "rr_reference q = []")
        case True
        then show ?thesis
          using y inv Holding
          by (auto simp: StoreSent conn_inv_def conn_lifecycle_def queue_places_def request_places_def split: if_splits)
      next
        case False
        show ?thesis
        proof (cases "matchKey (rr_mti q) (rr_reference q)")
          case (Inl f)
          then show ?thesis
            using y inv Holding False by (auto simp: StoreSent conn_inv_def crash_def split: if_splits)
        next
          case (Inr k)
          let ?s = "\<lparr>sq_mti = rr_mti q, sq_sentAt = e_now e\<rparr>"
          have c': "c' = c\<lparr>sentTimes := (sentTimes c)(k \<mapsto> ?s), cwriter := Writing q\<rparr>"
            using y Holding False Inr by (auto simp: StoreSent split: if_splits)
          from life[unfolded conn_lifecycle_def queue_places_def] Holding False
          have "lifecycle (conn_id c) base (referenceCounter c)
              (add_mset (rr_reference q, [rr_mti q])
                (sum_list (map task_places (tasks c)) + reader_places (reader c) + sum_list (map request_places (writeChannel c))))
              (sentTimes c) (db_log c) (refused c)"
            by (simp add: request_places_def)
          from lifecycle_sent[OF this Inr, of ?s] inv show ?thesis
            by (simp add: c' conn_inv_def conn_lifecycle_def queue_places_def)
        qed
      qed
    qed (use y in \<open>auto simp: StoreSent split: if_splits\<close>)
  next
    case (WriteDone e)
    then show ?thesis
      using y inv by (auto simp: conn_inv_def conn_lifecycle_def queue_places_def split: if_splits writer_pc.splits)
  next
    case CloseConn
    then show ?thesis using y inv by (auto simp: conn_inv_def split: if_splits)
  qed
qed

interpretation conn_life: invariant_system "bounded_exec base" "conn_start cid base"
    "\<lambda>c. 0 \<le> base \<and> base < 2 ^ 62 \<and> conn_inv cid base c" for cid base
  by unfold_locales (auto simp: conn_inv_start conn_start_def intro: conn_inv_step)

section \<open>Rows of the shared log\<close>

definition rows_open :: "string \<Rightarrow> string \<Rightarrow> database \<Rightarrow> log_row list" where
  "rows_open cid r d =
     filter (\<lambda>x. lr_connection_id x = cid \<and> lr_reference x = r \<and> lr_time_taken x = None) (request_log d)"

lemma filter_answered_rows:
  "filter (\<lambda>x. lr_connection_id x = cid \<and> lr_reference x = r \<and> lr_time_taken x = None)
     (map (\<lambda>x. if unanswered r' c m x then answer_row t1 t2 ms code auth x else x) rows)
   = filter (\<lambda>x. \<not> unanswered r' c m x)
       (filter (\<lambda>x. lr_connection_id x = cid \<and> lr_reference x = r \<and> lr_time_taken x = None) rows)"
  by (induction rows) (auto simp: unanswered_def)

lemma map_filter_mti:
  "\<forall>x \<in> set rows. P x = (lr_mti x \<noteq> Some m) \<Longrightarrow> map lr_mti rows = map Some ms \<Longrightarrow>
     map lr_mti (filter P rows) = map Some (filter (\<lambda>x. x \<noteq> m) ms)"
proof (induction rows arbitrary: ms)
  case (Cons x rows)
  then show ?case by (cases ms) auto
qed simp

lemma rows_open_step:
  assumes "map lr_mti (rows_open cid r d) = map Some ms"
  shows "map lr_mti (rows_open cid r (fst (exec_op now op d))) = map Some (row_effect cid r op ms)"
proof (cases op)
  case (UpdateResponse r' c m t1 t2 tt code auth)
  have "map lr_mti (filter (\<lambda>x. \<not> unanswered r' c m x) (rows_open cid r d)) = map Some (row_effect cid r op ms)"
  proof (cases "c = cid \<and> r' = r")
    case True
    then show ?thesis
      unfolding UpdateResponse using assms by (simp, intro map_filter_mti) (auto simp: rows_open_def unanswered_def)
  next
    case False
    then have "filter (\<lambda>x. \<not> unanswered r' c m x) (rows_open cid r d) = rows_open cid r d"
      by (intro filter_True) (auto simp: rows_open_def unanswered_def)
    with False assms show ?thesis by (auto simp: UpdateResponse)
  qed
  then show ?thesis by (simp add: UpdateResponse rows_open_def filter_answered_rows)
next
  case (DeleteLog r' c m)
  have swap: "rows_open cid r (fst (exec_op now op d)) = filter (\<lambda>x. \<not> unanswered r' c m x) (rows_open cid r d)"
    by (simp add: DeleteLog rows_open_def) (meson filter_cong)
  show ?thesis
  proof (cases "c = cid \<and> r' = r")
    case True
    then show ?thesis
      unfolding swap unfolding DeleteLog using assms by (simp, intro map_filter_mti) (auto simp: rows_open_def unanswered_def)
  next
    case False
    then have "filter (\<lambda>x. \<not> unanswered r' c m x) (rows_open cid r d) = rows_open cid r d"
      by (intro filter_True) (auto simp: rows_open_def unanswered_def)
    with False assms show ?thesis unfolding swap by (auto simp: DeleteLog)
  qed
next
  case (InsertLog en)
  have "rl_connection_id en = lr_connection_id (new_log_row i now en)" for i by (simp add: new_log_row_def)
  with assms show ?thesis by (simp add: InsertLog rows_open_def new_log_row_def)
qed (use assms in \<open>auto simp: rows_open_def Let_def\<close>)

lemma rows_open_run:
  assumes "\<forall>x \<in> set (request_log d). lr_connection_id x \<noteq> cid"
  shows "map lr_mti (rows_open cid r (exec_ops now ops d))
           = map Some (open_rows cid r (filter (\<lambda>op. op_conn op = Some cid) ops))"
proof (induction ops rule: rev_induct)
  case Nil
  show ?case using assms by (auto simp: rows_open_def filter_empty_conv)
next
  case (snoc op ops)
  from rows_open_step[OF this, of now op] show ?case
    by (auto simp: exec_ops_append row_effect_other_conn)
qed

lemma unanswered_rows:
  "length (filter (unanswered r cid m) (request_log d)) = length (filter (\<lambda>x. x = Some m) (map lr_mti (rows_open cid r d)))"
  unfolding rows_open_def by (induction "request_log d" arbitrary: d) (auto simp: unanswered_def filter_map comp_def intro!: arg_cong[of _ _ length] filter_cong)

lemma good_log_filter_prefix:
  assumes "good_log cid (filter P ops)" "ops = xs @ op # ys" "P op"
  shows "write_ok cid (filter P xs) op"
  using assms unfolding good_log_def by auto

lemma good_log_open_rows: "good_log cid ops \<Longrightarrow> length (open_rows cid r ops) \<le> 1"
proof (induction ops rule: rev_induct)
  case (snoc op ops)
  then have IH: "length (open_rows cid r ops) \<le> 1" and ok: "write_ok cid ops op" by auto
  show ?case
  proof (cases op)
    case (InsertLog en)
    with ok IH show ?thesis by (auto simp: write_ok_def)
  qed (use IH in \<open>auto intro: order.trans[OF length_filter_le]\<close>)
qed simp

lemma good_log_prefix: "good_log cid (xs @ ys) \<Longrightarrow> good_log cid xs"
  by (induction ys rule: rev_induct) (simp_all add: good_log_snoc flip: append_assoc)

lemma places_unique_part: "places_unique (A + B) \<Longrightarrow> places_unique A"
  unfolding places_unique_def by (metis add_leE count_union image_mset_union)

section \<open>A sample run\<close>

text \<open>One sale is sent and answered.\<close>

definition sample_env :: env where
  "sample_env = \<lparr>e_now = 7, e_clock = \<lparr>ck_month = 3, ck_day = 14, ck_hour = 12, ck_minute = 0, ck_second = 0\<rparr>,
     e_intn = (\<lambda>_. 0), e_card_intn = (\<lambda>_. 0), e_db_ok = True, e_io_ok = True, e_timeout = False\<rparr>"

definition sample_conn :: conn where
  "sample_conn = newIsoConnection ''c1'' bundled_spec [\<lparr>tmpl_message = sale_text, tmpl_original = []\<rparr>] [test_card] [] 0"

definition reply_frame :: string where
  "reply_frame = ''02100000000008000000000000000001''"

definition sample_schedule :: "conn_label list" where
  "sample_schedule = [StartStress 1 sample_env, Task 0 sample_env, Task 0 sample_env, Recv, StoreSent sample_env,
     WriteDone sample_env, ReadFrame reply_frame sample_env, Reader sample_env, Reader sample_env]"

definition reply_bits :: BitSet where "reply_bits = \<lparr>data = 0x8000000\<rparr>"

lemma reply_parses:
  "\<exists>m. NewIso8583Message reply_frame bundled_spec = Ok m \<and> GetField m 36 = ''000000000001''"
proof -
  have h: "SetString new_BitSet ''0000000008000000'' 16 = Inr reply_bits"
    by (simp add: SetString_def ParseUint_def char_val_def new_BitSet_def reply_bits_def)
  have b: "\<not> has_bit reply_bits 0" by (simp add: has_bit_def reply_bits_def)
  have k: "field_keys reply_bits None = [36]"
    by (simp add: field_keys_def present_def has_bit_def reply_bits_def upto.simps)
  have d: "decode_message bundled_spec reply_frame = Some ((''0210'', reply_bits, None, [''000000000001'']), [])"
    by (simp add: decode_message_def take_str_def reply_frame_def h b k decode_secondary_def
        decode_field_def decode_var_def sale_defs field_def_def eval_simps)
  have s: "short reply_frame" by (simp add: short_def reply_frame_def)
  show ?thesis
    using NewIso8583Message_refines[OF s bundled_sane] by (simp add: d built_def k GetField_def)
qed

lemma sample_send:
  "\<exists>en. stress_task sample_env 1 ''000000000001'' (sample_conn\<lparr>referenceCounter := 1\<rparr>)
          = Ok (LogSend \<lparr>sd_entry = en, sd_stress = True\<rparr>)
        \<and> rl_reference en = ''000000000001'' \<and> rl_mti en = ''0200'' \<and> rl_connection_id en = ''c1''"
proof -
  have v: "value_ok bundled_spec 36 ''000000000001''" by (simp add: value_ok_def sale_defs field_def_def)
  obtain r where r: "getIsoMessage test_card ''000000000001'' bundled_spec sale_text = Ok (SetField r 36 ''000000000001'')"
    "updates sale_msg r"
    using getIsoMessage_updates[OF sale_parses sale_wf _ test_card_fits bundled_issuer v]
    by (auto simp: sale_simps GetField_def ascii_def)
  have u: "updates sale_msg (SetField r 36 ''000000000001'')"
    by (rule updates_set[OF r(2)]) (simp_all add: sale_simps v)
  then have w: "wf_msg (SetField r 36 ''000000000001'')" "message (SetField r 36 ''000000000001'') = sale_text"
    by (simp_all add: updates_def sale_simps)
  show ?thesis
    using r(1) newRequestLog_ok[OF w(1)] w(2)
    by (simp add: stress_task_def sample_conn_def newIsoConnection_def RandomTemplate_def GetRandomCard_def pick_def
        at_index_def sample_env_def template_messages_def Let_def)
       (simp add: sale_text_def)
qed

lemma sample_run:
  "\<exists>c en code auth. run (bounded_exec 0) sample_schedule sample_conn = Some c
     \<and> db_log c = [InsertLog en, UpdateResponse ''000000000001'' ''c1'' ''0200'' 7 7 0 code auth]
     \<and> rl_reference en = ''000000000001'' \<and> rl_connection_id en = ''c1''"
proof -
  obtain en where en: "stress_task sample_env 1 ''000000000001'' (sample_conn\<lparr>referenceCounter := 1\<rparr>)
      = Ok (LogSend \<lparr>sd_entry = en, sd_stress = True\<rparr>)"
    "rl_reference en = ''000000000001''" "rl_mti en = ''0200''" "rl_connection_id en = ''c1''"
    using sample_send by blast
  obtain m where m: "NewIso8583Message reply_frame bundled_spec = Ok m" "GetField m 36 = ''000000000001''"
    using reply_parses by blast
  have g: "next_reference sample_conn = (''000000000001'', sample_conn\<lparr>referenceCounter := 1\<rparr>)"
    by (simp add: next_reference_def sample_conn_def newIsoConnection_def GenerateTimestampID_eval reference_of_def eval_simps)
  have rd: "on_frame c reply_frame 7 = Handle (MatchResponse ''0210'' ''000000000001'' 7
      (GetField m fieldIdxResponseCode) (GetField m fieldIdxAuthID))" if "c_spec c = bundled_spec" for c
    using m that unfolding on_frame_def
    by (simp add: reply_frame_def isRequestMTI_def requestMTISet_def isResponseMTI_def responseMTISet_def)
  have k: "matchKey ''0200'' ''000000000001'' = Ok ''0200|000000000001''"
    "matchKey ''0210'' ''000000000001'' = Ok ''0200|000000000001''"
    by (simp_all add: matchKey_eval byte_def char_of_byte_def char_of_def bit_0)
  let ?s = "\<lparr>sd_entry = en, sd_stress = True\<rparr>"
  let ?c = "sample_conn\<lparr>referenceCounter := 1, tasks := [LogSend ?s]\<rparr>"
  have c: "conn_id sample_conn = ''c1''" "c_spec sample_conn = bundled_spec" "referenceCounter sample_conn = 0"
    "writeChannel sample_conn = []" "closed sample_conn = False" "sentTimes sample_conn = Map.empty"
    "followUps sample_conn = Map.empty" "db_log sample_conn = []" "refused sample_conn = []"
    "tasks sample_conn = []" "reader sample_conn = Reading" "cwriter sample_conn = Idle" "crashed sample_conn = False"
    by (simp_all add: sample_conn_def newIsoConnection_def)
  have e: "e_now sample_env = 7" "e_db_ok sample_env" "e_io_ok sample_env" by (simp_all add: sample_env_def)
  have s1: "bounded_exec 0 (StartStress 1 sample_env) sample_conn = Some ?c"
    using en(1) g c by (simp add: bounded_exec_def spawn_def)
  have q: "can_queue d" if "writeChannel d = []" for d
    using that by (simp add: can_queue_def writeChannelSize_def)
  show ?thesis
    unfolding sample_schedule_def run.simps s1 option.case
    by (simp add: bounded_exec_def c e rd k en(2-4) q enqueue_def db_up_def queue_request_def send_request_def
        op_simps Milliseconds_def time_sub_def)
qed

lemma sample_reachable:
  "\<exists>c en code auth. reachable (bounded_exec 0) (conn_start ''c1'' 0) c
     \<and> db_log c = [InsertLog en, UpdateResponse ''000000000001'' ''c1'' ''0200'' 7 7 0 code auth]
     \<and> rl_reference en = ''000000000001'' \<and> rl_connection_id en = ''c1''"
proof -
  have "conn_start ''c1'' 0 sample_conn" by (auto simp: conn_start_def sample_conn_def)
  with sample_run reachable_from_start[of "conn_start ''c1'' 0" sample_conn "bounded_exec 0" sample_schedule]
  show ?thesis by metis
qed

text \<open>The same run before the writer takes the request.\<close>

lemma sample_queued:
  "\<exists>c q. reachable (bounded_exec 0) (conn_start ''c1'' 0) c \<and> writeChannel c = [q]
     \<and> rr_reference q = ''000000000001''"
proof -
  obtain en where en: "stress_task sample_env 1 ''000000000001'' (sample_conn\<lparr>referenceCounter := 1\<rparr>)
      = Ok (LogSend \<lparr>sd_entry = en, sd_stress = True\<rparr>)"
    "rl_reference en = ''000000000001''"
    using sample_send by blast
  have g: "next_reference sample_conn = (''000000000001'', sample_conn\<lparr>referenceCounter := 1\<rparr>)"
    by (simp add: next_reference_def sample_conn_def newIsoConnection_def GenerateTimestampID_eval reference_of_def eval_simps)
  let ?s = "\<lparr>sd_entry = en, sd_stress = True\<rparr>"
  let ?c = "sample_conn\<lparr>referenceCounter := 1, tasks := [LogSend ?s]\<rparr>"
  have c: "referenceCounter sample_conn = 0" "writeChannel sample_conn = []" "crashed sample_conn = False"
    "tasks sample_conn = []" "refused sample_conn = []"
    by (simp_all add: sample_conn_def newIsoConnection_def)
  have s1: "bounded_exec 0 (StartStress 1 sample_env) sample_conn = Some ?c"
    using en(1) g c by (simp add: bounded_exec_def spawn_def)
  have "\<exists>d. run (bounded_exec 0) (take 3 sample_schedule) sample_conn = Some d \<and> writeChannel d = [send_request ?s]"
    unfolding sample_schedule_def take_Suc_Cons numeral_3_eq_3 take_0 run.simps s1 option.case
    by (simp add: bounded_exec_def c enqueue_def db_up_def queue_request_def can_queue_def writeChannelSize_def sample_env_def)
  moreover have "conn_start ''c1'' 0 sample_conn" by (auto simp: conn_start_def sample_conn_def)
  moreover have "rr_reference (send_request ?s) = ''000000000001''" using en(2) by (simp add: send_request_def)
  ultimately show ?thesis
    using reachable_from_start[of "conn_start ''c1'' 0" sample_conn "bounded_exec 0" "take 3 sample_schedule"] by metis
qed

section \<open>Properties\<close>

text \<open>
  C2: However the goroutines of a connection, of other connections and the peer interleave, every
  response-time update and every deletion the connection queues changes exactly one row of the
  log, an unanswered one of its own: the row of the request it is about.
\<close>

theorem one_row_per_update:
  assumes "reachable (bounded_exec base) (conn_start cid base) c"
    and "filter (\<lambda>op. op_conn op = Some cid) ops = db_log c"
    and "\<forall>x \<in> set (request_log d). lr_connection_id x \<noteq> cid"
    and "ops = xs @ op # ys"
    and "(\<exists>t1 t2 tt code auth. op = UpdateResponse r cid m t1 t2 tt code auth) \<or> op = DeleteLog r cid m"
  shows "snd (exec_op now op (exec_ops now xs d)) = 1"
proof -
  have "good_log cid (db_log c)"
    using conn_life.inv_reachable[OF assms(1)] lifecycle_good by (auto simp: conn_inv_def conn_lifecycle_def)
  moreover have "op_conn op = Some cid" using assms(5) by (auto simp: op_conn_def)
  ultimately have "write_ok cid (filter (\<lambda>op. op_conn op = Some cid) xs) op"
    using good_log_filter_prefix[OF _ assms(4), of cid "\<lambda>op. op_conn op = Some cid"] assms(2) by simp
  then have "open_rows cid r (filter (\<lambda>op. op_conn op = Some cid) xs) = [m]"
    using assms(5) by (auto simp: write_ok_def)
  then have "length (filter (unanswered r cid m) (request_log (exec_ops now xs d))) = 1"
    using rows_open_run[OF assms(3), of r now xs] by (simp add: unanswered_rows)
  then show ?thesis using assms(5) by auto
qed

theorem one_row_per_update_witness:
  "\<exists>en op. snd (exec_op 0 op (exec_ops 0 [InsertLog en] empty_db)) = 1
     \<and> (\<exists>code auth. op = UpdateResponse ''000000000001'' ''c1'' ''0200'' 7 7 0 code auth)"
proof -
  obtain c en code auth where c: "reachable (bounded_exec 0) (conn_start ''c1'' 0) c"
    "db_log c = [InsertLog en, UpdateResponse ''000000000001'' ''c1'' ''0200'' 7 7 0 code auth]"
    "rl_connection_id en = ''c1''"
    using sample_reachable by blast
  have "snd (exec_op 0 (UpdateResponse ''000000000001'' ''c1'' ''0200'' 7 7 0 code auth) (exec_ops 0 [InsertLog en] empty_db)) = 1"
    by (rule one_row_per_update[OF c(1), where ops = "db_log c" and ys = "[]" and r = "''000000000001''" and m = "''0200''"])
       (use c in \<open>auto simp: empty_db_def op_conn_def\<close>)
  then show ?thesis by blast
qed

text \<open>
  C6: At no time does the log hold two unanswered rows for one reference of a connection: a
  reversal or advice is logged only after its original is answered, so the update by
  reference, connection and type cannot confuse them.
\<close>

theorem one_unanswered_per_reference:
  assumes "reachable (bounded_exec base) (conn_start cid base) c"
    and "filter (\<lambda>op. op_conn op = Some cid) (xs @ ys) = db_log c"
    and "\<forall>x \<in> set (request_log d). lr_connection_id x \<noteq> cid"
  shows "length (rows_open cid r (exec_ops now xs d)) \<le> 1"
proof -
  have "good_log cid (db_log c)"
    using conn_life.inv_reachable[OF assms(1)] lifecycle_good by (auto simp: conn_inv_def conn_lifecycle_def)
  then have "good_log cid (filter (\<lambda>op. op_conn op = Some cid) xs)"
    using assms(2) good_log_prefix by (metis filter_append)
  from good_log_open_rows[OF this, of r] show ?thesis
    using arg_cong[OF rows_open_run[OF assms(3), of r now xs], of length] by simp
qed

theorem one_unanswered_per_reference_witness:
  "\<exists>en. length (rows_open ''c1'' ''000000000001'' (exec_ops 0 [InsertLog en] empty_db)) \<le> 1"
proof -
  obtain c en code auth where c: "reachable (bounded_exec 0) (conn_start ''c1'' 0) c"
    "db_log c = [InsertLog en, UpdateResponse ''000000000001'' ''c1'' ''0200'' 7 7 0 code auth]"
    "rl_connection_id en = ''c1''"
    using sample_reachable by blast
  have "length (rows_open ''c1'' ''000000000001'' (exec_ops 0 [InsertLog en] empty_db)) \<le> 1"
    by (rule one_unanswered_per_reference[OF c(1),
          where ys = "[UpdateResponse ''000000000001'' ''c1'' ''0200'' 7 7 0 code auth]"])
       (use c in \<open>auto simp: empty_db_def op_conn_def\<close>)
  then show ?thesis by blast
qed

text \<open>
  C14: A request is logged before it is queued: in every schedule in which at most \<open>10^12\<close> references
  are handed out after the connection opened, whatever is in the write channel with a reference, is
  held by the writer with one or awaits its response in \<open>sentTimes\<close> has its row, unanswered and the only one of its
  reference, in the log the connection has queued, also when the closing database refused other
  writes of the connection; and the references queued are all different.
\<close>

theorem queued_requests_are_logged:
  assumes "reachable (bounded_exec base) (conn_start cid base) c"
  shows "(\<forall>q. (q \<in> set (writeChannel c) \<or> cwriter c = Holding q) \<and> rr_reference q \<noteq> [] \<longrightarrow>
             open_rows cid (rr_reference q) (db_log c) = [rr_mti q])
         \<and> (\<forall>k s. sentTimes c k = Some s \<longrightarrow>
             (\<exists>r. matchKey (sq_mti s) r = Ok k \<and> open_rows cid r (db_log c) = [sq_mti s]))
         \<and> distinct (filter (\<lambda>r. r \<noteq> []) (map rr_reference (writeChannel c)))"
proof -
  let ?R = "sum_list (map task_places (tasks c)) + reader_places (reader c)"
  have l: "lifecycle cid base (referenceCounter c) (?R + queue_places c) (sentTimes c) (db_log c) (refused c)"
    using conn_life.inv_reachable[OF assms] by (auto simp: conn_inv_def conn_lifecycle_def)
  note d = lifecycleD[OF l]
  have q: "set_mset (request_places q) \<subseteq> set_mset (?R + queue_places c)"
    if "q \<in> set (writeChannel c) \<or> cwriter c = Holding q" for q
    using that split_list[of q "writeChannel c"] by (auto simp: queue_places_def)
  have u: "places_unique (sum_list (map request_places (writeChannel c)))"
    using d(5) places_unique_part[of _ "?R + writer_places (cwriter c)"] by (simp add: queue_places_def ac_simps)
  have dist: "places_unique (sum_list (map request_places qs)) \<Longrightarrow> distinct (filter (\<lambda>r. r \<noteq> []) (map rr_reference qs))" for qs
  proof (induction qs)
    case (Cons x qs)
    have "fst ` set_mset (sum_list (map request_places qs)) = set (filter (\<lambda>r. r \<noteq> []) (map rr_reference qs))"
      by (induction qs) (auto simp: request_places_def)
    with Cons show ?case by (auto simp: request_places_def split: if_splits)
  qed simp
  show ?thesis
  proof (intro conjI allI impI)
    fix q assume "(q \<in> set (writeChannel c) \<or> cwriter c = Holding q) \<and> rr_reference q \<noteq> []"
    then show "open_rows cid (rr_reference q) (db_log c) = [rr_mti q]"
      using q[of q] d(4)[of "(rr_reference q, [rr_mti q])"] by (auto simp: request_places_def in_log_def)
  next
    fix k s assume s: "sentTimes c k = Some s"
    then obtain p where "sent_place (sentTimes c) k p" using d(6)[of k] by auto
    with s d(8)[of k p] show "\<exists>r. matchKey (sq_mti s) r = Ok k \<and> open_rows cid r (db_log c) = [sq_mti s]"
      by (auto simp: sent_place_def in_log_def)
  qed (rule dist[OF u])
qed

theorem queued_requests_are_logged_witness:
  "\<exists>c q. reachable (bounded_exec 0) (conn_start ''c1'' 0) c \<and> writeChannel c = [q]
     \<and> open_rows ''c1'' ''000000000001'' (db_log c) = [rr_mti q] \<and> rr_reference q = ''000000000001''"
proof -
  obtain c q where c: "reachable (bounded_exec 0) (conn_start ''c1'' 0) c" "writeChannel c = [q]"
    "rr_reference q = ''000000000001''"
    using sample_queued by blast
  have "open_rows ''c1'' (rr_reference q) (db_log c) = [rr_mti q]"
    using queued_requests_are_logged[OF c(1), THEN conjunct1, rule_format, of q] c(2,3) by simp
  with c show ?thesis by metis
qed

end
