(* ===== verification/Batch_Writer.thy ===== *)
theory Batch_Writer
  imports Database Steps
begin

text \<open>
  \<open>database/batch_writer.go\<close>: the callers of \<open>enqueue\<close>, the writer goroutine \<open>run\<close> and
  \<open>Close\<close> as interleaved steps over the queue, the \<open>done\<close> channel and the database. The two
  \<open>select\<close>s of \<open>enqueue\<close> are two steps, since other goroutines run between them.
\<close>

section \<open>Committing a batch\<close>

text \<open>What can fail is the environment's choice: beginning the transaction, preparing or running
  the statement of the i-th write, committing.\<close>

record commit_env =
  begin_ok :: bool
  prepare_ok :: "nat \<Rightarrow> bool"
  exec_ok :: "nat \<Rightarrow> bool"
  commit_ok :: bool
  env_now :: int

datatype log_line = BeginError | PrepareError | ExecError | NoRows string string string | CommitError

datatype sql_text = SqlUpdateResponse | SqlDeleteLog | SqlMarkSent | SqlInsertScheduled | SqlInsertLog | SqlSetTotal

fun query :: "writeOp \<Rightarrow> sql_text" where
  "query (UpdateResponse _ _ _ _ _ _ _ _) = SqlUpdateResponse"
| "query (DeleteLog _ _ _) = SqlDeleteLog"
| "query (MarkSent _ _ _) = SqlMarkSent"
| "query (InsertScheduled _ _ _ _ _) = SqlInsertScheduled"
| "query (InsertLog _) = SqlInsertLog"
| "query (SetTotal _ _) = SqlSetTotal"

fun noRowsErr :: "writeOp \<Rightarrow> log_line option" where
  "noRowsErr (UpdateResponse ref conn mti _ _ _ _ _) = Some (NoRows mti ref conn)"
| "noRowsErr _ = None"

fun commit_loop :: "commit_env \<Rightarrow> nat \<Rightarrow> sql_text list \<Rightarrow> writeOp list \<Rightarrow> database \<Rightarrow> log_line list \<Rightarrow> database \<times> log_line list" where
  "commit_loop env i stmts [] tx lg = (tx, lg)"
| "commit_loop env i stmts (op # ops) tx lg =
     (if query op \<notin> set stmts \<and> \<not> prepare_ok env i then commit_loop env (Suc i) stmts ops tx (lg @ [PrepareError])
      else
        let stmts = (if query op \<in> set stmts then stmts else query op # stmts) in
        if \<not> exec_ok env i then commit_loop env (Suc i) stmts ops tx (lg @ [ExecError])
        else
          let (tx, n) = exec_op (env_now env) op tx;
              lg = (case noRowsErr op of None \<Rightarrow> lg | Some line \<Rightarrow> if n = 0 then lg @ [line] else lg)
          in commit_loop env (Suc i) stmts ops tx lg)"

definition commit :: "commit_env \<Rightarrow> writeOp list \<Rightarrow> database \<Rightarrow> database \<times> log_line list" where
  "commit env batch d =
     (if \<not> begin_ok env then (d, [BeginError])
      else
        let (tx, lg) = commit_loop env 0 [] batch d [] in
        if commit_ok env then (tx, lg) else (d, lg @ [CommitError]))"

definition faultless :: "commit_env \<Rightarrow> bool" where
  "faultless env \<longleftrightarrow> begin_ok env \<and> commit_ok env \<and> (\<forall>i. prepare_ok env i \<and> exec_ok env i)"

lemma commit_loop_faultless:
  "faultless env \<Longrightarrow> fst (commit_loop env i stmts ops tx lg) = exec_ops (env_now env) ops tx"
  by (induction ops arbitrary: i stmts tx lg) (simp_all add: faultless_def Let_def split: prod.splits)

lemma commit_faultless: "faultless env \<Longrightarrow> fst (commit env batch d) = exec_ops (env_now env) batch d"
  using commit_loop_faultless[of env 0 "[]" batch d "[]"]
  by (auto simp: commit_def faultless_def Let_def split: prod.splits)

lemma commit_loop_wf: "db_wf tx \<Longrightarrow> db_wf (fst (commit_loop env i stmts ops tx lg))"
proof (induction ops arbitrary: i stmts tx lg)
  case (Cons op ops)
  from exec_op_wf[OF Cons.prems, of "env_now env" op] Cons show ?case
    by (auto simp: Let_def split: prod.splits)
qed simp

lemma commit_wf [wf_intros]: "db_wf d \<Longrightarrow> db_wf (fst (commit env batch d))"
  using commit_loop_wf[of d env 0 "[]" batch "[]"] by (auto simp: commit_def Let_def split: prod.splits)

section \<open>The writer's state and steps\<close>

definition writeQueueSize :: nat where "writeQueueSize = 100000"
definition maxBatchSize :: nat where "maxBatchSize = 2000"

datatype run_state = Waiting | Filling | Flushing | Finished

text \<open>\<open>pending\<close> are the writes of callers past the first \<open>select\<close>; \<open>accepted\<close>, \<open>rejected\<close> and
  \<open>committed\<close> record what callers were told and what \<open>commit\<close> was given.\<close>

record writer =
  writes :: "writeOp list"
  w_done :: bool
  run_pc :: run_state
  batch :: "writeOp list"
  w_db :: database
  pending :: "writeOp list"
  accepted :: "writeOp list"
  rejected :: "writeOp list"
  committed :: "(commit_env \<times> writeOp list) list"

definition newBatchWriter :: "database \<Rightarrow> writer" where
  "newBatchWriter d =
     \<lparr>writes = [], w_done = False, run_pc = Waiting, batch = [], w_db = d, pending = [], accepted = [],
      rejected = [], committed = []\<rparr>"

datatype writer_label =
    Enqueue writeOp \<comment> \<open>a call passes or fails the first \<open>select\<close>\<close>
  | SendOp nat \<comment> \<open>the second \<open>select\<close> of a pending call sends\<close>
  | RejectOp nat \<comment> \<open>the second \<open>select\<close> of a pending call sees \<open>done\<close>\<close>
  | CloseDone \<comment> \<open>\<open>Close\<close> closes \<open>done\<close>\<close>
  | Receive \<comment> \<open>\<open>run\<close> takes the first write of a batch\<close>
  | SeeDone \<comment> \<open>\<open>run\<close> sees \<open>done\<close>\<close>
  | Fill \<comment> \<open>an inner loop takes one more write\<close>
  | EndBatch commit_env \<comment> \<open>an inner loop ends: commit, or finish\<close>

definition can_fill :: "writer \<Rightarrow> bool" where
  "can_fill w \<longleftrightarrow> length (batch w) < maxBatchSize \<and> writes w \<noteq> []"

definition do_commit :: "commit_env \<Rightarrow> writer \<Rightarrow> writer" where
  "do_commit env w =
     w\<lparr>w_db := fst (commit env (batch w) (w_db w)), committed := committed w @ [(env, batch w)], batch := []\<rparr>"

fun writer_exec :: "writer_label \<Rightarrow> writer \<Rightarrow> writer option" where
  "writer_exec (Enqueue op) w =
     Some (if w_done w then w\<lparr>rejected := rejected w @ [op]\<rparr> else w\<lparr>pending := pending w @ [op]\<rparr>)"
| "writer_exec (SendOp i) w =
     (if i < length (pending w) \<and> length (writes w) < writeQueueSize
      then Some (w\<lparr>writes := writes w @ [pending w ! i], accepted := accepted w @ [pending w ! i],
                   pending := drop_at i (pending w)\<rparr>)
      else None)"
| "writer_exec (RejectOp i) w =
     (if i < length (pending w) \<and> w_done w
      then Some (w\<lparr>rejected := rejected w @ [pending w ! i], pending := drop_at i (pending w)\<rparr>)
      else None)"
| "writer_exec CloseDone w = (if w_done w then None else Some (w\<lparr>w_done := True\<rparr>))"
| "writer_exec Receive w =
     (case (run_pc w, writes w) of
        (Waiting, op # ops) \<Rightarrow> Some (w\<lparr>writes := ops, batch := [op], run_pc := Filling\<rparr>)
      | _ \<Rightarrow> None)"
| "writer_exec SeeDone w =
     (if run_pc w = Waiting \<and> w_done w then Some (w\<lparr>batch := [], run_pc := Flushing\<rparr>) else None)"
| "writer_exec Fill w =
     (if run_pc w \<in> {Filling, Flushing} \<and> can_fill w
      then Some (w\<lparr>writes := tl (writes w), batch := batch w @ [hd (writes w)]\<rparr>)
      else None)"
| "writer_exec (EndBatch env) w =
     (if can_fill w then None
      else case run_pc w of
        Filling \<Rightarrow> Some (do_commit env w\<lparr>run_pc := Waiting\<rparr>)
      | Flushing \<Rightarrow> Some (if batch w = [] then w\<lparr>run_pc := Finished\<rparr> else do_commit env w)
      | _ \<Rightarrow> None)"

section \<open>Invariant: one queue, in order, nothing lost or duplicated\<close>

definition replay :: "(commit_env \<times> writeOp list) list \<Rightarrow> database \<Rightarrow> database" where
  "replay cs d = fold (\<lambda>(env, b) d. fst (commit env b d)) cs d"

definition writer_inv :: "database \<Rightarrow> writer \<Rightarrow> bool" where
  "writer_inv d0 w \<longleftrightarrow>
     accepted w = concat (map snd (committed w)) @ batch w @ writes w
     \<and> w_db w = replay (committed w) d0
     \<and> length (writes w) \<le> writeQueueSize \<and> length (batch w) \<le> maxBatchSize
     \<and> (\<forall>c \<in> set (committed w). snd c \<noteq> [] \<and> length (snd c) \<le> maxBatchSize)
     \<and> (run_pc w = Waiting \<longrightarrow> batch w = []) \<and> (run_pc w = Filling \<longrightarrow> batch w \<noteq> [])
     \<and> (run_pc w = Finished \<longrightarrow> batch w = []) \<and> (run_pc w \<in> {Flushing, Finished} \<longrightarrow> w_done w)"

lemma replay_snoc: "replay (cs @ [(env, b)]) d = fst (commit env b (replay cs d))"
  by (simp add: replay_def)

lemma writer_inv_start: "writer_inv d0 (newBatchWriter d0)"
  by (simp add: writer_inv_def newBatchWriter_def replay_def)

lemma writer_inv_step:
  assumes "writer_inv d0 w" "writer_exec l w = Some w'"
  shows "writer_inv d0 w'"
proof (cases l)
  case Receive
  then obtain op ops where "run_pc w = Waiting" "writes w = op # ops"
    "w' = w\<lparr>writes := ops, batch := [op], run_pc := Filling\<rparr>"
    using assms(2) by (simp split: run_state.splits list.splits)
  with assms(1) show ?thesis by (simp add: writer_inv_def maxBatchSize_def)
next
  case Fill
  then obtain op ops where "run_pc w = Filling \<or> run_pc w = Flushing" "length (batch w) < maxBatchSize"
    "writes w = op # ops" "w' = w\<lparr>writes := ops, batch := batch w @ [op]\<rparr>"
    using assms(2) by (auto simp: can_fill_def neq_Nil_conv split: if_splits)
  with assms(1) show ?thesis by (elim disjE) (simp_all add: writer_inv_def)
next
  case (EndBatch env)
  with assms show ?thesis
    by (auto simp: writer_inv_def do_commit_def replay_snoc split: if_splits run_state.splits)
next
  case (Enqueue op)
  then have "w' = (if w_done w then w\<lparr>rejected := rejected w @ [op]\<rparr> else w\<lparr>pending := pending w @ [op]\<rparr>)"
    using assms(2) by simp
  with assms(1) show ?thesis by (auto simp: writer_inv_def)
next
  case (SendOp i)
  then have "length (writes w) < writeQueueSize"
    "w' = w\<lparr>writes := writes w @ [pending w ! i], accepted := accepted w @ [pending w ! i],
            pending := drop_at i (pending w)\<rparr>"
    using assms(2) by (simp_all split: if_splits)
  with assms(1) show ?thesis by (simp add: writer_inv_def)
next
  case (RejectOp i)
  then have "w' = w\<lparr>rejected := rejected w @ [pending w ! i], pending := drop_at i (pending w)\<rparr>"
    using assms(2) by (simp split: if_splits)
  with assms(1) show ?thesis by (simp add: writer_inv_def)
next
  case CloseDone
  then have "w' = w\<lparr>w_done := True\<rparr>" using assms(2) by (simp split: if_splits)
  with assms(1) show ?thesis by (simp add: writer_inv_def)
next
  case SeeDone
  then have "run_pc w = Waiting" "w_done w" "w' = w\<lparr>batch := [], run_pc := Flushing\<rparr>"
    using assms(2) by (simp_all split: if_splits)
  with assms(1) show ?thesis by (simp add: writer_inv_def)
qed

section \<open>The writer goroutine makes progress\<close>

definition run_label :: "writer_label \<Rightarrow> bool" where
  "run_label l \<longleftrightarrow> l \<in> {Receive, SeeDone, Fill} \<or> (\<exists>env. l = EndBatch env)"

fun run_weight :: "run_state \<Rightarrow> nat" where
  "run_weight Waiting = 2" | "run_weight Filling = 2" | "run_weight Flushing = 1" | "run_weight Finished = 0"

definition run_work :: "writer \<Rightarrow> nat" where
  "run_work w = 4 * length (writes w) + 2 * length (batch w) + run_weight (run_pc w)"

definition run_idle :: "writer \<Rightarrow> bool" where
  "run_idle w \<longleftrightarrow> run_pc w = Finished \<or> run_pc w = Waiting \<and> writes w = [] \<and> \<not> w_done w"

lemma run_label_decreases:
  assumes "writer_inv d0 w" "run_label l" "writer_exec l w = Some w'"
  shows "run_work w' < run_work w"
proof (cases l)
  case Receive
  with assms(1,3) show ?thesis
    by (auto simp: run_work_def writer_inv_def split: run_state.splits list.splits)
next
  case Fill
  with assms(3) show ?thesis
    by (auto simp: run_work_def can_fill_def neq_Nil_conv split: if_splits)
next
  case (EndBatch env)
  with assms(1,3) show ?thesis
    by (auto simp: run_work_def writer_inv_def do_commit_def split: if_splits run_state.splits)
qed (use assms in \<open>auto simp: run_label_def run_work_def split: if_splits\<close>)

lemma run_label_enabled:
  assumes "writer_inv d0 w" "\<not> run_idle w"
  shows "\<exists>l w'. run_label l \<and> writer_exec l w = Some w'"
proof (cases "run_pc w")
  case Waiting
  show ?thesis
  proof (cases "writes w")
    case Nil
    with Waiting assms(2) have "writer_exec SeeDone w \<noteq> None" by (simp add: run_idle_def)
    then show ?thesis by (auto simp: run_label_def intro!: exI [of _ SeeDone])
  next
    case (Cons op ops)
    with Waiting have "writer_exec Receive w \<noteq> None" by simp
    then show ?thesis by (auto simp: run_label_def intro!: exI [of _ Receive])
  qed
next
  case Finished
  with assms(2) show ?thesis by (simp add: run_idle_def)
next
  case Filling
  then show ?thesis
    by (intro exI [of _ "if can_fill w then Fill else EndBatch undefined"]) (simp add: run_label_def)
next
  case Flushing
  then show ?thesis
    by (intro exI [of _ "if can_fill w then Fill else EndBatch undefined"]) (simp add: run_label_def)
qed

interpretation bw: progress_system writer_exec "\<lambda>w. w = newBatchWriter d0" "writer_inv d0" run_label run_work run_idle for d0
  by unfold_locales
     (simp_all add: writer_inv_start writer_inv_step run_label_decreases run_label_enabled[simplified])

section \<open>After \<open>Close\<close>\<close>

lemma replay_faultless:
  "\<forall>c \<in> set cs. faultless (fst c) \<and> env_now (fst c) = now \<Longrightarrow>
     replay cs d = exec_ops now (concat (map snd cs)) d"
proof (induction cs rule: rev_induct)
  case (snoc c cs)
  obtain env b where c: "c = (env, b)" by (cases c)
  with snoc show ?case by (simp add: replay_snoc commit_faultless exec_ops_append)
qed (simp add: replay_def)

text \<open>No caller can still send: none is between its two \<open>select\<close>s and new ones are refused.\<close>

definition closed_quietly :: "writer \<Rightarrow> bool" where
  "closed_quietly w \<longleftrightarrow> w_done w \<and> pending w = [] \<and> (run_pc w = Finished \<longrightarrow> writes w = [])"

lemma closed_quietly_step: "closed_quietly w \<Longrightarrow> writer_exec l w = Some w' \<Longrightarrow> closed_quietly w'"
proof (cases l)
  case Receive
  then show "closed_quietly w \<Longrightarrow> writer_exec l w = Some w' \<Longrightarrow> closed_quietly w'"
    by (auto simp: closed_quietly_def split: run_state.splits list.splits)
next
  case (EndBatch env)
  then show "closed_quietly w \<Longrightarrow> writer_exec l w = Some w' \<Longrightarrow> closed_quietly w'"
    by (cases "run_pc w") (auto simp: closed_quietly_def can_fill_def do_commit_def maxBatchSize_def split: if_splits)
qed (auto simp: closed_quietly_def split: if_splits)

lemma finished_step:
  assumes "run_pc w = Finished" "writer_exec l w = Some w'"
  shows "run_pc w' = Finished \<and> committed w' = committed w \<and> w_db w' = w_db w"
  using assms by (cases l) (simp_all split: if_splits, auto)

lemma finished_run:
  "run_pc w = Finished \<Longrightarrow> run writer_exec ls w = Some w' \<Longrightarrow> committed w' = committed w \<and> w_db w' = w_db w"
proof (induction ls arbitrary: w)
  case (Cons l ls)
  then obtain t where "writer_exec l w = Some t" "run writer_exec ls t = Some w'"
    by (cases "writer_exec l w") simp_all
  with finished_step[OF Cons.prems(1), of l t] Cons.IH[of t] show ?case by simp
qed simp

lemma done_step:
  assumes "w_done w" "writer_exec l w = Some w'"
  shows "w_done w'"
proof (cases l)
  case Receive
  with assms show ?thesis by (simp split: run_state.splits list.splits) auto
next
  case (EndBatch env)
  with assms show ?thesis by (cases "run_pc w") (auto simp: do_commit_def split: if_splits)
qed (use assms in \<open>auto split: if_splits\<close>)

section \<open>Properties\<close>

text \<open>
  C8: Under every interleaving of callers, writer and \<open>Close\<close>, the accepted writes are, in the
  order of their acceptance, those handed to \<open>commit\<close>, then the current batch, then the queue:
  none is lost, duplicated or reordered. The database is what committing those batches in
  order leaves; no batch is empty or larger than 2000 writes, and the queue never exceeds
  100000.
\<close>

theorem writes_are_fifo:
  assumes "reachable writer_exec (\<lambda>w. w = newBatchWriter d0) w"
  shows "accepted w = concat (map snd (committed w)) @ batch w @ writes w
         \<and> w_db w = replay (committed w) d0
         \<and> length (writes w) \<le> 100000
         \<and> (\<forall>c \<in> set (committed w). snd c \<noteq> [] \<and> length (snd c) \<le> 2000)"
  using bw.inv_reachable[OF assms] by (simp add: writer_inv_def writeQueueSize_def maxBatchSize_def)

definition no_faults :: commit_env where
  "no_faults = \<lparr>begin_ok = True, prepare_ok = (\<lambda>_. True), exec_ok = (\<lambda>_. True), commit_ok = True, env_now = 0\<rparr>"

lemma no_faults_faultless: "faultless no_faults" by (simp add: no_faults_def faultless_def)

definition two_write_schedule :: "writer_label list" where
  "two_write_schedule = [Enqueue (SetTotal 1 5), Enqueue (SetTotal 1 6), SendOp 1, Receive, SendOp 0, Fill, EndBatch no_faults]"

definition two_write_state :: writer where
  "two_write_state = (newBatchWriter empty_db)
     \<lparr>accepted := [SetTotal 1 6, SetTotal 1 5], committed := [(no_faults, [SetTotal 1 6, SetTotal 1 5])],
      w_db := fst (commit no_faults [SetTotal 1 6, SetTotal 1 5] empty_db)\<rparr>"

lemma two_write_run: "run writer_exec two_write_schedule (newBatchWriter empty_db) = Some two_write_state"
  by (simp add: two_write_schedule_def two_write_state_def newBatchWriter_def writeQueueSize_def
      maxBatchSize_def can_fill_def do_commit_def)

lemma two_write_reachable: "reachable writer_exec (\<lambda>w. w = newBatchWriter empty_db) two_write_state"
  using two_write_run by (intro reachable_from_start) auto

theorem writes_are_fifo_witness:
  "accepted two_write_state = concat (map snd (committed two_write_state)) @ batch two_write_state @ writes two_write_state
   \<and> length (accepted two_write_state) = 2"
  using writes_are_fifo[OF two_write_reachable] by (simp add: two_write_state_def)

text \<open>
  C17: \<open>Close\<close> flushes: if no call of \<open>enqueue\<close> is under way when \<open>done\<close> is closed, then when
  the writer has finished every accepted write has been committed and none is left, and without
  faults the database is the accepted writes applied in order.
\<close>

theorem close_flushes:
  assumes "reachable writer_exec (\<lambda>w. w = newBatchWriter d0) w" "pending w = []"
    and "run writer_exec (CloseDone # ls) w = Some w'" "run_pc w' = Finished"
  shows "accepted w' = concat (map snd (committed w')) \<and> writes w' = []
         \<and> ((\<forall>c \<in> set (committed w'). faultless (fst c) \<and> env_now (fst c) = now)
              \<longrightarrow> w_db w' = exec_ops now (accepted w') d0)"
proof -
  note inv = bw.inv_reachable[OF assms(1)]
  have close: "\<not> w_done w" "run writer_exec ls (w\<lparr>w_done := True\<rparr>) = Some w'"
    using assms(3) by (auto split: if_splits)
  have "run_pc w \<noteq> Finished" using inv close(1) by (auto simp: writer_inv_def)
  then have q: "closed_quietly (w\<lparr>w_done := True\<rparr>)" using assms(2) by (simp add: closed_quietly_def)
  from run_preserves[where P = closed_quietly, OF closed_quietly_step q close(2)] assms(4)
  have "writes w' = []" by (simp add: closed_quietly_def)
  moreover have "writer_inv d0 w'"
    using bw.inv_reachable[OF reachable_run[OF assms(3,1)]] .
  ultimately show ?thesis
    using assms(4) replay_faultless[of "committed w'" now d0] by (auto simp: writer_inv_def)
qed

lemma close_after_two:
  "run writer_exec [CloseDone, SeeDone, EndBatch no_faults] two_write_state
     = Some (two_write_state\<lparr>w_done := True, run_pc := Finished\<rparr>)"
  by (simp add: two_write_state_def newBatchWriter_def can_fill_def)

theorem close_flushes_witness:
  "w_db (two_write_state\<lparr>w_done := True, run_pc := Finished\<rparr>)
     = exec_ops 0 [SetTotal 1 6, SetTotal 1 5] empty_db"
  using close_flushes[OF two_write_reachable _ close_after_two, of 0]
  by (simp add: two_write_state_def newBatchWriter_def no_faults_faultless) (simp add: no_faults_def)

text \<open>
  \<open>Close\<close> returns: once \<open>done\<close> is closed the writer goroutine alone reaches its end from
  every reachable state, and however it is scheduled it takes at most four steps per queued
  write, two per batched one and two more.
\<close>

theorem close_returns:
  assumes "reachable writer_exec (\<lambda>w. w = newBatchWriter d0) w" "w_done w"
  shows "(\<exists>ls w'. (\<forall>l \<in> set ls. run_label l) \<and> run writer_exec ls w = Some w' \<and> run_pc w' = Finished)
         \<and> (\<forall>ls w'. (\<forall>l \<in> set ls. run_label l) \<and> run writer_exec ls w = Some w'
              \<longrightarrow> length ls \<le> 4 * length (writes w) + 2 * length (batch w) + 2)"
proof -
  note inv = bw.inv_reachable[OF assms(1)]
  obtain ls w' where ls: "\<forall>l \<in> set ls. run_label l" "run writer_exec ls w = Some w'" "run_idle w'"
    using bw.goal_reached[OF inv] by blast
  have "w_done w'"
    by (rule run_preserves[where P = w_done, OF done_step assms(2) ls(2)])
  with ls(3) have "run_pc w' = Finished" by (simp add: run_idle_def)
  moreover have "length ks \<le> 4 * length (writes w) + 2 * length (batch w) + 2"
    if "\<forall>l \<in> set ks. run_label l" "run writer_exec ks w = Some v" for ks v
  proof -
    have "run_weight (run_pc w) \<le> 2" by (cases "run_pc w") simp_all
    with bw.worker_run_bounded[OF inv that] show ?thesis by (simp add: run_work_def)
  qed
  ultimately show ?thesis using ls(1,2) by blast
qed

theorem close_returns_witness:
  "\<exists>ls w'. (\<forall>l \<in> set ls. run_label l) \<and> run writer_exec ls (two_write_state\<lparr>w_done := True\<rparr>) = Some w'
     \<and> run_pc w' = Finished"
proof -
  have "writer_exec CloseDone two_write_state = Some (two_write_state\<lparr>w_done := True\<rparr>)"
    by (simp add: two_write_state_def newBatchWriter_def)
  then have "reachable writer_exec (\<lambda>w. w = newBatchWriter empty_db) (two_write_state\<lparr>w_done := True\<rparr>)"
    by (rule reachable.step[OF two_write_reachable])
  from close_returns[OF this] show ?thesis by simp
qed

text \<open>
  The proviso of \<open>close_flushes\<close> is needed. A call that passed the first \<open>select\<close> before
  \<open>Close\<close> may send after the writer has finished: \<open>enqueue\<close> returns nil, and the write is in no
  batch ever committed.
\<close>

theorem accepted_write_lost:
  "\<exists>ls w. run writer_exec ls (newBatchWriter d) = Some w \<and> run_pc w = Finished
     \<and> accepted w = [op] \<and> committed w = []
     \<and> (\<forall>ks v. run writer_exec ks w = Some v \<longrightarrow> committed v = [] \<and> w_db v = d)"
proof -
  let ?ls = "[Enqueue op, CloseDone, SeeDone, EndBatch no_faults, SendOp 0]"
  let ?w = "(newBatchWriter d)\<lparr>w_done := True, run_pc := Finished, writes := [op], accepted := [op]\<rparr>"
  have "run writer_exec ?ls (newBatchWriter d) = Some ?w"
    by (simp add: newBatchWriter_def can_fill_def writeQueueSize_def)
  moreover have "committed v = [] \<and> w_db v = d" if "run writer_exec ks ?w = Some v" for ks v
    using finished_run[OF _ that] by (simp add: newBatchWriter_def)
  ultimately show ?thesis
    by (intro exI [of _ ?ls] exI [of _ ?w]) (simp add: newBatchWriter_def)
qed

theorem accepted_write_lost_witness:
  "\<exists>ls w. run writer_exec ls (newBatchWriter empty_db) = Some w \<and> run_pc w = Finished
     \<and> accepted w = [SetTotal 1 1] \<and> committed w = []"
  using accepted_write_lost[of empty_db "SetTotal 1 1"] by blast

end
