(* ===== verification/Log_View.thy ===== *)
theory Log_View
  imports Lifecycle Batch_Writer
begin

text \<open>
  What one connection has in the request log, apart from row ids and creation times, which
  depend on what else is committed: it is a function of that connection's own writes, in their
  order, however the batch writer mixes them with others and cuts them into transactions.
\<close>

section \<open>Rows of one connection\<close>

definition anonymous :: "log_row \<Rightarrow> log_row" where
  "anonymous r = r\<lparr>lr_id := 0, lr_created_at := 0\<rparr>"

definition conn_rows :: "string \<Rightarrow> database \<Rightarrow> log_row list" where
  "conn_rows cid d = map anonymous (filter (\<lambda>r. lr_connection_id r = cid) (request_log d))"

fun rows_after :: "writeOp \<Rightarrow> log_row list \<Rightarrow> log_row list" where
  "rows_after (UpdateResponse ref conn mti t1 t2 ms code auth) rows =
     map (\<lambda>r. if unanswered ref conn mti r then answer_row t1 t2 ms code auth r else r) rows"
| "rows_after (DeleteLog ref conn mti) rows = filter (\<lambda>r. \<not> unanswered ref conn mti r) rows"
| "rows_after (InsertLog e) rows = rows @ [new_log_row 0 0 e]"
| "rows_after _ rows = rows"

lemma anonymous_simps [simp]:
  "unanswered ref conn mti (anonymous r) = unanswered ref conn mti r"
  "anonymous (answer_row t1 t2 ms code auth r) = answer_row t1 t2 ms code auth (anonymous r)"
  "anonymous (new_log_row i now e) = new_log_row 0 0 e"
  "lr_connection_id (anonymous r) = lr_connection_id r" "lr_reference (anonymous r) = lr_reference r"
  "lr_time_taken (anonymous r) = lr_time_taken r" "lr_mti (anonymous r) = lr_mti r"
  by (simp_all add: anonymous_def unanswered_def answer_row_def new_log_row_def)

lemma unanswered_conn: "unanswered ref conn mti r \<Longrightarrow> lr_connection_id r = conn"
  by (simp add: unanswered_def)

lemma conn_rows_update:
  "map anonymous (filter (\<lambda>r. lr_connection_id r = cid)
      (map (\<lambda>r. if unanswered ref conn mti r then answer_row t1 t2 ms code auth r else r) rows))
   = map (\<lambda>r. if unanswered ref conn mti r then answer_row t1 t2 ms code auth r else r)
       (map anonymous (filter (\<lambda>r. lr_connection_id r = cid) rows))"
  by (induction rows) auto

lemma conn_rows_delete:
  "map anonymous (filter (\<lambda>r. lr_connection_id r = cid) (filter (\<lambda>r. \<not> unanswered ref conn mti r) rows))
   = filter (\<lambda>r. \<not> unanswered ref conn mti r) (map anonymous (filter (\<lambda>r. lr_connection_id r = cid) rows))"
  by (induction rows) auto

lemma rows_after_other:
  assumes "op_conn op \<noteq> Some cid" "\<forall>r \<in> set rows. lr_connection_id r = cid" "\<forall>e. op \<noteq> InsertLog e"
  shows "rows_after op rows = rows"
  using assms
  by (cases op) (auto simp: op_conn_def unanswered_def intro!: map_idI filter_True)

lemma conn_rows_step:
  "conn_rows cid (fst (exec_op now op d)) =
     (if op_conn op = Some cid then rows_after op (conn_rows cid d) else conn_rows cid d)"
proof (cases op)
  case (UpdateResponse ref conn mti t1 t2 ms code auth)
  then have "conn_rows cid (fst (exec_op now op d)) = rows_after op (conn_rows cid d)"
    by (simp add: conn_rows_def conn_rows_update del: map_map)
  then show ?thesis using rows_after_other[of op cid "conn_rows cid d"] UpdateResponse
    by (auto simp: conn_rows_def)
next
  case (DeleteLog ref conn mti)
  then have "conn_rows cid (fst (exec_op now op d)) = rows_after op (conn_rows cid d)"
    by (simp only: conn_rows_def exec_op.simps rows_after.simps fst_conv conn_rows_delete database.simps)
       (simp add: conn_rows_delete del: map_map filter_filter)
  then show ?thesis using rows_after_other[of op cid "conn_rows cid d"] DeleteLog
    by (auto simp: conn_rows_def)
qed (auto simp: conn_rows_def op_conn_def Let_def)

lemma conn_rows_ops:
  "conn_rows cid (exec_ops now ops d) = fold rows_after (filter (\<lambda>op. op_conn op = Some cid) ops) (conn_rows cid d)"
  by (induction ops arbitrary: d) (simp_all add: conn_rows_step)

lemma conn_rows_replay:
  "\<forall>c \<in> set cs. faultless (fst c) \<Longrightarrow>
     conn_rows cid (replay cs d) = fold rows_after (filter (\<lambda>op. op_conn op = Some cid) (concat (map snd cs))) (conn_rows cid d)"
proof (induction cs rule: rev_induct)
  case (snoc c cs)
  obtain env b where c: "c = (env, b)" by (cases c)
  with snoc show ?case by (simp add: replay_snoc commit_faultless conn_rows_ops)
qed (simp add: replay_def)

lemma rows_open_view:
  "map lr_mti (rows_open cid r d) = map lr_mti (filter (\<lambda>x. lr_reference x = r \<and> lr_time_taken x = None) (conn_rows cid d))"
  by (simp add: rows_open_def conn_rows_def filter_map comp_def filter_filter conj_ac)

end
