(* ===== verification/Server.thy ===== *)
theory Server
  imports Steps Go_Strings "HOL-Library.Char_ord" "HOL-Library.List_Lexorder"
begin

text \<open>
  The server of \<open>network/server/iso_server.go\<close>: admission of a client, the table of connected
  clients under its lock, \<open>Close\<close> with its \<open>onClose\<close> callback, \<open>Stop\<close>, and the choice of the
  nodes a test step goes to. A connection is its index in \<open>conns\<close>, as a pointer is its address.
\<close>

section \<open>Admission\<close>

text \<open>What \<open>HandleNewConnect\<close> learns from the TLS library and \<open>rand.Intn(100)\<close>: the common names
  of the peer's certificates, the client's own first.\<close>

record incoming =
  in_remote :: string
  in_tls :: bool
  in_handshake :: bool
  in_roll :: int
  in_names :: "string list"

definition validateClient :: "string list \<Rightarrow> string \<Rightarrow> (string, unit) result" where
  "validateClient names expectedCN =
     (case names of
        [] \<Rightarrow> fail ''no client certificate presented''
      | cn # _ \<Rightarrow> if cn \<noteq> expectedCN then fail (''invalid client Common name: '' @ cn) else Ok ())"

text \<open>Whether the connection is registered; otherwise its socket is closed.\<close>

definition admitted :: "string \<Rightarrow> incoming \<Rightarrow> bool" where
  "admitted expectedCN q \<longleftrightarrow>
     (if \<not> in_tls q then False
      else if \<not> in_handshake q then False
      else if in_roll q < 8 then False
      else case validateClient (in_names q) expectedCN of Inl _ \<Rightarrow> False | Inr _ \<Rightarrow> True)"

section \<open>State\<close>

text \<open>\<open>cs_closed\<close>: \<open>closeOnce\<close> has closed the channel and the socket; \<open>cs_removed\<close>: \<open>onClose\<close> has
  run and \<open>Close\<close> returns.\<close>

record conn_state =
  cs_remote :: string
  cs_closed :: bool
  cs_removed :: bool

record IsoServer =
  expected_cn :: string
  listener :: "bool option" \<comment> \<open>nil, open or closed\<close>
  connMap :: "string \<rightharpoonup> nat"
  conns :: "conn_state list"
  handshakes :: "incoming list" \<comment> \<open>running \<open>HandleNewConnect\<close>\<close>
  stop_begun :: bool \<comment> \<open>\<open>Stop\<close> has dealt with the listener\<close>
  stop_snapshot :: "nat list" \<comment> \<open>what \<open>Stop\<close> read from \<open>connections\<close>\<close>
  stop_todo :: "nat list option"

definition NewIsoServer :: "string \<Rightarrow> IsoServer" where
  "NewIsoServer cn =
     \<lparr>expected_cn = cn, listener = None, connMap = Map.empty, conns = [], handshakes = [],
      stop_begun = False, stop_snapshot = [], stop_todo = None\<rparr>"

section \<open>Operations under the lock\<close>

definition getConn :: "IsoServer \<Rightarrow> string \<Rightarrow> nat option" where
  "getConn s clientId = connMap s clientId"

definition removeConn :: "string \<Rightarrow> nat \<Rightarrow> IsoServer \<Rightarrow> IsoServer" where
  "removeConn clientId i s =
     (if connMap s clientId = Some i then s\<lparr>connMap := (connMap s)(clientId := None)\<rparr> else s)"

text \<open>Ranging over a Go map gives the keys in some order, the parameter \<open>ids\<close>.\<close>

definition key_order :: "IsoServer \<Rightarrow> string list \<Rightarrow> bool" where
  "key_order s ids \<longleftrightarrow> distinct ids \<and> set ids = dom (connMap s)"

definition connections :: "IsoServer \<Rightarrow> string list \<Rightarrow> nat list" where
  "connections s ids = map (\<lambda>k. the (connMap s k)) (sort ids)"

definition GetConnectedClients :: "string list \<Rightarrow> string list" where
  "GetConnectedClients ids = filter (\<lambda>k. 0 < length k) ids"

definition HandleNewConnect :: "incoming \<Rightarrow> IsoServer \<Rightarrow> IsoServer" where
  "HandleNewConnect q s =
     (if admitted (expected_cn s) q
      then s\<lparr>conns := conns s @ [\<lparr>cs_remote = in_remote q, cs_closed = False, cs_removed = False\<rparr>],
             connMap := (connMap s)(in_remote q \<mapsto> length (conns s))\<rparr>
      else s)"

section \<open>Steps\<close>

datatype server_label =
    Listen \<comment> \<open>\<open>StartListen\<close> opens the listener\<close>
  | Accept incoming
  | Handshake nat
  | BeginClose nat \<comment> \<open>first call of \<open>Close\<close>: channel and socket\<close>
  | OnClose nat \<comment> \<open>its \<open>removeConn\<close>\<close>
  | StopListener
  | StopSnapshot "string list"
  | StopNext \<comment> \<open>\<open>Close\<close> of the next connection has returned\<close>

fun server_exec :: "server_label \<Rightarrow> IsoServer \<Rightarrow> IsoServer option" where
  "server_exec Listen s = (if listener s = None then Some (s\<lparr>listener := Some True\<rparr>) else None)"
| "server_exec (Accept q) s =
     (if listener s = Some True then Some (s\<lparr>handshakes := handshakes s @ [q]\<rparr>) else None)"
| "server_exec (Handshake j) s =
     (if j < length (handshakes s)
      then Some (HandleNewConnect (handshakes s ! j) s\<lparr>handshakes := drop_at j (handshakes s)\<rparr>)
      else None)"
| "server_exec (BeginClose i) s =
     (if i < length (conns s) \<and> \<not> cs_closed (conns s ! i)
      then Some (s\<lparr>conns := (conns s)[i := (conns s ! i)\<lparr>cs_closed := True\<rparr>]\<rparr>) else None)"
| "server_exec (OnClose i) s =
     (if i < length (conns s) \<and> cs_closed (conns s ! i) \<and> \<not> cs_removed (conns s ! i)
      then Some (removeConn (cs_remote (conns s ! i)) i s
                   \<lparr>conns := (conns s)[i := (conns s ! i)\<lparr>cs_removed := True\<rparr>]\<rparr>)
      else None)"
| "server_exec StopListener s =
     (if stop_begun s then None
      else Some (s\<lparr>listener := map_option (\<lambda>_. False) (listener s), stop_begun := True\<rparr>))"
| "server_exec (StopSnapshot ids) s =
     (if stop_begun s \<and> stop_todo s = None \<and> key_order s ids
      then Some (s\<lparr>stop_snapshot := connections s ids, stop_todo := Some (connections s ids)\<rparr>) else None)"
| "server_exec StopNext s =
     (case stop_todo s of
        Some (i # is) \<Rightarrow> if cs_removed (conns s ! i) then Some (s\<lparr>stop_todo := Some is\<rparr>) else None
      | _ \<Rightarrow> None)"

section \<open>The table holds the latest connection of each client\<close>

fun latest :: "string \<Rightarrow> conn_state list \<Rightarrow> nat option" where
  "latest k [] = None"
| "latest k (c # cs) =
     (case latest k cs of Some i \<Rightarrow> Some (Suc i) | None \<Rightarrow> if cs_remote c = k then Some 0 else None)"

definition current :: "string \<Rightarrow> conn_state list \<Rightarrow> nat option" where
  "current k cs = (case latest k cs of None \<Rightarrow> None | Some i \<Rightarrow> if cs_removed (cs ! i) then None else Some i)"

lemma latest_snoc:
  "latest k (cs @ [c]) = (if cs_remote c = k then Some (length cs) else latest k cs)"
  by (induction cs) (auto split: option.splits)

lemma latest_SomeD: "latest k cs = Some i \<Longrightarrow> i < length cs \<and> cs_remote (cs ! i) = k"
  by (induction cs arbitrary: i) (auto split: option.splits if_splits simp: nth_Cons')

lemma latest_cong: "map cs_remote cs = map cs_remote ds \<Longrightarrow> latest k cs = latest k ds"
proof (induction cs arbitrary: ds)
  case (Cons c cs)
  then obtain d es where "ds = d # es" "cs_remote c = cs_remote d" "map cs_remote cs = map cs_remote es" by (cases ds) auto
  with Cons.IH[of es] show ?case by simp
qed simp

lemma map_remote_update:
  assumes "cs_remote x = cs_remote (cs ! i)"
  shows "map cs_remote (cs[i := x]) = map cs_remote cs"
proof (cases "i < length cs")
  case True
  with assms have "map cs_remote (cs[i := x]) = (map cs_remote cs)[i := map cs_remote cs ! i]"
    by (simp add: map_update)
  then show ?thesis by (simp only: list_update_id)
qed (simp add: list_update_beyond)

definition server_inv :: "IsoServer \<Rightarrow> bool" where
  "server_inv s \<longleftrightarrow>
     (\<forall>k. connMap s k = current k (conns s))
     \<and> (\<forall>c \<in> set (conns s). cs_removed c \<longrightarrow> cs_closed c)
     \<and> set (stop_snapshot s) \<subseteq> {..<length (conns s)}
     \<and> (case stop_todo s of None \<Rightarrow> True
        | Some is \<Rightarrow> set is \<subseteq> set (stop_snapshot s)
            \<and> (\<forall>i \<in> set (stop_snapshot s). i \<in> set is \<or> cs_removed (conns s ! i)))"

lemma current_snoc:
  "current k (cs @ [\<lparr>cs_remote = r, cs_closed = False, cs_removed = False\<rparr>])
     = (if r = k then Some (length cs) else current k cs)"
  by (auto simp: current_def latest_snoc nth_append split: option.splits dest: latest_SomeD)

lemma current_close:
  "i < length cs \<Longrightarrow> current k (cs[i := (cs ! i)\<lparr>cs_closed := b\<rparr>]) = current k cs"
  using latest_cong[OF map_remote_update[of "(cs ! i)\<lparr>cs_closed := b\<rparr>" cs i], of k]
  by (auto simp: current_def nth_list_update split: option.splits)

lemma current_remove:
  "i < length cs \<Longrightarrow> current k (cs[i := (cs ! i)\<lparr>cs_removed := True\<rparr>])
     = (if current k cs = Some i then None else current k cs)"
  using latest_cong[OF map_remote_update[of "(cs ! i)\<lparr>cs_removed := True\<rparr>" cs i], of k]
  by (auto simp: current_def nth_list_update split: option.splits)

lemma current_remote: "current k cs = Some i \<Longrightarrow> i < length cs \<and> cs_remote (cs ! i) = k"
  by (auto simp: current_def dest: latest_SomeD split: option.splits if_splits)

lemma connections_current:
  assumes "server_inv s" "key_order s ids"
  shows "set (connections s ids) = {i. \<exists>k. current k (conns s) = Some i}"
  using assms by (force simp: connections_def key_order_def server_inv_def dom_def image_iff)

lemma server_inv_step:
  assumes inv: "server_inv s" and x: "server_exec l s = Some s'"
  shows "server_inv s'"
proof (cases l)
  case (Handshake j)
  show ?thesis
  proof (cases "admitted (expected_cn s) (handshakes s ! j)")
    case True
    let ?k = "in_remote (handshakes s ! j)"
    from True x Handshake have s': "s' = s\<lparr>conns := conns s @ [\<lparr>cs_remote = ?k, cs_closed = False, cs_removed = False\<rparr>],
        connMap := (connMap s)(?k \<mapsto> length (conns s)), handshakes := drop_at j (handshakes s)\<rparr>"
      by (simp add: HandleNewConnect_def split: if_splits)
    show ?thesis
      unfolding server_inv_def s'
      using inv by (auto simp: server_inv_def current_snoc nth_append subset_iff split: option.splits)
  qed (use inv x Handshake in \<open>auto simp: HandleNewConnect_def server_inv_def split: if_splits option.splits\<close>)
next
  case (BeginClose i)
  with x have s': "i < length (conns s)" "s' = s\<lparr>conns := (conns s)[i := (conns s ! i)\<lparr>cs_closed := True\<rparr>]\<rparr>"
    by (auto split: if_splits)
  show ?thesis
    unfolding server_inv_def s'(2)
    using inv s'(1)
    by (auto simp: server_inv_def current_close nth_list_update dest!: set_update_subset_insert[THEN subsetD] split: option.splits)
next
  case (OnClose i)
  let ?k = "cs_remote (conns s ! i)" and ?cs = "(conns s)[i := (conns s ! i)\<lparr>cs_removed := True\<rparr>]"
  from x OnClose have i: "i < length (conns s)" "cs_closed (conns s ! i)"
    and s': "s' = removeConn ?k i s\<lparr>conns := ?cs\<rparr>"
    by (auto split: if_splits)
  have m: "connMap (removeConn ?k i s) k = current k ?cs" for k
  proof -
    have c: "connMap s k' = current k' (conns s)" for k' using inv by (simp add: server_inv_def)
    show ?thesis
    proof (cases "current k (conns s) = Some i")
      case True
      then have "?k = k" using current_remote by blast
      with True show ?thesis by (simp add: removeConn_def c current_remove[OF i(1)])
    next
      case False
      then show ?thesis by (auto simp: removeConn_def c current_remove[OF i(1)])
    qed
  qed
  have r: "stop_snapshot (removeConn ?k i s) = stop_snapshot s" "stop_todo (removeConn ?k i s) = stop_todo s"
    by (simp_all add: removeConn_def)
  show ?thesis
    unfolding server_inv_def s'
    using inv i m r
    by (auto simp: server_inv_def nth_list_update dest!: set_update_subset_insert[THEN subsetD] split: option.splits)
next
  case (StopSnapshot ids)
  with x have s': "key_order s ids" "s' = s\<lparr>stop_snapshot := connections s ids, stop_todo := Some (connections s ids)\<rparr>"
    by (auto split: if_splits)
  show ?thesis
    using inv connections_current[OF inv s'(1)] current_remote by (auto simp: server_inv_def s'(2))
next
  case StopNext
  with x obtain i "is" where t: "stop_todo s = Some (i # is)" "cs_removed (conns s ! i)" "s' = s\<lparr>stop_todo := Some is\<rparr>"
    by (auto split: option.splits list.splits if_splits)
  show ?thesis unfolding server_inv_def t(3) using inv t by (auto simp: server_inv_def)
qed (use inv x in \<open>auto simp: server_inv_def split: if_splits option.splits\<close>)

lemma server_inv_start: "server_inv (NewIsoServer cn)"
  by (simp add: server_inv_def NewIsoServer_def current_def)

interpretation registry: invariant_system server_exec "\<lambda>s. s = NewIsoServer cn" server_inv for cn
  by unfold_locales (auto intro: server_inv_start server_inv_step)

section \<open>Nodes of a test step\<close>

definition NodeTestModeAdvertised :: string where "NodeTestModeAdvertised = ''advertised''"
definition NodeTestModeRoundRobin :: string where "NodeTestModeRoundRobin = ''round_robin''"

text \<open>The targets and the new \<open>*next\<close>; \<open>%\<close> keeps the sign of its left operand.\<close>

definition nodeTargets :: "string \<Rightarrow> 'c list \<Rightarrow> int \<Rightarrow> (string, 'c list \<times> int) result" where
  "nodeTargets mode cs pos =
     (if mode \<noteq> NodeTestModeRoundRobin \<or> cs = [] then Ok (cs, pos)
      else
        let i = sgn pos * (\<bar>pos\<bar> mod int (length cs)) in
        bindR (go_slice cs i (i + 1)) (\<lambda>t. Ok (t, wrap64 (pos + 1))))"

fun step_targets :: "nat \<Rightarrow> string \<Rightarrow> 'c list \<Rightarrow> int \<Rightarrow> (string, 'c list list) result" where
  "step_targets 0 mode cs pos = Ok []"
| "step_targets (Suc n) mode cs pos =
     bindR (nodeTargets mode cs pos) (\<lambda>(t, pos'). bindR (step_targets n mode cs pos') (\<lambda>ts. Ok (t # ts)))"

lemma nodeTargets_eval:
  assumes "0 \<le> pos" "pos < 2 ^ 63 - 1" "cs \<noteq> []"
  shows "nodeTargets NodeTestModeRoundRobin cs pos = Ok ([cs ! (nat pos mod length cs)], pos + 1)"
proof -
  let ?i = "nat pos mod length cs"
  have l: "?i < length cs" using assms(3) by simp
  have i: "sgn pos * (\<bar>pos\<bar> mod int (length cs)) = int ?i"
    using assms(1) by (cases "pos = 0") (simp_all add: of_nat_mod)
  have "take 1 (drop ?i cs) = [cs ! ?i]" using l by (metis Cons_nth_drop_Suc One_nat_def take0 take_Suc_Cons)
  then have "(go_slice cs (int ?i) (int ?i + 1) :: (string, 'a list) result) = Ok [cs ! ?i]"
    using l by (simp add: go_slice_def)
  moreover have "wrap64 (pos + 1) = pos + 1" using assms by (intro wrap64_small) simp_all
  ultimately show ?thesis
    using assms(3) unfolding nodeTargets_def i by (simp add: Let_def)
qed

lemma step_targets_round_robin:
  "0 \<le> pos \<Longrightarrow> pos + int n < 2 ^ 63 \<Longrightarrow> cs \<noteq> [] \<Longrightarrow>
     step_targets n NodeTestModeRoundRobin cs pos = Ok (map (\<lambda>i. [cs ! ((nat pos + i) mod length cs)]) [0..<n])"
proof (induction n arbitrary: pos)
  case (Suc n)
  have "[0..<Suc n] = 0 # map Suc [0..<n]" by (simp add: map_Suc_upt upt_conv_Cons)
  with Suc show ?case by (simp add: nodeTargets_eval nat_add_distrib)
qed simp

lemma step_targets_advertised:
  "mode \<noteq> NodeTestModeRoundRobin \<Longrightarrow> step_targets n mode cs pos = Ok (replicate n cs)"
  by (induction n arbitrary: pos) (simp_all add: nodeTargets_def)

text \<open>How often a residue occurs in a row of numbers.\<close>

lemma residue_count:
  assumes "0 < k" "j < k"
  shows "length (filter (\<lambda>i. (p + i) mod k = j) [0..<n]) = (n + (p + k - 1 - j) mod k) div k"
proof (induction n)
  case (Suc n)
  let ?r = "(p + k - 1 - j) mod k"
  have "(p + n) mod k = j \<longleftrightarrow> (Suc n + ?r) mod k = 0"
  proof -
    have "(Suc n + ?r) mod k = (p + n + (k - j)) mod k"
    proof -
      have "Suc n + (p + k - 1 - j) = p + n + (k - j)" using assms by simp
      then show ?thesis by (metis mod_add_right_eq)
    qed
    also have "\<dots> = 0 \<longleftrightarrow> (p + n) mod k = j"
    proof -
      have "(p + n + (k - j)) mod k = ((p + n) mod k + (k - j)) mod k" by (simp add: mod_simps)
      moreover have "(x + (k - j)) mod k = 0 \<longleftrightarrow> x = j" if x: "x < k" for x
      proof (cases "x < j")
        case True
        then have "x + (k - j) < k" "x + (k - j) \<noteq> 0" using assms by simp_all
        then have "(x + (k - j)) mod k \<noteq> 0" by simp
        then show ?thesis using True by blast
      next
        case False
        then have eq: "x + (k - j) = (x - j) + k" using assms by simp
        have "(x + (k - j)) mod k = x - j" unfolding eq using x by (subst mod_add_self2) simp
        then show ?thesis using False by auto
      qed
      moreover have "(p + n) mod k < k" using assms by simp
      ultimately show ?thesis by metis
    qed
    finally show ?thesis by simp
  qed
  then show ?case using Suc assms(1) by (simp add: div_Suc)
qed (use assms in simp)

section \<open>Message counters\<close>

text \<open>\<open>message_stats.go\<close>: a goroutine adds one, the reporter swaps the counter with 0 and logs it
  when it is positive.\<close>

datatype counter_label = Add | Swap

record counter =
  cur :: int
  reported :: "int list"

fun counter_exec :: "counter_label \<Rightarrow> counter \<Rightarrow> counter option" where
  "counter_exec Add c = Some (c\<lparr>cur := wrap64 (cur c + 1)\<rparr>)"
| "counter_exec Swap c = Some (c\<lparr>cur := 0, reported := (if 0 < cur c then reported c @ [cur c] else reported c)\<rparr>)"

lemma counter_run:
  "run counter_exec ls c = Some c' \<Longrightarrow> 0 \<le> cur c \<Longrightarrow> cur c + int (length ls) < 2 ^ 63 \<Longrightarrow>
     sum_list (reported c') + cur c' = sum_list (reported c) + cur c + int (length (filter (\<lambda>l. l = Add) ls))"
proof (induction ls arbitrary: c)
  case (Cons l ls)
  show ?case
  proof (cases l)
    case Add
    with Cons.prems have "wrap64 (cur c + 1) = cur c + 1" by (intro wrap64_small) simp_all
    with Add Cons.prems Cons.IH[of "c\<lparr>cur := cur c + 1\<rparr>"] show ?thesis by simp
  next
    case Swap
    with Cons.prems Cons.IH[of "c\<lparr>cur := 0, reported := (if 0 < cur c then reported c @ [cur c] else reported c)\<rparr>"]
    show ?thesis by (auto split: if_splits)
  qed
qed simp

section \<open>Properties\<close>

text \<open>
  C21: However registrations, closes and a stop interleave, looking a client up gives the
  connection registered last under its address, unless that one has been closed and removed:
  the late removal of an old connection never drops its successor.
\<close>

theorem registry_is_current:
  assumes "reachable server_exec (\<lambda>s. s = NewIsoServer cn) s"
  shows "getConn s k = (case latest k (conns s) of None \<Rightarrow> None
                        | Some i \<Rightarrow> if cs_removed (conns s ! i) then None else Some i)"
  using registry.inv_reachable[OF assms] by (simp add: getConn_def server_inv_def current_def)

definition client :: "string \<Rightarrow> incoming" where
  "client r = \<lparr>in_remote = r, in_tls = True, in_handshake = True, in_roll = 50, in_names = [''photon-client'']\<rparr>"

text \<open>A client reconnects from the same address before its old connection is removed.\<close>

definition reconnect_schedule :: "server_label list" where
  "reconnect_schedule = [Listen, Accept (client ''a''), Handshake 0, BeginClose 0, Accept (client ''a''), Handshake 0, OnClose 0]"

definition reconnected :: IsoServer where
  "reconnected = (NewIsoServer ''photon-client'')
     \<lparr>listener := Some True, connMap := [''a'' \<mapsto> 1],
      conns := [\<lparr>cs_remote = ''a'', cs_closed = True, cs_removed = True\<rparr>,
                \<lparr>cs_remote = ''a'', cs_closed = False, cs_removed = False\<rparr>]\<rparr>"

lemma reconnect_run: "run server_exec reconnect_schedule (NewIsoServer ''photon-client'') = Some reconnected"
  by (simp add: reconnect_schedule_def reconnected_def NewIsoServer_def HandleNewConnect_def admitted_def
      client_def validateClient_def removeConn_def)

theorem registry_is_current_witness: "getConn reconnected ''a'' = Some 1"
  using registry_is_current[OF reachable_from_start[of "\<lambda>s. s = NewIsoServer ''photon-client''", OF refl reconnect_run], of "''a''"]
  by (simp add: reconnected_def)

text \<open>
  A client is registered exactly when it speaks TLS, its handshake succeeds, the simulated
  disconnect does not strike and its own certificate carries the expected name; any other
  leaves the table and the connections as they were.
\<close>

theorem admission:
  "(HandleNewConnect q s \<noteq> s \<longleftrightarrow> admitted (expected_cn s) q)
   \<and> (admitted cn q \<longleftrightarrow> in_tls q \<and> in_handshake q \<and> 8 \<le> in_roll q \<and> (\<exists>names. in_names q = cn # names))
   \<and> (admitted (expected_cn s) q \<longrightarrow> getConn (HandleNewConnect q s) (in_remote q) = Some (length (conns s))
        \<and> (\<forall>k. k \<noteq> in_remote q \<longrightarrow> getConn (HandleNewConnect q s) k = getConn s k))"
proof -
  have "conns (HandleNewConnect q s) \<noteq> conns s" if "admitted (expected_cn s) q"
    using that by (simp add: HandleNewConnect_def)
  then have "HandleNewConnect q s \<noteq> s \<longleftrightarrow> admitted (expected_cn s) q"
    by (metis HandleNewConnect_def)
  then show ?thesis
    by (auto simp: HandleNewConnect_def getConn_def admitted_def validateClient_def split: list.splits if_splits)
qed

theorem admission_witness:
  "getConn (HandleNewConnect (client ''a'') (NewIsoServer ''photon-client'')) ''a'' = Some 0"
  using admission[of "client ''a''" "NewIsoServer ''photon-client''"]
  by (simp add: client_def NewIsoServer_def admitted_def validateClient_def)

text \<open>
  The connections of a test tick do not depend on the iteration order of the map: each
  connected client occurs once, in the order of client ids. When \<open>Stop\<close> has returned, every
  connection it found connected is closed and removed.
\<close>

theorem stop_closes_snapshot:
  assumes "reachable server_exec (\<lambda>s. s = NewIsoServer cn) s"
  shows "(key_order s ids \<and> key_order s ids' \<longrightarrow> connections s ids = connections s ids'
            \<and> set (connections s ids) = ran (connMap s) \<and> distinct (connections s ids)
            \<and> sorted (map (\<lambda>i. cs_remote (conns s ! i)) (connections s ids)))
         \<and> (stop_todo s = Some [] \<longrightarrow> (\<forall>i \<in> set (stop_snapshot s). cs_removed (conns s ! i) \<and> cs_closed (conns s ! i)))"
proof -
  have inv: "server_inv s" using registry.inv_reachable[OF assms] .
  have addr: "cs_remote (conns s ! the (connMap s k)) = k" if "k \<in> dom (connMap s)" for k
    using inv that current_remote[of k "conns s"] by (auto simp: server_inv_def)
  have order: "connections s ids = connections s ids' \<and> set (connections s ids) = ran (connMap s)
      \<and> distinct (connections s ids) \<and> sorted (map (\<lambda>i. cs_remote (conns s ! i)) (connections s ids))"
    if k: "key_order s ids" "key_order s ids'"
  proof (intro conjI)
    have "sort ids = sort ids'"
      using k unfolding key_order_def by (metis sorted_list_of_set_sort_remdups distinct_remdups_id)
    then show "connections s ids = connections s ids'" by (simp add: connections_def)
    show "set (connections s ids) = ran (connMap s)"
      using k(1) by (force simp: connections_def key_order_def ran_def dom_def image_iff)
    have m: "map (\<lambda>i. cs_remote (conns s ! i)) (connections s ids) = sort ids"
      using addr k(1) by (auto simp: connections_def key_order_def intro!: map_idI)
    then show "sorted (map (\<lambda>i. cs_remote (conns s ! i)) (connections s ids))" by simp
    show "distinct (connections s ids)"
      using k(1) m by (metis distinct_map distinct_sort key_order_def)
  qed
  then show ?thesis using inv by (auto simp: server_inv_def subset_iff)
qed

theorem stop_closes_snapshot_witness:
  "connections reconnected [''a''] = [1] \<and> distinct (connections reconnected [''a''])"
proof -
  have "key_order reconnected [''a'']" by (simp add: key_order_def reconnected_def)
  with stop_closes_snapshot[OF reachable_from_start[of "\<lambda>s. s = NewIsoServer ''photon-client''", OF refl reconnect_run],
      of "[''a'']" "[''a'']"]
  show ?thesis by (simp add: connections_def reconnected_def)
qed

text \<open>
  \<open>Stop\<close> does not wait for handshakes: a client accepted before the listener closed can
  register after \<open>Stop\<close> took its snapshot, and is still connected, its socket open, when
  \<open>Stop\<close> has returned.
\<close>

theorem stop_misses_late_handshake:
  assumes "admitted cn q"
  shows "\<exists>s. run server_exec [Listen, Accept q, StopListener, StopSnapshot [], Handshake 0] (NewIsoServer cn) = Some s
           \<and> listener s = Some False \<and> stop_todo s = Some [] \<and> getConn s (in_remote q) = Some 0
           \<and> \<not> cs_closed (conns s ! 0)"
  using assms by (simp add: NewIsoServer_def key_order_def connections_def HandleNewConnect_def getConn_def)

theorem stop_misses_late_handshake_witness:
  "\<exists>s ls. run server_exec ls (NewIsoServer ''photon-client'') = Some s \<and> stop_todo s = Some []
     \<and> getConn s ''a'' = Some 0 \<and> \<not> cs_closed (conns s ! 0)"
proof -
  have "admitted ''photon-client'' (client ''a'')" by (simp add: client_def admitted_def validateClient_def)
  moreover have "in_remote (client ''a'') = ''a''" by (simp add: client_def)
  ultimately show ?thesis using stop_misses_late_handshake[of "''photon-client''" "client ''a''"] by metis
qed

text \<open>
  C22: In round-robin mode a test's steps are spread evenly: after any number of steps two
  connections differ by at most one message, whatever node the test started at, and every
  step sends exactly one. In advertised mode every step goes to every connection.
\<close>

theorem round_robin_is_fair:
  assumes "0 \<le> pos" "pos + int n < 2 ^ 63" "cs \<noteq> []" "distinct cs"
  shows "(\<exists>ts. step_targets n NodeTestModeRoundRobin cs pos = Ok ts
           \<and> (\<forall>t \<in> set ts. length t = 1)
           \<and> (\<forall>a \<in> set cs. \<forall>b \<in> set cs. count_list (concat ts) a \<le> count_list (concat ts) b + 1))
         \<and> step_targets n NodeTestModeAdvertised cs pos = Ok (replicate n cs)"
proof -
  let ?k = "length cs"
  let ?ts = "map (\<lambda>i. [cs ! ((nat pos + i) mod ?k)]) [0..<n]"
  have k: "0 < ?k" using assms(3) by simp
  have c: "concat ?ts = map (\<lambda>i. cs ! ((nat pos + i) mod ?k)) [0..<n]" by (induction n) auto
  have count: "count_list (concat ?ts) (cs ! j) = (n + (nat pos + ?k - 1 - j) mod ?k) div ?k" if "j < ?k" for j
  proof -
    have "count_list (concat ?ts) (cs ! j) = length (filter (\<lambda>i. (nat pos + i) mod ?k = j) [0..<n])"
      unfolding c count_list_eq_length_filter filter_map length_map comp_def
      using k that assms(4) by (intro arg_cong[of _ _ length] filter_cong) (auto simp: nth_eq_iff_index_eq)
    then show ?thesis using residue_count[OF k that] by simp
  qed
  have le: "(n + x mod ?k) div ?k \<le> (n + y mod ?k) div ?k + 1" for x y
  proof -
    have "n + x mod ?k \<le> n + y mod ?k + ?k" using k by (simp add: less_imp_le trans_le_add2)
    then have "(n + x mod ?k) div ?k \<le> (n + y mod ?k + ?k) div ?k" by (rule div_le_mono)
    also have "\<dots> = (n + y mod ?k) div ?k + 1" using k by (intro div_add_self2) simp
    finally show ?thesis .
  qed
  have balanced: "count_list (concat ?ts) a \<le> count_list (concat ?ts) b + 1" if ab: "a \<in> set cs" "b \<in> set cs" for a b
  proof -
    obtain i j where "a = cs ! i" "i < ?k" "b = cs ! j" "j < ?k" using ab by (auto simp: in_set_conv_nth)
    then show ?thesis using count le by simp
  qed
  have "step_targets n NodeTestModeAdvertised cs pos = Ok (replicate n cs)"
    by (rule step_targets_advertised) (simp add: NodeTestModeAdvertised_def NodeTestModeRoundRobin_def)
  moreover have "\<forall>t \<in> set ?ts. length t = 1" by simp
  ultimately show ?thesis using step_targets_round_robin[OF assms(1-3)] balanced by blast
qed

theorem round_robin_is_fair_witness:
  "\<exists>ts. step_targets 5 NodeTestModeRoundRobin [''a'', ''b''] 1 = Ok ts \<and> count_list (concat ts) ''a'' \<le> count_list (concat ts) ''b'' + 1"
  using round_robin_is_fair[of 1 5 "[''a'', ''b'']"] by auto

text \<open>
  The counters lose and repeat nothing across the reports: what has been reported and what
  is still counted adds up to the messages counted.
\<close>

theorem reports_are_exact:
  assumes "run counter_exec ls \<lparr>cur = 0, reported = []\<rparr> = Some c" "length ls < 2 ^ 63"
  shows "sum_list (reported c) + cur c = int (length (filter (\<lambda>l. l = Add) ls))"
  using counter_run[OF assms(1)] assms(2) by simp

theorem reports_are_exact_witness:
  "\<exists>c. run counter_exec [Add, Swap, Add] \<lparr>cur = 0, reported = []\<rparr> = Some c \<and> sum_list (reported c) + cur c = 2"
proof -
  let ?c = "\<lparr>cur = 1, reported = [1]\<rparr>"
  have r: "run counter_exec [Add, Swap, Add] \<lparr>cur = 0, reported = []\<rparr> = Some ?c" by (simp add: wrap64_def)
  with reports_are_exact[OF r] show ?thesis by simp
qed

end
