(* ===== verification/Process.thy ===== *)
theory Process
  imports Log_View Server
begin

text \<open>
  The running process: the server with its registry, the connections, the batch writer they all
  log through, and the main goroutine of \<open>main.go\<close> and \<open>shutdown.go\<close>. A step is a step of one
  component, synchronised with the others it touches: a connection that logs a message makes a
  call of \<open>enqueue\<close> return, one that closes its socket makes the server's \<open>Close\<close> begin, and a
  reference drawn by one connection is drawn from the counter of all.
\<close>

section \<open>State\<close>

text \<open>Where \<open>serveUntilSignal\<close> is; the flag is whether the HTTP server stopped with an error.
  \<open>Killed\<close> is an exit by \<open>log.Fatal\<close>, which runs no cleanup.\<close>

datatype main_pc = Serving | Stopping bool | Closing bool | Exited int | Killed

record process =
  p_spec :: IsoSpec
  p_templates :: "IsoMsgTemplate list"
  p_cards :: "Card list"
  p_server :: IsoServer
  p_conns :: "conn list" \<comment> \<open>the connections of \<open>conns\<close> of the server, in its order\<close>
  p_counter :: int
  p_writer :: writer
  p_main :: main_pc

definition new_process :: "IsoSpec \<Rightarrow> IsoMsgTemplate list \<Rightarrow> Card list \<Rightarrow> string \<Rightarrow> int \<Rightarrow> database \<Rightarrow> process" where
  "new_process spec templates cards cn counter d =
     \<lparr>p_spec = spec, p_templates = templates, p_cards = cards, p_server = NewIsoServer cn, p_conns = [],
      p_counter = counter, p_writer = newBatchWriter d, p_main = Serving\<rparr>"

text \<open>A panic in any goroutine ends the process.\<close>

definition alive :: "process \<Rightarrow> bool" where
  "alive p \<longleftrightarrow> (case p_main p of Exited _ \<Rightarrow> False | Killed \<Rightarrow> False | _ \<Rightarrow> True) \<and> (\<forall>c \<in> set (p_conns p). \<not> crashed c)"

section \<open>Steps\<close>

datatype process_label =
    Net server_label
  | Register nat "RefundCandidate list" \<comment> \<open>a handshake ends; the sales its refund tests will replay\<close>
  | ConnStep nat conn_label "writer_label option"
  | Db writer_label
  | HttpEnd bool \<comment> \<open>\<open>StartServer\<close> returns, with or without an error\<close>
  | CloseDb \<comment> \<open>\<open>Stop\<close> has returned: \<open>db.Close\<close> closes \<open>done\<close>\<close>
  | DbClosed \<comment> \<open>the writer goroutine has finished\<close>
  | ListenFatal \<comment> \<open>\<open>StartListen\<close> returns an error\<close>

text \<open>A connection step that logs is the return of a call of \<open>enqueue\<close>: with a send into the
  queue, or with an error because the writer is being closed.\<close>

definition db_step :: "conn \<Rightarrow> conn \<Rightarrow> writer_label option \<Rightarrow> writer \<Rightarrow> writer option" where
  "db_step c c' wl w =
     (case wl of
        None \<Rightarrow> if db_log c' = db_log c \<and> refused c' = refused c then Some w else None
      | Some (SendOp j) \<Rightarrow>
          if j < length (pending w) \<and> db_log c' = db_log c @ [pending w ! j] \<and> refused c' = refused c
          then writer_exec (SendOp j) w else None
      | Some (RejectOp j) \<Rightarrow>
          if j < length (pending w) \<and> db_log c' = db_log c \<and> refused c' = op_reference (pending w ! j) # refused c
          then writer_exec (RejectOp j) w else None
      | Some (Enqueue op) \<Rightarrow>
          if w_done w \<and> db_log c' = db_log c \<and> refused c' = op_reference op # refused c
          then writer_exec (Enqueue op) w else None
      | _ \<Rightarrow> None)"

definition main_allows :: "main_pc \<Rightarrow> server_label \<Rightarrow> bool" where
  "main_allows pc l \<longleftrightarrow>
     (case l of
        Handshake _ \<Rightarrow> False
      | StopListener \<Rightarrow> (\<exists>e. pc = Stopping e)
      | StopSnapshot _ \<Rightarrow> (\<exists>e. pc = Stopping e)
      | StopNext \<Rightarrow> (\<exists>e. pc = Stopping e)
      | _ \<Rightarrow> True)"

text \<open>The writer goroutine's own steps, calls of \<open>enqueue\<close> as they begin, and the whole of those
  that are not about a connection: the totals a test writes.\<close>

definition free_db_label :: "writer \<Rightarrow> writer_label \<Rightarrow> bool" where
  "free_db_label w l \<longleftrightarrow>
     (case l of
        Enqueue op \<Rightarrow> \<not> w_done w \<or> op_conn op = None
      | SendOp j \<Rightarrow> j < length (pending w) \<and> op_conn (pending w ! j) = None
      | RejectOp j \<Rightarrow> j < length (pending w) \<and> op_conn (pending w ! j) = None
      | CloseDone \<Rightarrow> False
      | _ \<Rightarrow> True)"

text \<open>\<open>Accept\<close> fails with \<open>net.ErrClosed\<close> once \<open>Stop\<close> has closed the listener, and \<open>StartListen\<close> then
  returns no error; but an error \<open>Accept\<close> returned before may be seen after that, so \<open>ListenFatal\<close>
  is possible as long as the process runs.\<close>

fun process_step :: "process_label \<Rightarrow> process \<Rightarrow> process option" where
  "process_step (Net l) p =
     (if \<not> main_allows (p_main p) l then None
      else case server_exec l (p_server p) of
        None \<Rightarrow> None
      | Some s \<Rightarrow>
          Some (p\<lparr>p_server := s,
                  p_conns := (case l of BeginClose i \<Rightarrow> (p_conns p)[i := (p_conns p ! i)\<lparr>closed := True\<rparr>] | _ \<Rightarrow> p_conns p)\<rparr>))"
| "process_step (Register j sales) p =
     (case server_exec (Handshake j) (p_server p) of
        None \<Rightarrow> None
      | Some s \<Rightarrow>
          Some (p\<lparr>p_server := s,
                  p_conns :=
                    (if admitted (expected_cn (p_server p)) (handshakes (p_server p) ! j)
                     then p_conns p @ [newIsoConnection (in_remote (handshakes (p_server p) ! j)) (p_spec p)
                                         (p_templates p) (p_cards p) sales (p_counter p)]
                     else p_conns p)\<rparr>))"
| "process_step (ConnStep i l wl) p =
     (if length (p_conns p) \<le> i \<or> l = OtherReference then None
      else case conn_exec l (p_conns p ! i) of
        None \<Rightarrow> None
      | Some c \<Rightarrow>
          (case db_step (p_conns p ! i) c wl (p_writer p) of
             None \<Rightarrow> None
           | Some w \<Rightarrow>
               Some (p\<lparr>p_conns := map (\<lambda>d. d\<lparr>referenceCounter := referenceCounter c\<rparr>) ((p_conns p)[i := c]),
                       p_counter := referenceCounter c, p_writer := w,
                       p_server := (if closed c \<and> \<not> closed (p_conns p ! i)
                                    then case server_exec (BeginClose i) (p_server p) of Some s \<Rightarrow> s | None \<Rightarrow> p_server p
                                    else p_server p)\<rparr>)))"
| "process_step (Db l) p =
     (if free_db_label (p_writer p) l
      then map_option (\<lambda>w. p\<lparr>p_writer := w\<rparr>) (writer_exec l (p_writer p)) else None)"
| "process_step (HttpEnd err) p = (if p_main p = Serving then Some (p\<lparr>p_main := Stopping err\<rparr>) else None)"
| "process_step CloseDb p =
     (case p_main p of
        Stopping err \<Rightarrow>
          if stop_todo (p_server p) = Some []
          then map_option (\<lambda>w. p\<lparr>p_writer := w, p_main := Closing err\<rparr>) (writer_exec CloseDone (p_writer p))
          else None
      | _ \<Rightarrow> None)"
| "process_step DbClosed p =
     (case p_main p of
        Closing err \<Rightarrow> if run_pc (p_writer p) = Finished then Some (p\<lparr>p_main := Exited (if err then 1 else 0)\<rparr>) else None
      | _ \<Rightarrow> None)"
| "process_step ListenFatal p = Some (p\<lparr>p_main := Killed\<rparr>)"

text \<open>As for one connection, the runs of up to \<open>10^12\<close> references.\<close>

definition process_exec :: "int \<Rightarrow> process_label \<Rightarrow> process \<Rightarrow> process option" where
  "process_exec base l p = (if alive p \<and> p_counter p < base + 10 ^ 12 then process_step l p else None)"

definition process_start :: "int \<Rightarrow> database \<Rightarrow> process \<Rightarrow> bool" where
  "process_start base d p \<longleftrightarrow>
     0 \<le> base \<and> base < 2 ^ 62 \<and> (\<exists>spec templates cards cn. p = new_process spec templates cards cn base d)"
section \<open>What a connection step changes\<close>

lemma exec_task_counter:
  "exec_task e t c = Some (c', k) \<Longrightarrow> referenceCounter c' = referenceCounter c \<and> (closed c \<longrightarrow> closed c')"
  by (cases t)
     (auto simp: enqueue_def queue_request_def can_queue_def crash_def Let_def
        split: if_splits sum.splits fault.splits option.splits)

lemma spawn_frame [simp]:
  "referenceCounter (spawn r c) = referenceCounter c" "closed (spawn r c) = closed c"
  by (auto simp: spawn_def crash_def split: sum.splits fault.splits)

lemma next_reference_frame:
  "next_reference c = (r, d) \<Longrightarrow> closed d = closed c \<and> referenceCounter d = snd (GenerateTimestampID (referenceCounter c))"
  by (auto simp: next_reference_def Let_def split: prod.splits)

lemma next_reference_snd_frame [simp]:
  "closed (snd (next_reference c)) = closed c"
  "referenceCounter (snd (next_reference c)) = snd (GenerateTimestampID (referenceCounter c))"
  using next_reference_frame[of c "fst (next_reference c)" "snd (next_reference c)"] by simp_all

lemma conn_exec_frame:
  assumes "conn_exec l c = Some c'"
  shows "(referenceCounter c' = referenceCounter c \<or> referenceCounter c' = snd (GenerateTimestampID (referenceCounter c)))
         \<and> (closed c \<longrightarrow> closed c')"
proof (cases l)
  case (Task i e)
  with assms exec_task_counter show ?thesis by (fastforce split: if_splits option.splits)
next
  case (Reader e)
  with assms exec_task_counter show ?thesis by (fastforce split: if_splits option.splits reader_pc.splits)
qed (use assms in \<open>auto dest!: next_reference_frame simp: crash_def queue_request_def
       split: if_splits prod.splits sum.splits fault.splits frame_action.splits reader_pc.splits writer_pc.splits list.splits\<close>)

section \<open>Accepted writes and connection logs\<close>

lemma db_step_accepted:
  assumes "db_step c c' wl w = Some w'"
  obtains "accepted w' = accepted w" "db_log c' = db_log c"
  | op where "accepted w' = accepted w @ [op]" "db_log c' = db_log c @ [op]"
  using assms
  by (cases wl) (auto simp: db_step_def split: if_splits writer_label.splits)

lemma free_db_accepted:
  assumes "free_db_label w l" "writer_exec l w = Some w'"
  obtains "accepted w' = accepted w"
  | op where "accepted w' = accepted w @ [op]" "op_conn op = None"
  using assms
  by (cases l) (auto simp: free_db_label_def do_commit_def split: if_splits run_state.splits list.splits)

definition caller_label :: "writer_label \<Rightarrow> bool" where
  "caller_label l \<longleftrightarrow> (case l of Enqueue _ \<Rightarrow> True | SendOp _ \<Rightarrow> True | RejectOp _ \<Rightarrow> True | _ \<Rightarrow> False)"

lemma db_step_writer:
  "db_step c c' wl w = Some w' \<Longrightarrow> w' = w \<or> (\<exists>l. caller_label l \<and> writer_exec l w = Some w')"
  by (cases wl) (auto simp: db_step_def caller_label_def simp del: writer_exec.simps split: if_splits writer_label.splits)

lemma caller_keeps:
  "caller_label l \<Longrightarrow> writer_exec l w = Some w' \<Longrightarrow>
     w_done w' = w_done w \<and> run_pc w' = run_pc w \<and> committed w' = committed w \<and> w_db w' = w_db w"
  by (cases l) (auto simp: caller_label_def split: if_splits)

lemma free_db_done: "free_db_label w l \<Longrightarrow> writer_exec l w = Some w' \<Longrightarrow> w_done w' = w_done w"
  by (cases l) (auto simp: free_db_label_def do_commit_def split: if_splits run_state.splits list.splits)

section \<open>The invariant\<close>

definition aligned :: "conn \<Rightarrow> conn_state \<Rightarrow> bool" where
  "aligned c s \<longleftrightarrow> conn_id c = cs_remote s \<and> closed c = cs_closed s"

definition main_inv :: "process \<Rightarrow> bool" where
  "main_inv p \<longleftrightarrow>
     (case p_main p of
        Serving \<Rightarrow> \<not> stop_begun (p_server p) \<and> \<not> w_done (p_writer p)
      | Stopping _ \<Rightarrow> \<not> w_done (p_writer p)
      | Closing _ \<Rightarrow> w_done (p_writer p) \<and> stop_todo (p_server p) = Some []
      | Exited _ \<Rightarrow> run_pc (p_writer p) = Finished \<and> stop_todo (p_server p) = Some []
      | Killed \<Rightarrow> True)"

definition logs_agree :: "process \<Rightarrow> bool" where
  "logs_agree p \<longleftrightarrow>
     (\<forall>op \<in> set (accepted (p_writer p)). op_conn op = None \<or> (\<exists>c \<in> set (p_conns p). op_conn op = Some (conn_id c)))
     \<and> (distinct (map conn_id (p_conns p)) \<longrightarrow>
          (\<forall>c \<in> set (p_conns p). filter (\<lambda>op. op_conn op = Some (conn_id c)) (accepted (p_writer p)) = db_log c))"

definition conns_ok :: "int \<Rightarrow> process \<Rightarrow> bool" where
  "conns_ok base p \<longleftrightarrow> (\<forall>c \<in> set (p_conns p). conn_inv (conn_id c) base c \<and> referenceCounter c = p_counter p)"

definition process_inv :: "int \<Rightarrow> database \<Rightarrow> process \<Rightarrow> bool" where
  "process_inv base d p \<longleftrightarrow>
     base \<le> p_counter p \<and> p_counter p \<le> base + 10 ^ 12
     \<and> server_inv (p_server p) \<and> finite (dom (connMap (p_server p))) \<and> writer_inv d (p_writer p)
     \<and> list_all2 aligned (p_conns p) (conns (p_server p))
     \<and> conns_ok base p \<and> logs_agree p \<and> main_inv p"

lemma conn_inv_new:
  "base \<le> n \<Longrightarrow> n \<le> base + 10 ^ 12 \<Longrightarrow> conn_inv cid base (newIsoConnection cid spec templates cards sales n)"
  using lifecycle_start[of cid base n]
  by (simp add: newIsoConnection_def conn_inv_def conn_lifecycle_def queue_places_def)

lemma process_inv_start: "process_start base d p \<Longrightarrow> process_inv base d p"
  using writer_inv_start[of d] server_inv_start
  by (auto simp: process_start_def new_process_def process_inv_def conns_ok_def logs_agree_def main_inv_def)
     (auto simp: NewIsoServer_def newBatchWriter_def)

section \<open>Every step keeps the invariant\<close>

lemma logs_agree_iff:
  "logs_agree p \<longleftrightarrow>
     (\<forall>op \<in> set (accepted (p_writer p)). op_conn op = None \<or> op_conn op \<in> Some ` set (map conn_id (p_conns p)))
     \<and> (distinct (map conn_id (p_conns p)) \<longrightarrow>
          (\<forall>(i, lg) \<in> set (zip (map conn_id (p_conns p)) (map db_log (p_conns p))).
             filter (\<lambda>op. op_conn op = Some i) (accepted (p_writer p)) = lg))"
proof -
  have z: "zip (map conn_id (p_conns p)) (map db_log (p_conns p)) = map (\<lambda>c. (conn_id c, db_log c)) (p_conns p)"
    by (simp add: zip_map_map zip_same_conv_map)
  show ?thesis unfolding logs_agree_def z by auto
qed

lemma logs_agree_cong:
  "logs_agree p \<Longrightarrow> map conn_id (p_conns p') = map conn_id (p_conns p) \<Longrightarrow>
     map db_log (p_conns p') = map db_log (p_conns p) \<Longrightarrow> accepted (p_writer p') = accepted (p_writer p) \<Longrightarrow> logs_agree p'"
  by (simp only: logs_agree_iff)

lemma conn_inv_closed [simp]: "conn_inv cid base (c\<lparr>closed := b\<rparr>) = conn_inv cid base c"
  by (simp add: conn_inv_def conn_lifecycle_def queue_places_def)

text \<open>Closing a socket, in the server and in the connection.\<close>

lemma map_update_same: "i < length xs \<Longrightarrow> f y = f (xs ! i) \<Longrightarrow> map f (xs[i := y]) = map f xs"
  by (metis list_update_id map_update nth_map)

lemma net_conns:
  assumes "server_exec l s = Some s'" "\<forall>j. l \<noteq> Handshake j" "list_all2 aligned cs (conns s)"
  shows "list_all2 aligned (case l of BeginClose i \<Rightarrow> cs[i := (cs ! i)\<lparr>closed := True\<rparr>] | _ \<Rightarrow> cs) (conns s')"
proof (cases l)
  case (BeginClose i)
  then have i: "i < length (conns s)" "conns s' = (conns s)[i := (conns s ! i)\<lparr>cs_closed := True\<rparr>]"
    using assms(1) by (auto split: if_splits)
  with list_all2_nthD2[OF assms(3)] have "aligned (cs ! i) (conns s ! i)" by simp
  with BeginClose i assms(3) show ?thesis by (auto intro!: list_all2_update_cong simp: aligned_def)
next
  case (OnClose i)
  then have i: "i < length (conns s)" "conns s' = (conns s)[i := (conns s ! i)\<lparr>cs_removed := True\<rparr>]"
    using assms(1) by (auto simp: removeConn_def split: if_splits)
  with list_all2_nthD2[OF assms(3)] have "aligned (cs ! i) ((conns s ! i)\<lparr>cs_removed := True\<rparr>)" by (simp add: aligned_def)
  with list_all2_update_cong[OF assms(3) this, of i] show ?thesis by (simp add: OnClose i(2))
qed (use assms in \<open>auto split: if_splits option.splits list.splits\<close>)

lemma net_registry: "server_exec l s = Some s' \<Longrightarrow> finite (dom (connMap s)) \<Longrightarrow> finite (dom (connMap s'))"
  by (cases l) (auto simp: removeConn_def HandleNewConnect_def split: if_splits option.splits list.splits)

lemma net_stop:
  assumes "server_exec l s = Some s'" "\<forall>ids. l \<noteq> StopSnapshot ids" "l \<noteq> StopNext"
  shows "stop_todo s' = stop_todo s \<and> (l \<noteq> StopListener \<longrightarrow> stop_begun s' = stop_begun s)"
  using assms by (cases l) (auto simp: removeConn_def HandleNewConnect_def split: if_splits)

lemma net_inv:
  assumes inv: "process_inv base d p" and x: "process_step (Net l) p = Some p'" and a: "alive p"
  shows "process_inv base d p'"
proof -
  from x obtain s where s: "server_exec l (p_server p) = Some s" "main_allows (p_main p) l"
    "p' = p\<lparr>p_server := s, p_conns := (case l of BeginClose i \<Rightarrow> (p_conns p)[i := (p_conns p ! i)\<lparr>closed := True\<rparr>] | _ \<Rightarrow> p_conns p)\<rparr>"
    by (auto split: if_splits option.splits)
  have h: "\<forall>j. l \<noteq> Handshake j" using s(2) by (auto simp: main_allows_def)
  have al: "list_all2 aligned (p_conns p) (conns (p_server p))" using inv by (simp add: process_inv_def)
  have b: "i < length (p_conns p)" if "l = BeginClose i" for i
    using s(1) that list_all2_lengthD[OF al] by (auto split: if_splits)
  have fields: "map conn_id (p_conns p') = map conn_id (p_conns p)" "map db_log (p_conns p') = map db_log (p_conns p)"
    using b by (auto simp: s(3) map_update_same split: server_label.splits)
  have ok: "conns_ok base p'"
    using inv b by (auto simp: s(3) process_inv_def conns_ok_def split: server_label.splits dest!: set_update_subset_insert[THEN subsetD])
  have m: "main_inv p'"
    using inv a s(2) net_stop[OF s(1)]
    by (cases l; cases "p_main p") (auto simp: s(3) process_inv_def main_inv_def main_allows_def alive_def)
  have "logs_agree p'" using logs_agree_cong[OF _ fields] inv by (simp add: s(3) process_inv_def)
  with inv ok m server_inv_step[OF _ s(1)] net_registry[OF s(1)] net_conns[OF s(1) h al] show ?thesis
    by (simp add: process_inv_def s(3))
qed

lemma register_inv:
  assumes inv: "process_inv base d p" and x: "process_step (Register j sales) p = Some p'"
  shows "process_inv base d p'"
proof -
  let ?q = "handshakes (p_server p) ! j"
  let ?c = "newIsoConnection (in_remote ?q) (p_spec p) (p_templates p) (p_cards p) sales (p_counter p)"
  from x obtain s where s: "server_exec (Handshake j) (p_server p) = Some s"
    "p' = p\<lparr>p_server := s, p_conns := (if admitted (expected_cn (p_server p)) ?q then p_conns p @ [?c] else p_conns p)\<rparr>"
    by (auto simp del: server_exec.simps split: option.splits)
  have n: "base \<le> p_counter p" "p_counter p \<le> base + 10 ^ 12" using inv by (simp_all add: process_inv_def)
  have m: "main_inv p'" and r: "server_inv s" "finite (dom (connMap s))"
    using inv net_stop[OF s(1)] server_inv_step[OF _ s(1)] net_registry[OF s(1)]
    by (auto simp: s(2) process_inv_def main_inv_def split: main_pc.splits)
  have new: "conn_id ?c = in_remote ?q" "db_log ?c = []" "closed ?c = False" "referenceCounter ?c = p_counter p"
    by (simp_all add: newIsoConnection_def)
  show ?thesis
  proof (cases "admitted (expected_cn (p_server p)) ?q")
    case True
    have c: "conns s = conns (p_server p) @ [\<lparr>cs_remote = in_remote ?q, cs_closed = False, cs_removed = False\<rparr>]"
      using s(1) True by (auto simp: HandleNewConnect_def split: if_splits)
    have al: "list_all2 aligned (p_conns p @ [?c]) (conns s)"
      using inv new unfolding c by (intro list_all2_appendI) (simp_all add: process_inv_def aligned_def)
    have ok: "conns_ok base p'"
      using inv conn_inv_new[OF n] new by (auto simp: s(2) True process_inv_def conns_ok_def)
    have lg: "filter (\<lambda>op. op_conn op = Some (in_remote ?q)) (accepted (p_writer p)) = []"
      if "in_remote ?q \<notin> conn_id ` set (p_conns p)"
    proof -
      have "op_conn op \<noteq> Some (in_remote ?q)" if "op \<in> set (accepted (p_writer p))" for op
      proof -
        have "op_conn op = None \<or> (\<exists>c \<in> set (p_conns p). op_conn op = Some (conn_id c))"
          using inv that by (simp add: process_inv_def logs_agree_def)
        then show ?thesis using \<open>in_remote ?q \<notin> _\<close> by (force simp: image_iff)
      qed
      then show ?thesis by (simp add: filter_empty_conv)
    qed
    have "logs_agree p'"
      using inv lg new by (auto simp: s(2) True process_inv_def logs_agree_def)
    with inv ok m r al show ?thesis by (simp add: s(2) True process_inv_def)
  next
    case False
    have c: "conns s = conns (p_server p)"
      using s(1) False by (auto simp: HandleNewConnect_def split: if_splits)
    have "logs_agree p'" using inv by (simp add: s(2) False process_inv_def logs_agree_def)
    moreover have "conns_ok base p'" using inv by (simp add: s(2) False process_inv_def conns_ok_def)
    ultimately show ?thesis using inv m r c by (simp add: s(2) False process_inv_def)
  qed
qed

lemma other_reference_inv:
  assumes "conn_inv cid base c" "referenceCounter c = n" "n < base + 10 ^ 12" "0 \<le> base" "base < 2 ^ 62" "\<not> crashed c"
    and "n' = n \<or> n' = snd (GenerateTimestampID n)"
  shows "conn_inv cid base (c\<lparr>referenceCounter := n'\<rparr>)"
proof (cases "n' = n")
  case False
  then have "bounded_exec base OtherReference c = Some (c\<lparr>referenceCounter := n'\<rparr>)"
    using assms by (simp add: bounded_exec_def next_reference_def Let_def split: prod.splits)
  then show ?thesis using conn_inv_step assms by blast
next
  case True
  then have "c\<lparr>referenceCounter := n'\<rparr> = c" using assms(2) by simp
  with assms(1) show ?thesis by simp
qed

lemma conn_log_own: "conn_inv cid base c \<Longrightarrow> db_log c = lg @ [op] \<Longrightarrow> op_conn op = Some cid"
  by (auto simp: conn_inv_def conn_lifecycle_def write_ok_def dest!: lifecycle_good)

lemma conn_inv_id: "conn_inv cid base c \<Longrightarrow> conn_id c = cid \<and> base \<le> referenceCounter c \<and> referenceCounter c \<le> base + 10 ^ 12"
  by (simp add: conn_inv_def)

lemma caller_inv: "writer_inv d w \<Longrightarrow> db_step c c' wl w = Some w' \<Longrightarrow> writer_inv d w'"
  using db_step_writer writer_inv_step by blast

lemma logs_agree_step:
  assumes "logs_agree p" "i < length (p_conns p)" "db_step (p_conns p ! i) c wl (p_writer p) = Some w"
    and "conn_id c = conn_id (p_conns p ! i)" "conn_inv (conn_id c) base c"
    and "map conn_id (p_conns p') = map conn_id ((p_conns p)[i := c])"
      "map db_log (p_conns p') = map db_log ((p_conns p)[i := c])" "p_writer p' = w"
  shows "logs_agree p'"
  using assms(3)
proof (cases rule: db_step_accepted)
  case 1
  with assms show ?thesis by (intro logs_agree_cong[OF assms(1)]) (simp_all add: map_update_same)
next
  case (2 op)
  note own = conn_log_own[OF assms(5) 2(2)]
  let ?q = "p\<lparr>p_conns := (p_conns p)[i := c], p_writer := w\<rparr>"
  have ids: "map conn_id ((p_conns p)[i := c]) = map conn_id (p_conns p)" using assms(2,4) by (simp add: map_update_same)
  have "filter (\<lambda>op. op_conn op = Some (conn_id x)) (accepted w) = db_log x"
    if dist: "distinct (map conn_id (p_conns p))" and x: "x \<in> set ((p_conns p)[i := c])" for x
  proof -
    obtain j where j: "j < length (p_conns p)" "x = (p_conns p)[i := c] ! j" using x by (auto simp: in_set_conv_nth)
    have old: "filter (\<lambda>op. op_conn op = Some (conn_id (p_conns p ! j))) (accepted (p_writer p)) = db_log (p_conns p ! j)"
      using assms(1) dist j(1) by (simp add: logs_agree_def)
    show ?thesis
    proof (cases "j = i")
      case True
      then show ?thesis using old own assms(2,4) by (simp add: j(2) 2)
    next
      case False
      then have "conn_id (p_conns p ! j) \<noteq> conn_id (p_conns p ! i)"
        using dist j(1) assms(2) by (auto simp: distinct_conv_nth)
      with False show ?thesis using old own assms(4) by (simp add: j(2) 2)
    qed
  qed
  moreover have "op_conn o' = None \<or> (\<exists>x \<in> set ((p_conns p)[i := c]). op_conn o' = Some (conn_id x))"
    if o': "o' \<in> set (accepted w)" for o'
  proof (cases "o' = op")
    case True
    then show ?thesis using own set_update_memI[OF assms(2), of c] by blast
  next
    case False
    then have "op_conn o' = None \<or> op_conn o' \<in> Some ` set (map conn_id (p_conns p))"
      using assms(1) o' by (auto simp: logs_agree_def 2)
    then show ?thesis unfolding ids[symmetric] by auto
  qed
  ultimately have "logs_agree ?q" by (simp add: logs_agree_def ids)
  then show ?thesis using logs_agree_cong[of ?q p'] assms(6-8) by simp
qed

lemma aligned_counter [simp]: "aligned (c\<lparr>referenceCounter := n\<rparr>) s = aligned c s"
  by (simp add: aligned_def)

lemma process_inv_main:
  "process_inv base d p \<Longrightarrow> main_inv (p\<lparr>p_main := m\<rparr>) \<Longrightarrow> process_inv base d (p\<lparr>p_main := m\<rparr>)"
  by (simp add: process_inv_def conns_ok_def logs_agree_def)

text \<open>The server's side of a connection step: the first close of its socket.\<close>

definition after_conn :: "nat \<Rightarrow> conn \<Rightarrow> conn \<Rightarrow> IsoServer \<Rightarrow> IsoServer" where
  "after_conn i c c' s =
     (if closed c' \<and> \<not> closed c
      then case server_exec (BeginClose i) s of Some s' \<Rightarrow> s' | None \<Rightarrow> s
      else s)"

lemma after_conn_inv:
  assumes "list_all2 aligned cs (conns s)" "i < length cs" "conn_exec l (cs ! i) = Some c'" "conn_id c' = conn_id (cs ! i)"
    and "server_inv s" "finite (dom (connMap s))"
  shows "list_all2 aligned (cs[i := c']) (conns (after_conn i (cs ! i) c' s)) \<and> server_inv (after_conn i (cs ! i) c' s)
         \<and> finite (dom (connMap (after_conn i (cs ! i) c' s)))
         \<and> stop_todo (after_conn i (cs ! i) c' s) = stop_todo s \<and> stop_begun (after_conn i (cs ! i) c' s) = stop_begun s"
proof -
  have i: "i < length (conns s)" using assms(1,2) list_all2_lengthD by metis
  have a: "aligned (cs ! i) (conns s ! i)" using assms(1,2) by (rule list_all2_nthD)
  show ?thesis
  proof (cases "closed c' \<and> \<not> closed (cs ! i)")
    case True
    let ?s = "s\<lparr>conns := (conns s)[i := (conns s ! i)\<lparr>cs_closed := True\<rparr>]\<rparr>"
    have x: "server_exec (BeginClose i) s = Some ?s" using i a True by (simp add: aligned_def)
    have "list_all2 aligned (cs[i := c']) (conns ?s)"
      using assms(1,4) a True by (auto intro!: list_all2_update_cong simp: aligned_def)
    with True x server_inv_step[OF assms(5) x] assms(6) show ?thesis by (simp add: after_conn_def)
  next
    case False
    then have "closed c' = closed (cs ! i)" using conn_exec_frame[OF assms(3)] by auto
    then have "aligned c' (conns s ! i)" using a assms(4) by (simp add: aligned_def)
    moreover have "after_conn i (cs ! i) c' s = s" unfolding after_conn_def using False by (rule if_not_P)
    ultimately show ?thesis using list_all2_update_cong[OF assms(1), of c' "conns s ! i" i] assms(5,6) by simp
  qed
qed

lemma conn_step_inv:
  assumes inv: "process_inv base d p" and b: "0 \<le> base" "base < 2 ^ 62"
    and x: "process_exec base (ConnStep i l wl) p = Some p'"
  shows "process_inv base d p'"
proof -
  let ?c = "p_conns p ! i"
  have live: "\<forall>c \<in> set (p_conns p). \<not> crashed c" "p_counter p < base + 10 ^ 12"
    and y: "process_step (ConnStep i l wl) p = Some p'"
    using x by (auto simp: process_exec_def alive_def simp del: process_step.simps split: if_splits)
  from y obtain c w where c: "i < length (p_conns p)" "conn_exec l ?c = Some c" "db_step ?c c wl (p_writer p) = Some w"
    and p': "p' = p\<lparr>p_conns := map (\<lambda>d. d\<lparr>referenceCounter := referenceCounter c\<rparr>) ((p_conns p)[i := c]),
                   p_counter := referenceCounter c, p_writer := w, p_server := after_conn i ?c c (p_server p)\<rparr>"
    by (auto simp: after_conn_def simp del: server_exec.simps split: if_splits option.splits)
  have old: "conn_inv (conn_id ?c) base ?c" "referenceCounter ?c = p_counter p"
    using inv c(1) by (auto simp: process_inv_def conns_ok_def)
  have "bounded_exec base l ?c = Some c" using c(2) old(2) live(2) by (simp add: bounded_exec_def)
  note new = conn_inv_step[OF old(1) b this]
  note id = conn_inv_id[OF new]
  have others: "conn_inv (conn_id x) base (x\<lparr>referenceCounter := referenceCounter c\<rparr>)" if "x \<in> set (p_conns p)" for x
    using that inv live b conn_exec_frame[OF c(2)] old(2)
    by (intro other_reference_inv[where n = "p_counter p"]) (auto simp: process_inv_def conns_ok_def)
  have ok: "conns_ok base p'"
    using others new id by (auto simp: p' conns_ok_def dest!: set_update_subset_insert[THEN subsetD])
  have agree: "logs_agree p'"
    by (rule logs_agree_step[OF _ c(1,3), of base]) (use inv new id in \<open>auto simp: p' process_inv_def comp_def\<close>)
  have al: "list_all2 aligned (p_conns p) (conns (p_server p))" using inv by (simp add: process_inv_def)
  have srv: "server_inv (p_server p)" "finite (dom (connMap (p_server p)))" using inv by (simp_all add: process_inv_def)
  have cid: "conn_id c = conn_id ?c" using id by simp
  note s = after_conn_inv[OF al c(1,2) cid srv]
  have al': "list_all2 aligned (p_conns p') (conns (p_server p'))"
    using s by (simp add: p' list_all2_map1)
  have m: "main_inv p'"
    using inv s db_step_writer[OF c(3)] caller_keeps
    by (auto simp: p' process_inv_def main_inv_def split: main_pc.splits)
  show ?thesis
    using inv ok agree al' m s id caller_inv[OF _ c(3)] by (simp add: p' process_inv_def)
qed

lemma process_inv_step:
  assumes inv: "process_inv base d p" and b: "0 \<le> base" "base < 2 ^ 62" and x: "process_exec base l p = Some p'"
  shows "process_inv base d p'"
proof -
  have a: "alive p" and y: "process_step l p = Some p'"
    using x by (auto simp: process_exec_def simp del: process_step.simps split: if_splits)
  show ?thesis
  proof (cases l)
    case (Net k)
    with net_inv[OF inv _ a] y show ?thesis by simp
  next
    case (Register j sales)
    with register_inv[OF inv] y show ?thesis by simp
  next
    case (ConnStep i k wl)
    with conn_step_inv[OF inv b] x show ?thesis by simp
  next
    case (Db k)
    with y obtain w where w: "free_db_label (p_writer p) k" "writer_exec k (p_writer p) = Some w" "p' = p\<lparr>p_writer := w\<rparr>"
      by (auto split: if_splits)
    have dn: "w_done w = w_done (p_writer p)" using free_db_done w by blast
    have fin: "run_pc (p_writer p) = Finished \<Longrightarrow> run_pc w = Finished" using finished_step w(2) by blast
    have m: "main_inv p'" using inv dn fin by (auto simp: w(3) process_inv_def main_inv_def split: main_pc.splits)
    have "logs_agree p'"
      using w(1,2)
    proof (cases rule: free_db_accepted)
      case 1
      then show ?thesis using inv by (simp add: w(3) process_inv_def logs_agree_def)
    next
      case (2 op)
      then show ?thesis using inv by (simp add: w(3) process_inv_def logs_agree_def)
    qed
    moreover have "conns_ok base p'" using inv by (simp add: w(3) process_inv_def conns_ok_def)
    ultimately show ?thesis using inv m writer_inv_step[OF _ w(2)] by (simp add: w(3) process_inv_def)
  next
    case (HttpEnd err)
    with y inv have "p' = p\<lparr>p_main := Stopping err\<rparr>" "main_inv p'"
      by (auto simp: process_inv_def main_inv_def split: if_splits)
    with process_inv_main[OF inv] show ?thesis by simp
  next
    case CloseDb
    with y obtain err w where w: "p_main p = Stopping err" "stop_todo (p_server p) = Some []"
      "writer_exec CloseDone (p_writer p) = Some w" "p' = p\<lparr>p_writer := w, p_main := Closing err\<rparr>"
      by (auto simp del: writer_exec.simps split: main_pc.splits if_splits)
    then have "accepted w = accepted (p_writer p)" "w_done w" by (auto split: if_splits)
    with inv w writer_inv_step[OF _ w(3)] show ?thesis
      by (simp add: process_inv_def conns_ok_def logs_agree_def main_inv_def)
  next
    case DbClosed
    with y obtain err where "p_main p = Closing err" "run_pc (p_writer p) = Finished"
      "p' = p\<lparr>p_main := Exited (if err then 1 else 0)\<rparr>"
      by (auto split: main_pc.splits if_splits)
    moreover from this have "main_inv p'" using inv by (simp add: process_inv_def main_inv_def)
    ultimately show ?thesis using process_inv_main[OF inv] by simp
  next
    case ListenFatal
    with y have "p' = p\<lparr>p_main := Killed\<rparr>" "main_inv p'" by (auto simp: main_inv_def split: if_splits)
    with process_inv_main[OF inv] show ?thesis by simp
  qed
qed

interpretation whole: invariant_system "process_exec base" "process_start base d"
    "\<lambda>p. 0 \<le> base \<and> base < 2 ^ 62 \<and> process_inv base d p" for base d
  by unfold_locales (auto simp: process_inv_start process_inv_step process_start_def[of base d])

end
