(* ===== verification/Config.thy ===== *)
theory Config
  imports Go_Strings
begin

text \<open>
  \<open>internal/config/config.go\<close>: the configuration, from the environment with defaults below the
  base path. \<open>filepath.Join\<close> of the standard library is translated as it behaves on Unix: it joins
  the non-empty elements with slashes and cleans the result.
\<close>

section \<open>Paths\<close>

fun split_at :: "char \<Rightarrow> string \<Rightarrow> string list" where
  "split_at sep [] = [[]]"
| "split_at sep (c # cs) =
     (if c = sep then [] # split_at sep cs
      else case split_at sep cs of [] \<Rightarrow> [[c]] | p # ps \<Rightarrow> (c # p) # ps)"

fun join_with :: "string \<Rightarrow> string list \<Rightarrow> string" where
  "join_with sep [] = []"
| "join_with sep [p] = p"
| "join_with sep (p # q # ps) = p @ sep @ join_with sep (q # ps)"

text \<open>\<open>Clean\<close> reads the elements from left to right, keeping those written so far in reverse:
  empty elements and dots go, two dots take the last element back unless there is none to take.\<close>

fun clean_step :: "bool \<Rightarrow> string list \<Rightarrow> string \<Rightarrow> string list" where
  "clean_step rooted out p =
     (if p = [] \<or> p = ''.'' then out
      else if p = ''..'' then
        (case out of
           [] \<Rightarrow> if rooted then [] else [''..'']
         | q # qs \<Rightarrow> if q = ''..'' then ''..'' # out else qs)
      else p # out)"

definition Clean :: "string \<Rightarrow> string" where
  "Clean path =
     (if path = [] then ''.''
      else
        let rooted = hd path = CHR ''/'';
            out = rev (foldl (clean_step rooted) [] (split_at CHR ''/'' path)) in
        if rooted then CHR ''/'' # join_with ''/'' out
        else if out = [] then ''.'' else join_with ''/'' out)"

fun Join :: "string list \<Rightarrow> string" where
  "Join [] = []"
| "Join (e # es) = (if e = [] then Join es else Clean (join_with ''/'' (e # es)))"

section \<open>The configuration\<close>

record ServerConfig =
  HTTPPort :: string
  ISOPort :: string

record TLSConfig =
  ServerCertPath :: string
  ServerKeyPath :: string
  CAPath :: string
  ClientCertPath :: string
  ClientKeyPath :: string
  ExpectedCN :: string

record DataConfig =
  SpecPath :: string
  CardsPath :: string
  TemplatesPath :: string
  DataPath :: string

record Config =
  cfg_server :: ServerConfig
  cfg_database :: string
  cfg_tls :: TLSConfig
  cfg_data :: DataConfig

definition getEnv :: "(string \<rightharpoonup> string) \<Rightarrow> string \<Rightarrow> string \<Rightarrow> string" where
  "getEnv env key defaultValue = (case env key of Some v \<Rightarrow> v | None \<Rightarrow> defaultValue)"

definition Load :: "(string \<rightharpoonup> string) \<Rightarrow> string \<Rightarrow> Config" where
  "Load env basePath =
     (let dataPath = Join [basePath, ''data'']; certsPath = Join [basePath, ''certs''] in
      \<lparr>cfg_server =
         \<lparr>HTTPPort = getEnv env ''LONGCLAW_HTTP_PORT'' '':8080'',
          ISOPort = getEnv env ''LONGCLAW_ISO_PORT'' '':8443''\<rparr>,
       cfg_database = getEnv env ''LONGCLAW_DB_PATH'' (Join [dataPath, ''stress_test.db'']),
       cfg_tls =
         \<lparr>ServerCertPath = getEnv env ''LONGCLAW_SERVER_CERT'' (Join [certsPath, ''server'', ''server.crt'']),
          ServerKeyPath = getEnv env ''LONGCLAW_SERVER_KEY'' (Join [certsPath, ''server'', ''server.key'']),
          CAPath = getEnv env ''LONGCLAW_CA_CERT'' (Join [certsPath, ''server'', ''ca.crt'']),
          ClientCertPath = getEnv env ''LONGCLAW_CLIENT_CERT'' (Join [certsPath, ''client'', ''client.crt'']),
          ClientKeyPath = getEnv env ''LONGCLAW_CLIENT_KEY'' (Join [certsPath, ''client'', ''client.key'']),
          ExpectedCN = getEnv env ''LONGCLAW_EXPECTED_CN'' ''photon-client''\<rparr>,
       cfg_data =
         \<lparr>SpecPath = getEnv env ''LONGCLAW_SPEC_PATH'' (Join [dataPath, ''file_spec.json'']),
          CardsPath = getEnv env ''LONGCLAW_CARDS_PATH'' (Join [dataPath, ''test_cards.json'']),
          TemplatesPath = getEnv env ''LONGCLAW_TEMPLATES_PATH'' (Join [dataPath, ''template_messages.json'']),
          DataPath = dataPath\<rparr>\<rparr>)"

section \<open>Splitting and joining\<close>

lemma split_at_not_Nil [simp]: "split_at sep s \<noteq> []"
  by (induction s) (auto split: list.splits)

lemma split_at_no_sep: "sep \<notin> set p \<Longrightarrow> split_at sep p = [p]"
  by (induction p) auto

lemma split_at_append: "sep \<notin> set p \<Longrightarrow> split_at sep (p @ sep # s) = p # split_at sep s"
  by (induction p) (auto split: list.splits)

lemma split_join:
  "ps \<noteq> [] \<Longrightarrow> \<forall>p \<in> set ps. sep \<notin> set p \<Longrightarrow> split_at sep (join_with [sep] ps) = ps"
  by (induction ps rule: induct_list012) (auto simp: split_at_no_sep split_at_append)

lemma join_split: "join_with [sep] (split_at sep s) = s"
proof (induction s)
  case (Cons c s)
  obtain p ps where p: "split_at sep s = p # ps" by (cases "split_at sep s") auto
  with Cons show ?case by (cases ps) auto
qed simp

lemma split_at_parts: "p \<in> set (split_at sep s) \<Longrightarrow> sep \<notin> set p"
proof (induction s arbitrary: p)
  case (Cons c s)
  obtain q qs where "split_at sep s = q # qs" by (cases "split_at sep s") auto
  with Cons show ?case by (auto split: if_splits)
qed simp

lemma join_append:
  "ps \<noteq> [] \<Longrightarrow> qs \<noteq> [] \<Longrightarrow> join_with sep (ps @ qs) = join_with sep ps @ sep @ join_with sep qs"
  by (induction ps rule: induct_list012) (auto simp: neq_Nil_conv)

text \<open>Splitting a text with a slash in it.\<close>

lemma split_at_concat: "split_at sep (s @ sep # t) = split_at sep s @ split_at sep t"
proof (induction s)
  case (Cons c s)
  obtain q qs where "split_at sep s = q # qs" by (cases "split_at sep s") auto
  with Cons show ?case by simp
qed simp

section \<open>Clean paths\<close>

text \<open>The elements \<open>Clean\<close> keeps: proper names, after leading pairs of dots in a relative path.\<close>

definition name :: "string \<Rightarrow> bool" where
  "name p \<longleftrightarrow> p \<noteq> [] \<and> p \<noteq> ''.'' \<and> p \<noteq> ''..'' \<and> CHR ''/'' \<notin> set p"

definition kept :: "bool \<Rightarrow> string list \<Rightarrow> bool" where
  "kept rooted out \<longleftrightarrow>
     (\<exists>k names. out = names @ replicate k ''..'' \<and> (\<forall>p \<in> set names. name p) \<and> (rooted \<longrightarrow> k = 0))"

lemma kept_Nil [simp]: "kept rooted []"
  by (auto simp: kept_def)

lemma clean_step_kept:
  assumes "kept rooted out" "CHR ''/'' \<notin> set p"
  shows "kept rooted (clean_step rooted out p)"
proof -
  obtain k names where o: "out = names @ replicate k ''..''" "\<forall>p \<in> set names. name p" "rooted \<longrightarrow> k = 0"
    using assms(1) by (auto simp: kept_def)
  show ?thesis
  proof (cases "p = ''..''")
    case True
    show ?thesis
    proof (cases names)
      case Nil
      have "\<exists>j. clean_step rooted out p = replicate j ''..'' \<and> (rooted \<longrightarrow> j = 0)"
      proof (cases k)
        case 0
        with True Nil o show ?thesis by (auto intro: exI [of _ "if rooted then 0 else 1"])
      next
        case (Suc j)
        with True Nil o show ?thesis by (intro exI [of _ "Suc (Suc j)"]) auto
      qed
      then obtain j where "clean_step rooted out p = [] @ replicate j ''..''" "rooted \<longrightarrow> j = 0" by auto
      then show ?thesis unfolding kept_def by (intro exI [of _ j] exI [of _ "[]"]) simp
    next
      case (Cons q qs)
      then have "clean_step rooted out p = qs @ replicate k ''..''" using True o by (auto simp: name_def)
      then show ?thesis using o Cons unfolding kept_def by (intro exI [of _ k] exI [of _ qs]) auto
    qed
  next
    case False
    show ?thesis
    proof (cases "p = [] \<or> p = ''.''")
      case True
      then show ?thesis using assms(1) by simp
    next
      case proper: False
      then have "name p" "clean_step rooted out p = (p # names) @ replicate k ''..''"
        using False assms(2) o by (auto simp: name_def)
      then show ?thesis using o unfolding kept_def by (intro exI [of _ k] exI [of _ "p # names"]) auto
    qed
  qed
qed

lemma clean_fold_kept:
  "kept rooted out \<Longrightarrow> \<forall>p \<in> set ps. CHR ''/'' \<notin> set p \<Longrightarrow> kept rooted (foldl (clean_step rooted) out ps)"
  by (induction ps arbitrary: out) (auto simp del: clean_step.simps intro: clean_step_kept)

text \<open>Reading back what was kept keeps it.\<close>

lemma fold_dots: "foldl (clean_step False) (replicate j ''..'') (replicate k ''..'') = replicate (k + j) ''..''"
proof (induction k arbitrary: j)
  case (Suc k)
  have "clean_step False (replicate j ''..'') ''..'' = replicate (Suc j) ''..''" by (cases j) simp_all
  with Suc[of "Suc j"] show ?case by (simp del: clean_step.simps)
qed simp

lemma fold_names: "\<forall>p \<in> set ps. name p \<Longrightarrow> foldl (clean_step rooted) out ps = rev ps @ out"
  by (induction ps arbitrary: out) (auto simp: name_def)

lemma kept_fold: "kept rooted out \<Longrightarrow> foldl (clean_step rooted) [] (rev out) = out"
proof -
  assume "kept rooted out"
  then obtain k names where o: "out = names @ replicate k ''..''" "\<forall>p \<in> set names. name p" "rooted \<longrightarrow> k = 0"
    by (auto simp: kept_def)
  then have "foldl (clean_step rooted) [] (replicate k ''..'') = replicate k ''..''"
    using fold_dots[of 0 k] by (cases rooted) simp_all
  with o show ?thesis by (simp add: fold_names)
qed

lemma kept_parts: "kept rooted out \<Longrightarrow> p \<in> set out \<Longrightarrow> p \<noteq> [] \<and> CHR ''/'' \<notin> set p"
proof -
  assume "kept rooted out" "p \<in> set out"
  then have "name p \<or> p = ''..''" unfolding kept_def by (metis Un_iff in_set_replicate set_append)
  then show ?thesis by (auto simp: name_def)
qed

text \<open>The elements of a path, and how \<open>Clean\<close> writes them.\<close>

definition elements :: "string \<Rightarrow> string list" where
  "elements path = foldl (clean_step (hd path = CHR ''/'')) [] (split_at CHR ''/'' path)"

lemma elements_kept: "kept (hd path = CHR ''/'') (elements path)"
  unfolding elements_def by (rule clean_fold_kept) (auto dest: split_at_parts)

lemma Clean_elements:
  "path \<noteq> [] \<Longrightarrow> Clean path =
     (if hd path = CHR ''/'' then CHR ''/'' # join_with ''/'' (rev (elements path))
      else if elements path = [] then ''.'' else join_with ''/'' (rev (elements path)))"
  by (simp add: Clean_def elements_def Let_def)

lemma join_hd: "ps \<noteq> [] \<Longrightarrow> hd ps \<noteq> [] \<Longrightarrow> join_with sep ps \<noteq> [] \<and> hd (join_with sep ps) = hd (hd ps)"
  by (cases ps; cases "tl ps") auto

lemma split_written:
  assumes "kept rooted out" "out \<noteq> []"
  shows "split_at CHR ''/'' (join_with ''/'' (rev out)) = rev out"
  using assms kept_parts by (intro split_join) auto

lemma Clean_rooted:
  assumes "path \<noteq> []"
  shows "Clean path \<noteq> [] \<and> hd (Clean path) = CHR ''/'' \<longleftrightarrow> hd path = CHR ''/''"
proof (cases "hd path = CHR ''/''")
  case False
  have "hd (join_with ''/'' (rev (elements path))) \<noteq> CHR ''/''" if "elements path \<noteq> []"
  proof -
    have l: "last (elements path) \<noteq> []" "CHR ''/'' \<notin> set (last (elements path))"
      using kept_parts[OF elements_kept[of path], of "last (elements path)"] that by simp_all
    then have "hd (last (elements path)) \<noteq> CHR ''/''" by (metis hd_in_set)
    then show ?thesis using join_hd[of "rev (elements path)" "''/''"] that l by (simp add: hd_rev)
  qed
  with False assms show ?thesis by (simp add: Clean_elements)
qed (use assms in \<open>simp add: Clean_elements\<close>)

lemma elements_Clean:
  assumes "path \<noteq> []"
  shows "elements (Clean path) = elements path \<and> (hd (Clean path) = CHR ''/'') = (hd path = CHR ''/'') \<and> Clean path \<noteq> []"
proof -
  let ?out = "elements path"
  note k = elements_kept[of path]
  have ne: "Clean path \<noteq> []"
  proof (cases "hd path = CHR ''/'' \<or> ?out = []")
    case False
    then have "last ?out \<noteq> []" using kept_parts[OF k] by auto
    with False assms join_hd[of "rev ?out" "''/''"] show ?thesis by (simp add: Clean_elements hd_rev)
  qed (use assms in \<open>auto simp: Clean_elements\<close>)
  then have r: "(hd (Clean path) = CHR ''/'') = (hd path = CHR ''/'')" using Clean_rooted[OF assms] by blast
  have "elements (Clean path) = ?out"
  proof (cases "?out = []")
    case True
    with assms show ?thesis by (simp add: Clean_elements) (simp add: elements_def)
  next
    case False
    note w = split_written[OF k False]
    have "foldl (clean_step (hd path = CHR ''/'')) [] (split_at CHR ''/'' (Clean path)) = ?out"
      using assms False w kept_fold[OF k] by (cases "hd path = CHR ''/''") (simp_all add: Clean_elements)
    then show ?thesis unfolding elements_def[of "Clean path"] r .
  qed
  with ne r show ?thesis by blast
qed

text \<open>Names put below a path.\<close>

lemma elements_below:
  assumes "base \<noteq> []" "ps \<noteq> []" "\<forall>p \<in> set ps. name p"
  shows "elements (base @ CHR ''/'' # join_with ''/'' ps) = rev ps @ elements base"
proof -
  have "split_at CHR ''/'' (join_with ''/'' ps) = ps" using assms(2,3) by (intro split_join) (auto simp: name_def)
  with assms show ?thesis by (simp add: elements_def split_at_concat fold_names del: clean_step.simps)
qed

lemma Join_below:
  assumes "base \<noteq> []" "ps \<noteq> []" "\<forall>p \<in> set ps. name p"
  shows "Join (base # ps) = Clean (base @ CHR ''/'' # join_with ''/'' ps)"
  using assms by (cases ps) simp_all

lemma Clean_below:
  assumes "base \<noteq> []" "elements base \<noteq> []" "ps \<noteq> []" "\<forall>p \<in> set ps. name p"
  shows "Clean (base @ CHR ''/'' # join_with ''/'' ps) = Clean base @ CHR ''/'' # join_with ''/'' ps"
  using assms by (simp add: Clean_elements elements_below join_append)

lemma Join_Clean:
  assumes "base \<noteq> []" "ps \<noteq> []" "\<forall>p \<in> set ps. name p"
  shows "Join (Clean base # ps) = Join (base # ps)"
proof -
  have e: "elements (Clean base) = elements base" "(hd (Clean base) = CHR ''/'') = (hd base = CHR ''/'')" "Clean base \<noteq> []"
    using elements_Clean[OF assms(1)] by blast+
  show ?thesis
    unfolding Join_below[OF assms] Join_below[OF e(3) assms(2,3)]
    using Clean_elements[of "Clean base @ CHR ''/'' # join_with ''/'' ps"] Clean_elements[of "base @ CHR ''/'' # join_with ''/'' ps"]
      elements_below[OF assms] elements_below[OF e(3) assms(2,3)] assms(1) e by simp
qed

lemma Join_Join:
  assumes "base \<noteq> []" "elements base \<noteq> []" "ps \<noteq> []" "\<forall>p \<in> set ps. name p" "qs \<noteq> []" "\<forall>q \<in> set qs. name q"
  shows "Join (Join (base # ps) # qs) = Clean base @ CHR ''/'' # join_with ''/'' (ps @ qs)"
proof -
  let ?b = "base @ CHR ''/'' # join_with ''/'' ps"
  have "Join (Join (base # ps) # qs) = Join (?b # qs)"
    unfolding Join_below[OF assms(1,3,4)] using assms(5,6) by (intro Join_Clean) simp_all
  also have "\<dots> = Clean (?b @ CHR ''/'' # join_with ''/'' qs)"
    using assms(5,6) by (intro Join_below) simp_all
  also have "\<dots> = Clean ?b @ CHR ''/'' # join_with ''/'' qs"
    using assms by (intro Clean_below) (simp_all add: elements_below)
  finally show ?thesis using assms by (simp add: Clean_below join_append)
qed

lemma config_names:
  "name ''data''" "name ''certs''" "name ''server''" "name ''client''" "name ''stress_test.db''" "name ''file_spec.json''"
  "name ''test_cards.json''" "name ''template_messages.json''" "name ''server.crt''" "name ''server.key''" "name ''ca.crt''"
  "name ''client.crt''" "name ''client.key''"
  by (simp_all add: name_def)

section \<open>Properties\<close>

text \<open>The setting each variable holds.\<close>

definition setting :: "string \<Rightarrow> string \<Rightarrow> Config \<Rightarrow> Config" where
  "setting k v c =
     (if k = ''LONGCLAW_HTTP_PORT'' then c\<lparr>cfg_server := (cfg_server c)\<lparr>HTTPPort := v\<rparr>\<rparr>
      else if k = ''LONGCLAW_ISO_PORT'' then c\<lparr>cfg_server := (cfg_server c)\<lparr>ISOPort := v\<rparr>\<rparr>
      else if k = ''LONGCLAW_DB_PATH'' then c\<lparr>cfg_database := v\<rparr>
      else if k = ''LONGCLAW_SERVER_CERT'' then c\<lparr>cfg_tls := (cfg_tls c)\<lparr>ServerCertPath := v\<rparr>\<rparr>
      else if k = ''LONGCLAW_SERVER_KEY'' then c\<lparr>cfg_tls := (cfg_tls c)\<lparr>ServerKeyPath := v\<rparr>\<rparr>
      else if k = ''LONGCLAW_CA_CERT'' then c\<lparr>cfg_tls := (cfg_tls c)\<lparr>CAPath := v\<rparr>\<rparr>
      else if k = ''LONGCLAW_CLIENT_CERT'' then c\<lparr>cfg_tls := (cfg_tls c)\<lparr>ClientCertPath := v\<rparr>\<rparr>
      else if k = ''LONGCLAW_CLIENT_KEY'' then c\<lparr>cfg_tls := (cfg_tls c)\<lparr>ClientKeyPath := v\<rparr>\<rparr>
      else if k = ''LONGCLAW_EXPECTED_CN'' then c\<lparr>cfg_tls := (cfg_tls c)\<lparr>ExpectedCN := v\<rparr>\<rparr>
      else if k = ''LONGCLAW_SPEC_PATH'' then c\<lparr>cfg_data := (cfg_data c)\<lparr>SpecPath := v\<rparr>\<rparr>
      else if k = ''LONGCLAW_CARDS_PATH'' then c\<lparr>cfg_data := (cfg_data c)\<lparr>CardsPath := v\<rparr>\<rparr>
      else if k = ''LONGCLAW_TEMPLATES_PATH'' then c\<lparr>cfg_data := (cfg_data c)\<lparr>TemplatesPath := v\<rparr>\<rparr>
      else c)"

text \<open>The configuration without any variable, below a directory \<open>root\<close>.\<close>

definition default_config :: "string \<Rightarrow> Config" where
  "default_config root =
     \<lparr>cfg_server = \<lparr>HTTPPort = '':8080'', ISOPort = '':8443''\<rparr>,
      cfg_database = root @ ''/data/stress_test.db'',
      cfg_tls =
        \<lparr>ServerCertPath = root @ ''/certs/server/server.crt'', ServerKeyPath = root @ ''/certs/server/server.key'',
         CAPath = root @ ''/certs/server/ca.crt'', ClientCertPath = root @ ''/certs/client/client.crt'',
         ClientKeyPath = root @ ''/certs/client/client.key'', ExpectedCN = ''photon-client''\<rparr>,
      cfg_data =
        \<lparr>SpecPath = root @ ''/data/file_spec.json'', CardsPath = root @ ''/data/test_cards.json'',
         TemplatesPath = root @ ''/data/template_messages.json'', DataPath = root @ ''/data''\<rparr>\<rparr>"

lemma getEnv_update: "getEnv (env(k \<mapsto> v)) q d = (if q = k then v else getEnv env q d)"
  by (simp add: getEnv_def)

text \<open>The configuration with its twelve variables read by \<open>g\<close>.\<close>

lemma Load_setting: "Load (env(k \<mapsto> v)) base = setting k v (Load env base)"
proof -
  note eval = Load_def Let_def getEnv_update setting_def
  consider "k = ''LONGCLAW_HTTP_PORT''"
    | "k = ''LONGCLAW_ISO_PORT''"
    | "k = ''LONGCLAW_DB_PATH''"
    | "k = ''LONGCLAW_SERVER_CERT''"
    | "k = ''LONGCLAW_SERVER_KEY''"
    | "k = ''LONGCLAW_CA_CERT''"
    | "k = ''LONGCLAW_CLIENT_CERT''"
    | "k = ''LONGCLAW_CLIENT_KEY''"
    | "k = ''LONGCLAW_EXPECTED_CN''"
    | "k = ''LONGCLAW_SPEC_PATH''"
    | "k = ''LONGCLAW_CARDS_PATH''"
    | "k = ''LONGCLAW_TEMPLATES_PATH''"
    | "k \<noteq> ''LONGCLAW_HTTP_PORT''" "k \<noteq> ''LONGCLAW_ISO_PORT''" "k \<noteq> ''LONGCLAW_DB_PATH''" "k \<noteq> ''LONGCLAW_SERVER_CERT''" "k \<noteq> ''LONGCLAW_SERVER_KEY''" "k \<noteq> ''LONGCLAW_CA_CERT''" "k \<noteq> ''LONGCLAW_CLIENT_CERT''" "k \<noteq> ''LONGCLAW_CLIENT_KEY''" "k \<noteq> ''LONGCLAW_EXPECTED_CN''" "k \<noteq> ''LONGCLAW_SPEC_PATH''" "k \<noteq> ''LONGCLAW_CARDS_PATH''" "k \<noteq> ''LONGCLAW_TEMPLATES_PATH''"
    by blast
  then show ?thesis
  proof cases
    case 13
    then show ?thesis unfolding eval by (simp del: Join.simps)
  qed (simp_all add: eval del: Join.simps)
qed

lemma elements_cleaned: "base \<noteq> [] \<Longrightarrow> Clean base \<notin> {''/'', ''.''} \<Longrightarrow> elements base \<noteq> []"
  by (auto simp: Clean_elements split: if_splits)

text \<open>
  C36: Each environment variable sets its setting and no other, even when it is set to the empty
  text; how the base path is written does not matter, only the path it cleans to; and without
  variables every file lies below that path.
\<close>

theorem settings_from_environment:
  assumes "base \<noteq> []"
  shows "Load (env(k \<mapsto> v)) base = setting k v (Load env base) \<and> Load env (Clean base) = Load env base
         \<and> (Clean base \<notin> {''/'', ''.''} \<longrightarrow> Load Map.empty base = default_config (Clean base))"
proof (intro conjI impI)
  show "Load (env(k \<mapsto> v)) base = setting k v (Load env base)" by (rule Load_setting)
  have j: "Join [Clean base, ''data''] = Join [base, ''data'']" "Join [Clean base, ''certs''] = Join [base, ''certs'']"
    using assms config_names by (intro Join_Clean; simp)+
  show "Load env (Clean base) = Load env base" unfolding Load_def j ..
  assume "Clean base \<notin> {''/'', ''.''}"
  note e = elements_cleaned[OF assms this]
  have below: "Join [base, ''data''] = Clean base @ ''/data''"
    using Join_below[OF assms, of "[''data'']"] Clean_below[OF assms e, of "[''data'']"] config_names by simp
  show "Load Map.empty base = default_config (Clean base)"
    using Join_Join[OF assms e, of "[''data'']"] Join_Join[OF assms e, of "[''certs'']"] config_names
    by (simp add: Load_def default_config_def getEnv_def Let_def below del: Join.simps)
qed

theorem settings_from_environment_witness:
  "cfg_database (Load Map.empty ''/opt/./longclaw/'') = ''/opt/longclaw/data/stress_test.db''
   \<and> Load [''LONGCLAW_ISO_PORT'' \<mapsto> []] ''/opt/./longclaw/'' = setting ''LONGCLAW_ISO_PORT'' [] (Load Map.empty ''/opt/./longclaw/'')"
proof -
  have "Clean ''/opt/./longclaw/'' = ''/opt/longclaw''" by (simp add: Clean_def Let_def)
  with settings_from_environment[of "''/opt/./longclaw/''" Map.empty "''LONGCLAW_ISO_PORT''" "[]"] show ?thesis
    by (simp add: default_config_def)
qed

end
