(* ===== verification/Http.thy ===== *)
theory Http
  imports Config
begin

text \<open>
  \<open>handlers/health_handler.go\<close>: which handler a request reaches, and how the HTTP server ends. The
  patterns are those \<open>routes\<close> registers, read and matched as \<open>http.ServeMux\<close> does since Go 1.22: an
  optional method, where \<open>GET\<close> also stands for \<open>HEAD\<close>, then a path whose braced elements match
  any one element. The path is the escaped one, \<open>r.URL.EscapedPath()\<close>: if it is not clean it is
  redirected to its clean form, otherwise its elements are unescaped one by one before they are
  matched, so an element may be spelled with percent signs and a handler gets it decoded.
\<close>

section \<open>Patterns\<close>

datatype segment = Literal string | Wildcard

record pattern =
  pat_method :: "string option"
  pat_path :: "segment list"

definition parse_segment :: "string \<Rightarrow> segment" where
  "parse_segment s = (if s \<noteq> [] \<and> hd s = CHR ''{'' \<and> last s = CHR ''}'' then Wildcard else Literal s)"

definition parse_pattern :: "string \<Rightarrow> pattern" where
  "parse_pattern s =
     (case split_at CHR '' '' s of
        [m, p] \<Rightarrow> \<lparr>pat_method = Some m, pat_path = map parse_segment (split_at CHR ''/'' (tl p))\<rparr>
      | _ \<Rightarrow> \<lparr>pat_method = None, pat_path = map parse_segment (split_at CHR ''/'' (tl s))\<rparr>)"

text \<open>\<open>url.PathUnescape\<close>, and the elements of a path as the routing tree takes them off: the slash
  at the end of a path is the element \<open>/\<close>, and an element that does not unescape stays as it is.\<close>

definition hex_val :: "char \<Rightarrow> nat option" where
  "hex_val c =
     (let n = of_char c in
      if 48 \<le> n \<and> n \<le> 57 then Some (n - 48)
      else if 97 \<le> n \<and> n \<le> 102 then Some (n - 87)
      else if 65 \<le> n \<and> n \<le> 70 then Some (n - 55) else None)"

fun PathUnescape :: "string \<Rightarrow> string option" where
  "PathUnescape [] = Some []"
| "PathUnescape (c # s) =
     (if c = CHR ''%'' then
        (case s of
           a # b # t \<Rightarrow>
             (case (hex_val a, hex_val b) of
                (Some x, Some y) \<Rightarrow> map_option ((#) (char_of (16 * x + y))) (PathUnescape t)
              | _ \<Rightarrow> None)
         | _ \<Rightarrow> None)
      else map_option ((#) c) (PathUnescape s))"

definition pathUnescape :: "string \<Rightarrow> string" where
  "pathUnescape s = (case PathUnescape s of None \<Rightarrow> s | Some u \<Rightarrow> u)"

function path_segments :: "string \<Rightarrow> string list" where
  "path_segments p =
     (if p = [] then [] else if p = ''/'' then [''/'']
      else pathUnescape (takeWhile (\<lambda>c. c \<noteq> CHR ''/'') (tl p)) # path_segments (dropWhile (\<lambda>c. c \<noteq> CHR ''/'') (tl p)))"
  by pat_completeness auto
termination
  by (relation "measure length") (auto simp: neq_Nil_conv le_imp_less_Suc length_dropWhile_le)

declare path_segments.simps [simp del]

fun match_path :: "segment list \<Rightarrow> string list \<Rightarrow> string list option" where
  "match_path [] [] = Some []"
| "match_path (Literal l # ps) (s # ss) = (if l = s then match_path ps ss else None)"
| "match_path (Wildcard # ps) (s # ss) = (if s = [] \<or> s = ''/'' then None else map_option ((#) s) (match_path ps ss))"
| "match_path _ _ = None"

definition match_method :: "string option \<Rightarrow> string \<Rightarrow> bool" where
  "match_method pm m \<longleftrightarrow> (case pm of None \<Rightarrow> True | Some p \<Rightarrow> p = m \<or> p = ''GET'' \<and> m = ''HEAD'')"

section \<open>Routes\<close>

datatype endpoint = ToHealth | ToGetClients | ToTestClient | ToCreateTest | ToGetTestResults | ToSendMessage | ToSystemInfo

definition routes :: "(string \<times> endpoint) list" where
  "routes =
     [(''/health'', ToHealth),
      (''GET /api/clients'', ToGetClients),
      (''POST /api/clients/test'', ToTestClient),
      (''POST /api/stress_tests'', ToCreateTest),
      (''GET /api/stress_tests/{id}/results'', ToGetTestResults),
      (''POST /api/clients/message'', ToSendMessage),
      (''GET /api/system_info'', ToSystemInfo)]"

text \<open>What a request comes to: a handler and the values of its wildcards, a redirection, an
  answer 405 because the path only has other methods, or 404.\<close>

datatype dispatched = Handled endpoint "string list" | Redirected string | MethodNotAllowed | NotFound

definition clean_path :: "string \<Rightarrow> string" where
  "clean_path p =
     (if p = [] then ''/''
      else
        let q = (if hd p = CHR ''/'' then p else CHR ''/'' # p); c = Clean q in
        if last q = CHR ''/'' \<and> c \<noteq> ''/'' then c @ ''/'' else c)"

definition route_matches :: "string \<Rightarrow> string list \<Rightarrow> (string \<times> endpoint) list \<Rightarrow> (endpoint \<times> string list) list" where
  "route_matches m ss rs =
     List.map_filter (\<lambda>(pat, h).
       if match_method (pat_method (parse_pattern pat)) m
       then map_option (Pair h) (match_path (pat_path (parse_pattern pat)) ss) else None) rs"

definition dispatch :: "string \<Rightarrow> string \<Rightarrow> dispatched" where
  "dispatch m path =
     (if m \<noteq> ''CONNECT'' \<and> clean_path path \<noteq> path then Redirected (clean_path path)
      else
        let ss = path_segments path in
        case route_matches m ss routes of
          (h, vs) # _ \<Rightarrow> Handled h vs
        | [] \<Rightarrow>
            if list_ex (\<lambda>(pat, _). match_path (pat_path (parse_pattern pat)) ss \<noteq> None) routes
            then MethodNotAllowed else NotFound)"

section \<open>Serving until the context ends\<close>

datatype serve_event = ServeFailed string | ContextEnded

text \<open>The error \<open>StartServer\<close> returns, if any: that of \<open>ListenAndServe\<close>, or that of \<open>Shutdown\<close> when
  requests are still being served after five seconds.\<close>

definition StartServer :: "serve_event \<Rightarrow> bool \<Rightarrow> string option" where
  "StartServer ev drained =
     (case ev of
        ServeFailed e \<Rightarrow> Some e
      | ContextEnded \<Rightarrow> if drained then None else Some ''context deadline exceeded'')"

definition health_answer :: "string \<Rightarrow> string" where
  "health_answer version = version"

section \<open>What is routed where\<close>

lemma route_patterns:
  "map (parse_pattern \<circ> fst) routes =
     [\<lparr>pat_method = None, pat_path = [Literal ''health'']\<rparr>,
      \<lparr>pat_method = Some ''GET'', pat_path = [Literal ''api'', Literal ''clients'']\<rparr>,
      \<lparr>pat_method = Some ''POST'', pat_path = [Literal ''api'', Literal ''clients'', Literal ''test'']\<rparr>,
      \<lparr>pat_method = Some ''POST'', pat_path = [Literal ''api'', Literal ''stress_tests'']\<rparr>,
      \<lparr>pat_method = Some ''GET'', pat_path = [Literal ''api'', Literal ''stress_tests'', Wildcard, Literal ''results'']\<rparr>,
      \<lparr>pat_method = Some ''POST'', pat_path = [Literal ''api'', Literal ''clients'', Literal ''message'']\<rparr>,
      \<lparr>pat_method = Some ''GET'', pat_path = [Literal ''api'', Literal ''system_info'']\<rparr>]"
  by (simp add: routes_def parse_pattern_def parse_segment_def)

lemma match_literals: "match_path (map Literal ls) ss = (if ss = ls then Some [] else None)"
proof (induction ls arbitrary: ss)
  case Nil
  then show ?case by (cases ss) auto
next
  case (Cons l ls)
  then show ?case by (cases ss) auto
qed

lemma match_wildcard:
  "match_path (map Literal ls @ Wildcard # map Literal ks) ss =
     (if length ss = length ls + Suc (length ks) \<and> take (length ls) ss = ls \<and> ss ! length ls \<noteq> []
          \<and> ss ! length ls \<noteq> ''/'' \<and> drop (Suc (length ls)) ss = ks
      then Some [ss ! length ls] else None)"
proof (induction ls arbitrary: ss)
  case Nil
  then show ?case by (cases ss) (auto simp: match_literals)
next
  case (Cons l ls)
  then show ?case by (cases ss) auto
qed

text \<open>The elements of each route.\<close>

definition is_get :: "string \<Rightarrow> bool" where "is_get m \<longleftrightarrow> m = ''GET'' \<or> m = ''HEAD''"

definition results_segments :: "string list \<Rightarrow> bool" where
  "results_segments ss \<longleftrightarrow> (\<exists>i. i \<noteq> [] \<and> i \<noteq> ''/'' \<and> ss = [''api'', ''stress_tests'', i, ''results''])"

lemma match_results:
  "match_path [Literal ''api'', Literal ''stress_tests'', Wildcard, Literal ''results''] ss =
     (if results_segments ss then Some [ss ! 2] else None)"
proof -
  have "length ss = 4 \<and> take 2 ss = [''api'', ''stress_tests''] \<and> ss ! 2 \<noteq> [] \<and> ss ! 2 \<noteq> ''/'' \<and> drop 3 ss = [''results'']
      \<longleftrightarrow> results_segments ss"
  proof
    assume a: "length ss = 4 \<and> take 2 ss = [''api'', ''stress_tests''] \<and> ss ! 2 \<noteq> [] \<and> ss ! 2 \<noteq> ''/'' \<and> drop 3 ss = [''results'']"
    then have "ss = take 2 ss @ ss ! 2 # drop 3 ss" using id_take_nth_drop[of 2 ss] by simp
    with a show "results_segments ss" by (auto simp: results_segments_def)
  qed (auto simp: results_segments_def)
  then show ?thesis
    using match_wildcard[of "[''api'', ''stress_tests'']" "[''results'']" ss] by (simp add: numeral_eq_Suc)
qed

lemma map_filter_map: "List.map_filter f (map g xs) = List.map_filter (f \<circ> g) xs"
  by (simp add: List.map_filter_def filter_map comp_def)

lemma route_matches_eval:
  "route_matches m ss routes =
     (if ss = [''health''] then [(ToHealth, [])]
      else if ss = [''api'', ''clients''] then if is_get m then [(ToGetClients, [])] else []
      else if ss = [''api'', ''clients'', ''test''] then if m = ''POST'' then [(ToTestClient, [])] else []
      else if ss = [''api'', ''stress_tests''] then if m = ''POST'' then [(ToCreateTest, [])] else []
      else if results_segments ss then if is_get m then [(ToGetTestResults, [ss ! 2])] else []
      else if ss = [''api'', ''clients'', ''message''] then if m = ''POST'' then [(ToSendMessage, [])] else []
      else if ss = [''api'', ''system_info''] then if is_get m then [(ToSystemInfo, [])] else []
      else [])"
proof -
  have r: "route_matches m ss routes =
      List.map_filter (\<lambda>(pat, h). if match_method (pat_method pat) m then map_option (Pair h) (match_path (pat_path pat) ss) else None)
        (zip (map (parse_pattern \<circ> fst) routes) (map snd routes))"
  proof -
    have z: "zip (map (parse_pattern \<circ> fst) rs) (map snd rs) = map (\<lambda>x. (parse_pattern (fst x), snd x)) rs" for rs :: "(string \<times> endpoint) list"
      by (induction rs) simp_all
    show ?thesis unfolding z map_filter_map route_matches_def
      by (intro arg_cong[where f = "\<lambda>f. List.map_filter f routes"] ext) (auto split: prod.split)
  qed
  have l: "match_path [Literal a] ss = (if ss = [a] then Some [] else None)"
    "match_path [Literal a, Literal b] ss = (if ss = [a, b] then Some [] else None)"
    "match_path [Literal a, Literal b, Literal c] ss = (if ss = [a, b, c] then Some [] else None)" for a b c
    using match_literals[of "[a]" ss] match_literals[of "[a, b]" ss] match_literals[of "[a, b, c]" ss] by simp_all
  have g: "match_method (Some ''GET'') m = is_get m" "match_method (Some ''POST'') m = (m = ''POST'')" "match_method None m"
    by (auto simp: match_method_def is_get_def)
  have r': "route_matches m ss routes =
      (if ss = [''health''] then [(ToHealth, [])] else [])
      @ (if ss = [''api'', ''clients''] \<and> is_get m then [(ToGetClients, [])] else [])
      @ (if ss = [''api'', ''clients'', ''test''] \<and> m = ''POST'' then [(ToTestClient, [])] else [])
      @ (if ss = [''api'', ''stress_tests''] \<and> m = ''POST'' then [(ToCreateTest, [])] else [])
      @ (if results_segments ss \<and> is_get m then [(ToGetTestResults, [ss ! 2])] else [])
      @ (if ss = [''api'', ''clients'', ''message''] \<and> m = ''POST'' then [(ToSendMessage, [])] else [])
      @ (if ss = [''api'', ''system_info''] \<and> is_get m then [(ToSystemInfo, [])] else [])"
  proof -
    have f: "List.map_filter f (x # xs) = (case f x of None \<Rightarrow> [] | Some y \<Rightarrow> [y]) @ List.map_filter f xs" for f :: "'a \<Rightarrow> 'b option" and x xs
      by (simp add: List.map_filter_def split: option.split)
    have h: "(case (if A then map_option (Pair e) (if B then Some v else None) else None) of None \<Rightarrow> [] | Some y \<Rightarrow> [y])
        = (if B \<and> A then [(e, v)] else [])" for A B and e :: endpoint and v :: "string list"
      by simp
    show ?thesis
      unfolding r route_patterns unfolding routes_def list.map snd_conv zip_Cons_Cons zip_Nil f prod.case pattern.simps l g match_results h
      by (simp only: g List.map_filter_simps simp_thms append_Nil2)
  qed
  have no: "\<not> results_segments xs" if "length xs \<noteq> 4" for xs using that by (auto simp: results_segments_def)
  consider "ss = [''health'']"
    | "ss = [''api'', ''clients'']"
    | "ss = [''api'', ''clients'', ''test'']"
    | "ss = [''api'', ''stress_tests'']"
    | "ss = [''api'', ''clients'', ''message'']"
    | "ss = [''api'', ''system_info'']"
    | "results_segments ss"
    | "\<not> results_segments ss" "ss \<noteq> [''health'']" "ss \<noteq> [''api'', ''clients'']" "ss \<noteq> [''api'', ''clients'', ''test'']" "ss \<noteq> [''api'', ''stress_tests'']" "ss \<noteq> [''api'', ''clients'', ''message'']" "ss \<noteq> [''api'', ''system_info'']"
    by argo
  then show ?thesis
  proof cases
    case 7
    then obtain i where "ss = [''api'', ''stress_tests'', i, ''results'']" by (auto simp: results_segments_def)
    with 7 show ?thesis unfolding r' by simp
  qed (unfold r', simp_all add: no)
qed

section \<open>Spellings of a path\<close>

text \<open>The elements a path is written with: a slash and an element in turn, each of which spells the
  name it stands for, literally or with percent signs.\<close>

definition spells :: "string \<Rightarrow> string list \<Rightarrow> bool" where
  "spells p ss \<longleftrightarrow>
     (\<exists>es. p = concat (map ((#) CHR ''/'') es) \<and> (\<forall>e \<in> set es. CHR ''/'' \<notin> set e) \<and> ss = map pathUnescape es)"

lemma pathUnescape_Nil [simp]: "pathUnescape [] = []"
  by (simp add: pathUnescape_def)

lemma pathUnescape_plain [simp]: "CHR ''%'' \<notin> set s \<Longrightarrow> pathUnescape s = s"
proof -
  assume "CHR ''%'' \<notin> set s"
  then have "PathUnescape s = Some s" by (induction s) auto
  then show ?thesis by (simp add: pathUnescape_def)
qed

lemma path_segments_element:
  assumes "CHR ''/'' \<notin> set e" "p = [] \<or> hd p = CHR ''/''" "e \<noteq> [] \<or> p \<noteq> []"
  shows "path_segments (CHR ''/'' # e @ p) = pathUnescape e # path_segments p"
proof -
  have t: "takeWhile (\<lambda>c. c \<noteq> CHR ''/'') p = []" "dropWhile (\<lambda>c. c \<noteq> CHR ''/'') p = p"
    using assms(2) by (cases p; simp)+
  have "\<And>c. c \<in> set e \<Longrightarrow> c \<noteq> CHR ''/''" using assms(1) by blast
  then have "takeWhile (\<lambda>c. c \<noteq> CHR ''/'') (e @ p) = e" "dropWhile (\<lambda>c. c \<noteq> CHR ''/'') (e @ p) = p"
    by (simp_all add: t)
  then show ?thesis using assms(3) path_segments.simps[of "CHR ''/'' # e @ p"] by auto
qed

lemma concat_slashes: "concat (map ((#) c) es) = [] \<or> hd (concat (map ((#) c) es)) = c"
  by (cases es) simp_all

lemma path_segments_elements:
  assumes "\<forall>e \<in> set es. CHR ''/'' \<notin> set e" "es = [] \<or> last es \<noteq> []"
  shows "path_segments (concat (map ((#) CHR ''/'') es)) = map pathUnescape es"
  using assms
proof (induction es)
  case Nil
  show ?case by (simp add: path_segments.simps)
next
  case (Cons e es)
  have "path_segments (CHR ''/'' # e @ concat (map ((#) CHR ''/'') es)) = pathUnescape e # path_segments (concat (map ((#) CHR ''/'') es))"
    using Cons.prems by (intro path_segments_element concat_slashes) (auto split: if_splits)
  with Cons show ?case by (cases es) auto
qed

lemma elements_of_path:
  "p = [] \<or> hd p = CHR ''/'' \<Longrightarrow> \<exists>es. p = concat (map ((#) CHR ''/'') es) \<and> (\<forall>e \<in> set es. CHR ''/'' \<notin> set e)"
proof (induction p rule: measure_induct_rule[of length])
  case (less p)
  show ?case
  proof (cases p)
    case Nil
    then show ?thesis by (intro exI [of _ "[]"]) simp
  next
    case (Cons c q)
    let ?e = "takeWhile (\<lambda>c. c \<noteq> CHR ''/'') q" and ?r = "dropWhile (\<lambda>c. c \<noteq> CHR ''/'') q"
    have "length ?r < length p" by (simp add: Cons le_imp_less_Suc length_dropWhile_le)
    moreover have "?r = [] \<or> hd ?r = CHR ''/''" using hd_dropWhile[of "\<lambda>c. c \<noteq> CHR ''/''" q] by auto
    ultimately obtain es where es: "?r = concat (map ((#) CHR ''/'') es)" "\<forall>e \<in> set es. CHR ''/'' \<notin> set e"
      using less.IH by blast
    have "p = concat (map ((#) CHR ''/'') (?e # es))" using less.prems Cons es(1) by (simp flip: es(1))
    moreover have "CHR ''/'' \<notin> set ?e" using set_takeWhileD by fastforce
    ultimately show ?thesis using es(2) by (intro exI [of _ "?e # es"]) simp
  qed
qed

lemma path_segments_last:
  assumes "\<forall>e \<in> set es. CHR ''/'' \<notin> set e" "es \<noteq> []" "last es = []"
  shows "last (path_segments (concat (map ((#) CHR ''/'') es))) = ''/'' \<and> path_segments (concat (map ((#) CHR ''/'') es)) \<noteq> []"
  using assms
proof (induction es)
  case (Cons e es)
  show ?case
  proof (cases es)
    case Nil
    then show ?thesis using Cons.prems by (simp add: path_segments.simps)
  next
    case (Cons f fs)
    have "path_segments (CHR ''/'' # e @ concat (map ((#) CHR ''/'') es)) = pathUnescape e # path_segments (concat (map ((#) CHR ''/'') es))"
      using Cons.prems Cons by (intro path_segments_element concat_slashes) auto
    with Cons.IH Cons.prems Cons show ?thesis by simp
  qed
qed simp

text \<open>The elements taken off are those the path spells, unless it ends in a slash.\<close>

lemma path_segments_spells:
  assumes "p = [] \<or> hd p = CHR ''/''" "ss \<noteq> []" "last ss \<noteq> []" "last ss \<noteq> ''/''"
  shows "path_segments p = ss \<longleftrightarrow> spells p ss"
proof
  assume s: "path_segments p = ss"
  obtain es where es: "p = concat (map ((#) CHR ''/'') es)" "\<forall>e \<in> set es. CHR ''/'' \<notin> set e"
    using elements_of_path[OF assms(1)] by blast
  have "es = [] \<or> last es \<noteq> []" using path_segments_last[OF es(2)] s assms(4) es(1) by auto
  from path_segments_elements[OF es(2) this] es s show "spells p ss" by (auto simp: spells_def)
next
  assume "spells p ss"
  then obtain es where es: "p = concat (map ((#) CHR ''/'') es)" "\<forall>e \<in> set es. CHR ''/'' \<notin> set e" "ss = map pathUnescape es"
    by (auto simp: spells_def)
  have "es = [] \<or> last es \<noteq> []" using assms(2,3) es(3) by (auto simp: last_map)
  from path_segments_elements[OF es(2) this] es show "path_segments p = ss" by simp
qed

lemma clean_path_slash: "clean_path p = p \<Longrightarrow> hd p = CHR ''/''"
proof -
  assume c: "clean_path p = p"
  show ?thesis
  proof (cases "p = []")
    case False
    let ?q = "if hd p = CHR ''/'' then p else CHR ''/'' # p"
    have "Clean ?q \<noteq> [] \<and> hd (Clean ?q) = CHR ''/''" using Clean_rooted[of ?q] elements_Clean[of ?q] False by auto
    moreover have "p = Clean ?q \<or> p = Clean ?q @ ''/''" using c False by (auto simp: clean_path_def Let_def split: if_splits)
    ultimately show ?thesis by (metis hd_append2)
  qed (use c in \<open>simp add: clean_path_def\<close>)
qed

text \<open>A path with no percent sign is spelled in one way.\<close>

lemma spells_plain:
  "CHR ''%'' \<notin> set p \<Longrightarrow> spells p ss \<longleftrightarrow> p = concat (map ((#) CHR ''/'') ss) \<and> (\<forall>s \<in> set ss. CHR ''/'' \<notin> set s)"
proof -
  assume p: "CHR ''%'' \<notin> set p"
  have "map pathUnescape es = es" if "p = concat (map ((#) CHR ''/'') es)" for es
    using p that by (auto intro!: map_idI pathUnescape_plain split: if_splits)
  then show ?thesis unfolding spells_def by metis
qed

section \<open>Properties\<close>

definition route_spec :: "string \<Rightarrow> string \<Rightarrow> endpoint \<Rightarrow> string list \<Rightarrow> bool" where
  "route_spec m p h vs \<longleftrightarrow>
     (case h of
        ToHealth \<Rightarrow> spells p [''health''] \<and> vs = []
      | ToGetClients \<Rightarrow> is_get m \<and> spells p [''api'', ''clients''] \<and> vs = []
      | ToTestClient \<Rightarrow> m = ''POST'' \<and> spells p [''api'', ''clients'', ''test''] \<and> vs = []
      | ToCreateTest \<Rightarrow> m = ''POST'' \<and> spells p [''api'', ''stress_tests''] \<and> vs = []
      | ToGetTestResults \<Rightarrow> is_get m \<and>
          (\<exists>i. i \<noteq> [] \<and> i \<noteq> ''/'' \<and> spells p [''api'', ''stress_tests'', i, ''results''] \<and> vs = [i])
      | ToSendMessage \<Rightarrow> m = ''POST'' \<and> spells p [''api'', ''clients'', ''message''] \<and> vs = []
      | ToSystemInfo \<Rightarrow> is_get m \<and> spells p [''api'', ''system_info''] \<and> vs = [])"

lemma dispatch_Handled:
  "dispatch m p = Handled h vs \<longleftrightarrow>
     (m = ''CONNECT'' \<or> clean_path p = p) \<and> (\<exists>rest. route_matches m (path_segments p) routes = (h, vs) # rest)"
  by (auto simp: dispatch_def Let_def split: list.splits if_splits prod.splits)

lemma route_matches_segments:
  "(\<exists>rest. route_matches m ss routes = (h, vs) # rest) \<longleftrightarrow>
     (case h of
        ToHealth \<Rightarrow> ss = [''health''] \<and> vs = []
      | ToGetClients \<Rightarrow> is_get m \<and> ss = [''api'', ''clients''] \<and> vs = []
      | ToTestClient \<Rightarrow> m = ''POST'' \<and> ss = [''api'', ''clients'', ''test''] \<and> vs = []
      | ToCreateTest \<Rightarrow> m = ''POST'' \<and> ss = [''api'', ''stress_tests''] \<and> vs = []
      | ToGetTestResults \<Rightarrow> is_get m \<and>
          (\<exists>i. i \<noteq> [] \<and> i \<noteq> ''/'' \<and> ss = [''api'', ''stress_tests'', i, ''results''] \<and> vs = [i])
      | ToSendMessage \<Rightarrow> m = ''POST'' \<and> ss = [''api'', ''clients'', ''message''] \<and> vs = []
      | ToSystemInfo \<Rightarrow> is_get m \<and> ss = [''api'', ''system_info''] \<and> vs = [])"
proof -
  have no: "\<not> results_segments xs" if "length xs \<noteq> 4" for xs using that by (auto simp: results_segments_def)
  consider "ss = [''health'']" | "ss = [''api'', ''clients'']" | "ss = [''api'', ''clients'', ''test'']"
    | "ss = [''api'', ''stress_tests'']" | "ss = [''api'', ''clients'', ''message'']" | "ss = [''api'', ''system_info'']"
    | "results_segments ss"
    | "\<not> results_segments ss" "ss \<noteq> [''health'']" "ss \<noteq> [''api'', ''clients'']" "ss \<noteq> [''api'', ''clients'', ''test'']"
      "ss \<noteq> [''api'', ''stress_tests'']" "ss \<noteq> [''api'', ''clients'', ''message'']" "ss \<noteq> [''api'', ''system_info'']"
    by argo
  then show ?thesis
  proof cases
    case 7
    then obtain i where "i \<noteq> []" "i \<noteq> ''/''" "ss = [''api'', ''stress_tests'', i, ''results'']"
      by (auto simp: results_segments_def)
    with 7 show ?thesis unfolding route_matches_eval by (cases h) auto
  next
    case 8
    then have r: "route_matches m ss routes = []" unfolding route_matches_eval by simp
    have n: "ss \<noteq> [''api'', ''stress_tests'', i, ''results'']" if "i \<noteq> []" "i \<noteq> ''/''" for i
      using 8(1) that by (auto simp: results_segments_def)
    show ?thesis
    proof (cases h)
      case ToGetTestResults
      with n show ?thesis unfolding r by auto
    qed (use 8(2-7) in \<open>simp_all add: r\<close>)
  qed (unfold route_matches_eval, (cases h; simp add: no; blast)+)
qed

lemma route_matches_spec:
  assumes "p = [] \<or> hd p = CHR ''/''"
  shows "(\<exists>rest. route_matches m (path_segments p) routes = (h, vs) # rest) \<longleftrightarrow> route_spec m p h vs"
proof -
  have sp: "spells p ss \<longleftrightarrow> path_segments p = ss" if "ss \<noteq> []" "last ss \<noteq> []" "last ss \<noteq> ''/''" for ss
    using path_segments_spells[OF assms that] by simp
  show ?thesis unfolding route_matches_segments route_spec_def by (cases h) (simp_all add: sp)
qed

text \<open>
  C33: A request reaches a handler exactly as the table says (the path of a \<open>CONNECT\<close>, which is not
  cleaned, begins with a slash or is empty, as \<open>net/http\<close> reads it): a test is created, a message
  sent or a client tested only by a \<open>POST\<close> to a spelling of its path, everything else only reads;
  the results of a test are asked for by one path element, which the handler gets decoded, and
  an encoded slash alone is not one. A path that is not clean reaches no handler, except by
  \<open>CONNECT\<close>; and a path with no percent sign is a spelling of its own elements only.
\<close>

theorem requests_are_routed:
  assumes "m = ''CONNECT'' \<Longrightarrow> p = [] \<or> hd p = CHR ''/''"
  shows "(dispatch m p = Handled h vs \<longleftrightarrow> (m = ''CONNECT'' \<or> clean_path p = p) \<and> route_spec m p h vs)
         \<and> (CHR ''%'' \<notin> set p \<longrightarrow> (\<forall>ss. spells p ss \<longleftrightarrow>
              p = concat (map ((#) CHR ''/'') ss) \<and> (\<forall>s \<in> set ss. CHR ''/'' \<notin> set s)))"
proof -
  have "p = [] \<or> hd p = CHR ''/''" if "m = ''CONNECT'' \<or> clean_path p = p"
    using that assms clean_path_slash by blast
  with route_matches_spec[of p m h vs] show ?thesis unfolding dispatch_Handled using spells_plain by blast
qed

lemma unescape_one: "PathUnescape ''%31'' = Some ''1''" "PathUnescape ''%63lients'' = Some ''clients''" "PathUnescape ''%2F'' = Some ''/''"
  by (simp_all add: hex_val_def char_of_def bit_0)

theorem requests_are_routed_witness:
  "dispatch ''GET'' ''/api/stress_tests/%31/results'' = Handled ToGetTestResults [''1'']
   \<and> dispatch ''GET'' ''/api/%63lients'' = Handled ToGetClients []
   \<and> (\<forall>vs. dispatch ''POST'' ''/api/%63lients'' \<noteq> Handled ToGetClients vs)"
proof -
  have s: "spells ''/api/stress_tests/%31/results'' [''api'', ''stress_tests'', ''1'', ''results'']"
    unfolding spells_def
    by (intro exI [of _ "[''api'', ''stress_tests'', ''%31'', ''results'']"]) (simp add: pathUnescape_def[of "''%31''"] unescape_one del: PathUnescape.simps)
  have c: "spells ''/api/%63lients'' [''api'', ''clients'']"
    unfolding spells_def
    by (intro exI [of _ "[''api'', ''%63lients'']"]) (simp add: pathUnescape_def[of "''%63lients''"] unescape_one del: PathUnescape.simps)
  have "clean_path ''/api/stress_tests/%31/results'' = ''/api/stress_tests/%31/results''" "clean_path ''/api/%63lients'' = ''/api/%63lients''"
    by (simp_all add: clean_path_def Clean_def Let_def)
  then show ?thesis
    using s c requests_are_routed[of "''GET''" "''/api/stress_tests/%31/results''" ToGetTestResults "[''1'']"]
      requests_are_routed[of _ "''/api/%63lients''" ToGetClients]
    by (simp add: route_spec_def is_get_def)
qed

text \<open>No handler answers a method its path does not have, and an encoded slash is no test.\<close>

lemma wrong_method: "dispatch ''DELETE'' ''/api/stress_tests'' = MethodNotAllowed" "dispatch ''GET'' ''/api'' = NotFound"
proof -
  have "path_segments ''/api/stress_tests'' = [''api'', ''stress_tests'']" "path_segments ''/api'' = [''api'']"
    using path_segments_elements[of "[''api'', ''stress_tests'']"] path_segments_elements[of "[''api'']"] by simp_all
  then show "dispatch ''DELETE'' ''/api/stress_tests'' = MethodNotAllowed" "dispatch ''GET'' ''/api'' = NotFound"
    unfolding dispatch_def Let_def route_matches_eval
    by (simp_all add: results_segments_def is_get_def routes_def parse_pattern_def parse_segment_def clean_path_def Clean_def Let_def)
qed

end
