(* ===== verification/Schema.thy ===== *)
theory Schema
  imports Prelude
begin

text \<open>
  \<open>database/db_helper.go\<close>: opening the database creates the tables, adds the columns that older
  versions lack and creates the indexes. A table is its columns and rows, a row a map from
  column names to texts (NULL is absent); each statement is a \<open>ddl\<close> with the meaning SQLite
  gives it.
\<close>

section \<open>Tables\<close>

record column =
  col_name :: string
  col_default :: "string option" \<comment> \<open>what \<open>ALTER TABLE ... ADD COLUMN\<close> puts into existing rows\<close>

record sql_table =
  columns :: "column list"
  table_rows :: "(string \<rightharpoonup> string) list"

record schema =
  tables :: "string \<rightharpoonup> sql_table"
  indexes :: "string list"

definition has_column :: "sql_table \<Rightarrow> string \<Rightarrow> bool" where
  "has_column t c \<longleftrightarrow> c \<in> col_name ` set (columns t)"

definition plain :: "string \<Rightarrow> column" where
  "plain n = \<lparr>col_name = n, col_default = None\<rparr>"

section \<open>Statements\<close>

datatype ddl =
    CreateTable string "column list"
  | AddColumn string column
  | CreateIndex string string "string list"

definition addColumnIfMissing :: "string \<Rightarrow> column \<Rightarrow> schema \<Rightarrow> (string, schema) result" where
  "addColumnIfMissing table c s =
     (case tables s table of
        None \<Rightarrow> fail (''no such table: '' @ table)
      | Some t \<Rightarrow>
          if has_column t (col_name c) then Ok s
          else Ok (s\<lparr>tables := (tables s)(table \<mapsto>
                 t\<lparr>columns := columns t @ [c],
                    table_rows := map (\<lambda>r. r(col_name c := col_default c)) (table_rows t)\<rparr>)\<rparr>))"

fun exec_ddl :: "ddl \<Rightarrow> schema \<Rightarrow> (string, schema) result" where
  "exec_ddl (CreateTable n cs) s =
     (if tables s n \<noteq> None then Ok s
      else Ok (s\<lparr>tables := (tables s)(n \<mapsto> \<lparr>columns = cs, table_rows = []\<rparr>)\<rparr>))"
| "exec_ddl (AddColumn n c) s = addColumnIfMissing n c s"
| "exec_ddl (CreateIndex i n cs) s =
     (if i \<in> set (indexes s) then Ok s
      else case tables s n of
        None \<Rightarrow> fail (''no such table: '' @ n)
      | Some t \<Rightarrow> if list_all (has_column t) cs then Ok (s\<lparr>indexes := indexes s @ [i]\<rparr>) else fail ''no such column'')"

fun exec_ddls :: "ddl list \<Rightarrow> schema \<Rightarrow> (string, schema) result" where
  "exec_ddls [] s = Ok s"
| "exec_ddls (d # ds) s = bindR (exec_ddl d s) (\<lambda>s'. exec_ddls ds s')"

section \<open>The migration\<close>

definition stress_test_columns :: "column list" where
  "stress_test_columns = map plain [''id'', ''name'', ''created_at'', ''total_requests'', ''test_time_secs'', ''request_per_second'']"

definition node_test_mode_column :: column where
  "node_test_mode_column = \<lparr>col_name = ''node_test_mode'', col_default = Some ''advertised''\<rparr>"

definition request_log_columns :: "column list" where
  "request_log_columns = map plain [''id'', ''request_time'', ''response_time'', ''time_taken'', ''created_at'',
     ''stresstest_id'', ''reference'', ''connection_id'']"

definition scheduled_columns :: "column list" where
  "scheduled_columns = map plain [''id'', ''reference'', ''message'', ''created_at'', ''connection_id'', ''stresstest_id'', ''sent_at'']"

definition refundColumns :: "(string \<times> column) list" where
  "refundColumns =
     [(''stress_test'', \<lparr>col_name = ''test_type'', col_default = Some ''sale''\<rparr>),
      (''stress_test'', plain ''source_test_id''),
      (''request_response_log'', plain ''processing_code''),
      (''request_response_log'', plain ''pan''),
      (''request_response_log'', plain ''amount''),
      (''request_response_log'', plain ''currency''),
      (''request_response_log'', plain ''request_message''),
      (''request_response_log'', plain ''response_code''),
      (''request_response_log'', plain ''auth_id''),
      (''request_response_log'', plain ''original_log_id'')]"

definition addRefundColumns :: "ddl list" where
  "addRefundColumns =
     map (\<lambda>(t, c). AddColumn t c) refundColumns
     @ [CreateIndex ''idx_request_response_log_stresstest'' ''request_response_log'' [''stresstest_id''],
        CreateIndex ''idx_request_response_log_original'' ''request_response_log'' [''original_log_id'']]"

definition migration :: "ddl list" where
  "migration =
     [CreateTable ''stress_test'' (stress_test_columns @ [node_test_mode_column]),
      AddColumn ''stress_test'' node_test_mode_column,
      CreateTable ''request_response_log'' (request_log_columns @ [plain ''mti'']),
      AddColumn ''request_response_log'' (plain ''mti'')]
     @ addRefundColumns
     @ [CreateIndex ''idx_request_response_log_reference'' ''request_response_log'' [''reference'', ''connection_id''],
        CreateTable ''scheduled_message'' scheduled_columns,
        CreateIndex ''idx_scheduled_message_reference'' ''scheduled_message'' [''reference'', ''connection_id'']]"

text \<open>Opening fails, or ends the process when WAL mode cannot be set, or runs the migration.\<close>

datatype open_outcome = OpenError string | Fatal | Opened schema

definition NewStressTestDB :: "bool \<Rightarrow> bool \<Rightarrow> schema \<Rightarrow> open_outcome" where
  "NewStressTestDB open_ok wal_ok s =
     (if \<not> open_ok then OpenError ''open''
      else if \<not> wal_ok then Fatal
      else case exec_ddls migration s of
             Inl (Err e) \<Rightarrow> OpenError e
           | Inl Panic \<Rightarrow> Fatal
           | Inr s' \<Rightarrow> Opened s')"

section \<open>A statement that has run has nothing left to do\<close>

fun ddl_done :: "ddl \<Rightarrow> schema \<Rightarrow> bool" where
  "ddl_done (CreateTable n cs) s = (tables s n \<noteq> None)"
| "ddl_done (AddColumn n c) s = (\<exists>t. tables s n = Some t \<and> has_column t (col_name c))"
| "ddl_done (CreateIndex i n cs) s = (i \<in> set (indexes s))"

lemma ddl_done_noop: "ddl_done d s \<Longrightarrow> exec_ddl d s = Ok s"
  by (cases d) (auto simp: addColumnIfMissing_def)

lemma ddl_done_after: "exec_ddl d s = Ok s' \<Longrightarrow> ddl_done d s'"
  by (cases d) (auto simp: addColumnIfMissing_def has_column_def split: option.splits if_splits)

text \<open>\<open>grows s s'\<close>: \<open>s'\<close> has every table, column, index and row of \<open>s\<close>, with the values they had.\<close>

definition grows :: "schema \<Rightarrow> schema \<Rightarrow> bool" where
  "grows s s' \<longleftrightarrow>
     set (indexes s) \<subseteq> set (indexes s')
     \<and> (\<forall>n t. tables s n = Some t \<longrightarrow>
          (\<exists>t'. tables s' n = Some t' \<and> set (columns t) \<subseteq> set (columns t')
             \<and> list_all2 (\<lambda>r r'. \<forall>c. has_column t c \<longrightarrow> r' c = r c) (table_rows t) (table_rows t')))"

lemma grows_refl: "grows s s"
  by (auto simp: grows_def intro!: list_all2_refl)

lemma grows_trans: "grows a b \<Longrightarrow> grows b c \<Longrightarrow> grows a c"
  unfolding grows_def has_column_def
  by (elim conjE, intro conjI, blast, intro allI impI)
     (drule spec, drule spec, drule (1) mp, elim exE conjE, drule spec, drule spec, drule (1) mp, elim exE conjE,
      intro exI conjI, assumption, blast, erule list_all2_trans[rotated 1], assumption, auto)

lemma exec_ddl_grows: "exec_ddl d s = Ok s' \<Longrightarrow> grows s s'"
  by (cases d)
     (auto simp: grows_def addColumnIfMissing_def has_column_def list_all2_refl list_all2_map2
        split: option.splits if_splits intro!: list_all2_refl)

lemma exec_ddls_grows: "exec_ddls ds s = Ok s' \<Longrightarrow> grows s s'"
  by (induction ds arbitrary: s) (auto simp: result_simps grows_refl dest: exec_ddl_grows intro: grows_trans)

lemma ddl_done_grows: "ddl_done d s \<Longrightarrow> grows s s' \<Longrightarrow> ddl_done d s'"
  by (cases d) (fastforce simp: grows_def has_column_def)+

lemma exec_ddls_done: "exec_ddls ds s = Ok s' \<Longrightarrow> d \<in> set ds \<Longrightarrow> ddl_done d s'"
  by (induction ds arbitrary: s) (auto simp: result_simps dest: ddl_done_after exec_ddls_grows intro: ddl_done_grows)

lemma exec_ddls_noop: "\<forall>d \<in> set ds. ddl_done d s \<Longrightarrow> exec_ddls ds s = Ok s"
  by (induction ds) (simp_all add: ddl_done_noop)

section \<open>The migration of an older database succeeds\<close>

text \<open>The columns every version of a table has had.\<close>

definition base_columns :: "string \<Rightarrow> string list" where
  "base_columns n =
     (if n = ''stress_test'' then map col_name stress_test_columns
      else if n = ''request_response_log'' then map col_name request_log_columns
      else if n = ''scheduled_message'' then map col_name scheduled_columns
      else [])"

definition available :: "schema \<Rightarrow> string \<Rightarrow> string \<Rightarrow> bool" where
  "available s n c \<longleftrightarrow> (\<exists>t. tables s n = Some t \<and> has_column t c)"

definition older :: "schema \<Rightarrow> bool" where
  "older s \<longleftrightarrow> (\<forall>n. tables s n \<noteq> None \<longrightarrow> (\<forall>c \<in> set (base_columns n). available s n c))"

text \<open>A static check of a list of statements: what each needs has been made available before.\<close>

fun plan_ok :: "(string \<times> string) list \<Rightarrow> ddl list \<Rightarrow> bool" where
  "plan_ok K [] = True"
| "plan_ok K (CreateTable n cs # ds) =
     (list_all (\<lambda>c. c \<in> set (map col_name cs)) (base_columns n) \<and> plan_ok (map (Pair n) (base_columns n) @ K) ds)"
| "plan_ok K (AddColumn n c # ds) = ((n, ''id'') \<in> set K \<and> plan_ok ((n, col_name c) # K) ds)"
| "plan_ok K (CreateIndex i n cs # ds) = (cs \<noteq> [] \<and> list_all (\<lambda>c. (n, c) \<in> set K) cs \<and> plan_ok K ds)"

lemma available_grows: "available s n c \<Longrightarrow> grows s s' \<Longrightarrow> available s' n c"
  by (fastforce simp: available_def grows_def has_column_def)

lemma older_step:
  assumes "older s" "exec_ddl d s = Ok s'" "\<And>n cs. d = CreateTable n cs \<Longrightarrow> set (base_columns n) \<subseteq> col_name ` set cs"
  shows "older s'"
proof (cases d)
  case (CreateTable n cs)
  show ?thesis
  proof (cases "tables s n")
    case None
    then have s': "s' = s\<lparr>tables := (tables s)(n \<mapsto> \<lparr>columns = cs, table_rows = []\<rparr>)\<rparr>"
      using assms(2) CreateTable by simp
    show ?thesis
      using assms(1) assms(3)[OF CreateTable] by (auto simp: older_def s' available_def has_column_def)
  qed (use assms CreateTable in auto)
next
  case (AddColumn n c)
  have g: "grows s s'" by (rule exec_ddl_grows[OF assms(2)])
  have d: "tables s' m \<noteq> None \<Longrightarrow> tables s m \<noteq> None" for m
    using assms(2) by (auto simp: AddColumn addColumnIfMissing_def split: option.splits if_splits)
  show ?thesis using assms(1) available_grows[OF _ g] d unfolding older_def by blast
next
  case (CreateIndex i n cs)
  have g: "grows s s'" by (rule exec_ddl_grows[OF assms(2)])
  have d: "tables s' m \<noteq> None \<Longrightarrow> tables s m \<noteq> None" for m
    using assms(2) by (auto simp: CreateIndex split: option.splits if_splits)
  show ?thesis using assms(1) available_grows[OF _ g] d unfolding older_def by blast
qed

lemma older_run:
  "older s \<Longrightarrow> exec_ddls ds s = Ok s' \<Longrightarrow>
     \<forall>n cs. CreateTable n cs \<in> set ds \<longrightarrow> set (base_columns n) \<subseteq> col_name ` set cs \<Longrightarrow> older s'"
proof (induction ds arbitrary: s)
  case (Cons d ds)
  then obtain s1 where s1: "exec_ddl d s = Ok s1" "exec_ddls ds s1 = Ok s'" by (auto simp: result_simps)
  have "older s1" using older_step[OF Cons.prems(1) s1(1)] Cons.prems(3) by auto
  then show ?case using Cons.IH[OF _ s1(2)] Cons.prems(3) by simp
qed simp

lemma available_all: "cs \<noteq> [] \<Longrightarrow> \<forall>c \<in> set cs. available s n c \<Longrightarrow> \<exists>t. tables s n = Some t \<and> list_all (has_column t) cs"
  by (cases cs) (fastforce simp: available_def list_all_iff)+

lemma plan_runs:
  assumes "older s" "\<forall>(n, c) \<in> set K. available s n c" "plan_ok K ds"
  shows "\<exists>s'. exec_ddls ds s = Ok s'"
  using assms
proof (induction K ds arbitrary: s rule: plan_ok.induct)
  case (2 K n cs ds)
  have sub: "set (base_columns n) \<subseteq> col_name ` set cs" using "2.prems"(3) by (auto simp: list_all_iff)
  obtain s1 where s1: "exec_ddl (CreateTable n cs) s = Ok s1" by (cases "tables s n") auto
  have o: "older s1" using older_step[OF "2.prems"(1) s1] sub by blast
  have "tables s1 n \<noteq> None" using ddl_done_after[OF s1] by simp
  then have "\<forall>c \<in> set (base_columns n). available s1 n c" using o unfolding older_def by blast
  moreover have "\<forall>(m, c) \<in> set K. available s1 m c"
    using "2.prems"(2) available_grows[OF _ exec_ddl_grows[OF s1]] by blast
  ultimately have "\<forall>(m, c) \<in> set (map (Pair n) (base_columns n) @ K). available s1 m c" by auto
  from "2.IH"[OF o this] "2.prems"(3) s1 show ?case by auto
next
  case (3 K n c ds)
  then have "available s n ''id''" by auto
  then obtain t where "tables s n = Some t" by (auto simp: available_def)
  then obtain s1 where s1: "exec_ddl (AddColumn n c) s = Ok s1"
    by (cases "has_column t (col_name c)") (simp_all add: addColumnIfMissing_def)
  have o: "older s1" using older_step[OF "3.prems"(1) s1] by blast
  have "available s1 n (col_name c)" using ddl_done_after[OF s1] by (simp add: available_def)
  moreover have "\<forall>(m, c) \<in> set K. available s1 m c"
    using "3.prems"(2) available_grows[OF _ exec_ddl_grows[OF s1]] by blast
  ultimately show ?case using "3.IH"[OF o] "3.prems"(3) s1 by auto
next
  case (4 K i n cs ds)
  then have c: "cs \<noteq> []" "\<forall>c \<in> set cs. available s n c" by (auto simp: list_all_iff)
  from available_all[OF this] obtain s1 where s1: "exec_ddl (CreateIndex i n cs) s = Ok s1"
    by (cases "i \<in> set (indexes s)") auto
  have o: "older s1" using older_step[OF "4.prems"(1) s1] by blast
  have "\<forall>(m, c) \<in> set K. available s1 m c"
    using "4.prems"(2) available_grows[OF _ exec_ddl_grows[OF s1]] by blast
  then show ?case using "4.IH"[OF o] "4.prems"(3) s1 by auto
qed simp

lemma migration_plan: "plan_ok [] migration"
  by (simp add: migration_def addRefundColumns_def refundColumns_def base_columns_def stress_test_columns_def
      request_log_columns_def scheduled_columns_def plain_def node_test_mode_column_def)

section \<open>Properties\<close>

text \<open>The columns the statements of \<open>dao.go\<close> name.\<close>

definition used_columns :: "(string \<times> string) list" where
  "used_columns =
     map (Pair ''stress_test'') [''id'', ''name'', ''created_at'', ''total_requests'', ''test_time_secs'',
       ''request_per_second'', ''node_test_mode'', ''test_type'', ''source_test_id'']
     @ map (Pair ''request_response_log'') [''id'', ''request_time'', ''response_time'', ''time_taken'', ''created_at'',
       ''stresstest_id'', ''reference'', ''connection_id'', ''mti'', ''processing_code'', ''pan'', ''amount'', ''currency'',
       ''request_message'', ''response_code'', ''auth_id'', ''original_log_id'']
     @ map (Pair ''scheduled_message'') [''reference'', ''message'', ''created_at'', ''connection_id'', ''stresstest_id'', ''sent_at'']"

lemma migrated_columns:
  assumes "older s" and s': "exec_ddls migration s = Ok s'"
  shows "\<forall>(n, c) \<in> set used_columns. available s' n c"
proof -
  have d: "\<forall>d \<in> set migration. ddl_done d s'" using exec_ddls_done[OF s'] by blast
  have base: "\<forall>n. tables s' n \<noteq> None \<longrightarrow> (\<forall>c \<in> set (base_columns n). available s' n c)"
  proof -
    from older_run[OF assms] show ?thesis
      by (simp add: older_def migration_def addRefundColumns_def refundColumns_def base_columns_def
          stress_test_columns_def request_log_columns_def scheduled_columns_def plain_def)
  qed
  have t: "tables s' ''stress_test'' \<noteq> None" "tables s' ''request_response_log'' \<noteq> None" "tables s' ''scheduled_message'' \<noteq> None"
    using d by (auto simp: migration_def)
  have added: "list_all (\<lambda>d. case d of AddColumn n c \<Rightarrow> available s' n (col_name c) | _ \<Rightarrow> True) migration"
    using d by (auto simp: list_all_iff available_def split: ddl.splits)
  show ?thesis
    using base[rule_format, OF t(1)] base[rule_format, OF t(2)] base[rule_format, OF t(3)] added
    by (simp add: used_columns_def base_columns_def stress_test_columns_def request_log_columns_def
        scheduled_columns_def plain_def migration_def addRefundColumns_def refundColumns_def node_test_mode_column_def)
qed

lemma migration_runs: "older s \<Longrightarrow> \<exists>s'. exec_ddls migration s = Ok s'"
  using plan_runs[OF _ _ migration_plan] by simp

text \<open>
  C30: Opening an empty database or one of any older version succeeds, keeps every table, column,
  row and value it had, and leaves every column the statements of the program name; opening
  the result again changes nothing.
\<close>

theorem opening_migrates:
  assumes "older s"
  shows "\<exists>s'. NewStressTestDB True True s = Opened s' \<and> grows s s'
           \<and> (\<forall>(n, c) \<in> set used_columns. available s' n c)
           \<and> NewStressTestDB True True s' = Opened s'"
proof -
  obtain s' where s': "exec_ddls migration s = Ok s'" using migration_runs[OF assms] by blast
  then have "exec_ddls migration s' = Ok s'" by (intro exec_ddls_noop) (blast dest: exec_ddls_done)
  with s' exec_ddls_grows[OF s'] migrated_columns[OF assms s'] show ?thesis by (simp add: NewStressTestDB_def)
qed

definition first_version :: schema where
  "first_version = \<lparr>tables = [''stress_test'' \<mapsto>
     \<lparr>columns = stress_test_columns, table_rows = [[''id'' \<mapsto> ''1'', ''name'' \<mapsto> ''t'']]\<rparr>], indexes = []\<rparr>"

theorem opening_migrates_witness:
  "\<exists>s'. NewStressTestDB True True first_version = Opened s' \<and> available s' ''stress_test'' ''test_type''
     \<and> NewStressTestDB True True s' = Opened s'"
proof -
  have "older first_version"
    by (auto simp: older_def first_version_def base_columns_def available_def has_column_def stress_test_columns_def
        plain_def split: if_splits)
  from opening_migrates[OF this] show ?thesis by (auto simp: used_columns_def)
qed

end
