(* ===== verification/Startup.thy ===== *)
theory Startup
  imports Process Http Schema
begin

text \<open>
  What \<open>main.go\<close> does before it serves: the base path, the configuration, the database, the message
  templates, the specification, the ISO server and the test runner, the test cards. Files, the
  environment and the clock are a record of the world; \<open>main\<close> ends the process or hands a running
  one to \<open>serveUntilSignal\<close>.
\<close>

section \<open>The application\<close>

text \<open>\<open>App\<close> holds the database, the ISO server and the runner; the first two are part of the process.\<close>

record AppConfig =
  BasePath :: string
  AppDataPath :: string
  CertPath :: string

record App =
  app_config :: AppConfig
  app_schema :: schema
  app_process :: process

record Handlers =
  Version :: string
  app :: App

definition New :: "string \<Rightarrow> App \<Rightarrow> Handlers" where
  "New version a = \<lparr>Version = version, app = a\<rparr>"

section \<open>Starting\<close>

record world =
  environment :: "string \<rightharpoonup> string"
  Getwd :: "string option"
  open_ok :: "string \<Rightarrow> bool"
  wal_ok :: "string \<Rightarrow> bool"
  stored_schema :: "string \<Rightarrow> schema"
  stored_rows :: "string \<Rightarrow> database"
  template_files :: "string \<Rightarrow> IsoMsgTemplate list json_file"
  spec_files :: "string \<Rightarrow> (string \<times> FieldDef list) json_file"
  card_files :: "string \<Rightarrow> Card list json_file"
  clock_ms :: int

text \<open>\<open>log.Fatal\<close> with its message, a panic, or the call of \<open>serveUntilSignal\<close> with its address.\<close>

datatype startup = FatalExit string | Crashes | Serve Handlers string

definition base_path :: "world \<Rightarrow> string option" where
  "base_path w =
     (let basePath = (case environment w ''LONGCLAW_BASE_PATH'' of Some v \<Rightarrow> v | None \<Rightarrow> []) in
      if basePath = [] then Getwd w else Some basePath)"

text \<open>\<open>init\<close> seeds the reference counter from the clock.\<close>

definition seed_references :: "int \<Rightarrow> int" where
  "seed_references ms = wrap64 (ms * 100)"

text \<open>The ISO server and the runner start after the specification and before the cards are loaded;
  HTTP is served last. A listener that fails ends the process at any later point (\<open>ListenFatal\<close> in Process).\<close>

definition main :: "world \<Rightarrow> startup" where
  "main w =
     (case base_path w of
        None \<Rightarrow> FatalExit ''Failed to get working directory:''
      | Some basePath \<Rightarrow>
         (let cfg = Load (environment w) basePath; path = cfg_database cfg in
          case NewStressTestDB (open_ok w path) (wal_ok w path) (stored_schema w path) of
            OpenError _ \<Rightarrow> FatalExit ''Failed to initialize database:''
          | Fatal \<Rightarrow> FatalExit ''Failed to enable WAL:''
          | Opened s \<Rightarrow>
         (case LoadTemplates (template_files w) (TemplatesPath (cfg_data cfg)) of
            Inl _ \<Rightarrow> FatalExit ''Failed to initialize message templates:''
          | Inr templates \<Rightarrow>
         (case LoadSpecsFromFile (spec_files w) (SpecPath (cfg_data cfg)) of
            Inl (Err _) \<Rightarrow> FatalExit ''Failed to load ISO spec:''
          | Inl Panic \<Rightarrow> Crashes
          | Inr spec \<Rightarrow>
         (case LoadCards (card_files w) (CardsPath (cfg_data cfg)) of
            Inl _ \<Rightarrow> FatalExit ''Failed to load test cards:''
          | Inr cards \<Rightarrow>
              Serve
                (New ''1.0''
                  \<lparr>app_config = \<lparr>BasePath = basePath, AppDataPath = DataPath (cfg_data cfg),
                                 CertPath = ServerCertPath (cfg_tls cfg)\<rparr>,
                   app_schema = s,
                   app_process = new_process spec templates cards (ExpectedCN (cfg_tls cfg))
                                   (seed_references (clock_ms w)) (stored_rows w path)\<rparr>)
                (HTTPPort (cfg_server cfg)))))))"

section \<open>What every connection is given\<close>

text \<open>The specification, templates and cards loaded at the start reach every connection unchanged.\<close>

definition given :: "IsoSpec \<Rightarrow> IsoMsgTemplate list \<Rightarrow> Card list \<Rightarrow> process \<Rightarrow> bool" where
  "given spec templates cards p \<longleftrightarrow>
     p_spec p = spec \<and> p_templates p = templates \<and> p_cards p = cards
     \<and> (\<forall>c \<in> set (p_conns p). c_spec c = spec \<and> c_templates c = templates \<and> c_cards c = cards)"

abbreviation loaded :: "conn \<Rightarrow> IsoSpec \<times> IsoMsgTemplate list \<times> Card list" where
  "loaded c \<equiv> (c_spec c, c_templates c, c_cards c)"

lemma exec_task_loaded: "exec_task e t c = Some (c', k) \<Longrightarrow> loaded c' = loaded c"
  by (cases t)
     (auto simp: enqueue_def queue_request_def can_queue_def crash_def Let_def
        split: if_splits sum.splits fault.splits option.splits)

lemma spawn_loaded [simp]:
  "c_spec (spawn r c) = c_spec c" "c_templates (spawn r c) = c_templates c" "c_cards (spawn r c) = c_cards c"
  by (auto simp: spawn_def crash_def split: sum.splits fault.splits)

lemma next_reference_loaded: "next_reference c = (r, d) \<Longrightarrow> loaded d = loaded c"
  by (auto simp: next_reference_def Let_def split: prod.splits)

lemma next_reference_snd_loaded [simp]:
  "c_spec (snd (next_reference c)) = c_spec c" "c_templates (snd (next_reference c)) = c_templates c"
  "c_cards (snd (next_reference c)) = c_cards c"
  using next_reference_loaded[of c "fst (next_reference c)" "snd (next_reference c)"] by simp_all

lemma conn_exec_loaded:
  assumes "conn_exec l c = Some c'"
  shows "loaded c' = loaded c"
proof (cases l)
  case (Task i e)
  with assms exec_task_loaded show ?thesis by (fastforce split: if_splits option.splits)
next
  case (Reader e)
  with assms exec_task_loaded show ?thesis by (fastforce split: if_splits option.splits reader_pc.splits)
qed (use assms in \<open>auto dest!: next_reference_loaded simp: crash_def queue_request_def
       split: if_splits prod.splits sum.splits fault.splits frame_action.splits reader_pc.splits writer_pc.splits list.splits\<close>)

lemma given_step:
  assumes "process_exec base l p = Some p'" "given spec templates cards p"
  shows "given spec templates cards p'"
proof -
  have y: "process_step l p = Some p'" using assms(1) by (simp add: process_exec_def split: if_splits)
  show ?thesis
  proof (cases l)
    case (Net sl)
    have "given spec templates cards (p\<lparr>p_server := s, p_conns := (p_conns p)[i := (p_conns p ! i)\<lparr>closed := b\<rparr>]\<rparr>)" for s i b
    proof (cases "i < length (p_conns p)")
      case True
      with assms(2) show ?thesis by (auto simp: given_def dest!: subsetD [OF set_update_subset_insert])
    next
      case False
      with assms(2) show ?thesis by (simp add: given_def list_update_beyond)
    qed
    with y Net assms(2) show ?thesis
      by (auto simp: given_def simp del: server_exec.simps split: if_splits option.splits server_label.splits)
  next
    case (Register j sales)
    with y assms(2) show ?thesis
      by (auto simp: given_def newIsoConnection_def simp del: server_exec.simps split: if_splits option.splits)
  next
    case (ConnStep i cl wl)
    with y obtain c where c: "i < length (p_conns p)" "conn_exec cl (p_conns p ! i) = Some c"
      and p': "p_conns p' = map (\<lambda>d. d\<lparr>referenceCounter := referenceCounter c\<rparr>) ((p_conns p)[i := c])"
        "p_spec p' = p_spec p" "p_templates p' = p_templates p" "p_cards p' = p_cards p"
      by (auto simp del: server_exec.simps conn_exec.simps split: if_splits option.splits)
    have "loaded c = (spec, templates, cards)"
      using conn_exec_loaded[OF c(2)] assms(2) c(1) by (simp add: given_def)
    with assms(2) show ?thesis by (auto simp: p' given_def dest!: subsetD [OF set_update_subset_insert])
  qed (use y assms(2) in \<open>auto simp: given_def simp del: writer_exec.simps split: if_splits main_pc.splits\<close>)
qed

interpretation loading: invariant_system "process_exec base" "\<lambda>p. given spec templates cards p \<and> p_conns p = []"
    "given spec templates cards" for base spec templates cards
  by unfold_locales (auto intro: given_step)

section \<open>Properties\<close>

abbreviation config_of :: "world \<Rightarrow> string \<Rightarrow> Config" where
  "config_of w basePath \<equiv> Load (environment w) basePath"

text \<open>Every file the program needs is there and decodes.\<close>

definition usable :: "world \<Rightarrow> string \<Rightarrow> IsoMsgTemplate list \<Rightarrow> string \<times> FieldDef list \<Rightarrow> Card list \<Rightarrow> bool" where
  "usable w basePath templates spec cards \<longleftrightarrow>
     (let cfg = config_of w basePath in
      base_path w = Some basePath \<and> open_ok w (cfg_database cfg) \<and> wal_ok w (cfg_database cfg)
      \<and> template_files w (data_file (TemplatesPath (cfg_data cfg)) ''template_messages.json'') = Decoded templates
      \<and> spec_files w (SpecPath (cfg_data cfg)) = Decoded spec
      \<and> card_files w (data_file (CardsPath (cfg_data cfg)) ''test_cards.json'') = Decoded cards \<and> cards \<noteq> [])"

lemma LoadTemplates_Ok:
  "LoadTemplates files path = Ok ts \<longleftrightarrow> files (data_file path ''template_messages.json'') = Decoded ts"
  by (simp add: LoadTemplates_def split: json_file.split)

lemma LoadCards_Ok:
  "LoadCards files path = Ok cs \<longleftrightarrow> files (data_file path ''test_cards.json'') = Decoded cs \<and> cs \<noteq> []"
  by (auto simp: LoadCards_def Let_def split: json_file.split)

definition spec_of :: "string \<times> FieldDef list \<Rightarrow> IsoSpec" where
  "spec_of x = \<lparr>SpecName = fst x, FieldDefinitions = snd x, FieldDefMap = index_defs (snd x) Map.empty\<rparr>"

lemma LoadSpecsFromFile_Ok:
  "LoadSpecsFromFile files path = Ok s \<longleftrightarrow> (\<exists>x. files path = Decoded x \<and> s = spec_of x)"
  by (auto simp: LoadSpecsFromFile_def spec_of_def split: json_file.split prod.splits)

lemma NewStressTestDB_Opened:
  "NewStressTestDB a b s = Opened s' \<longleftrightarrow> a \<and> b \<and> exec_ddls migration s = Ok s'"
  by (auto simp: NewStressTestDB_def split: sum.split fault.split)

lemma main_Serve:
  "main w = Serve h addr \<longleftrightarrow>
     (\<exists>basePath templates x cards s.
        usable w basePath templates x cards
        \<and> exec_ddls migration (stored_schema w (cfg_database (config_of w basePath))) = Ok s
        \<and> addr = HTTPPort (cfg_server (config_of w basePath))
        \<and> h = New ''1.0''
            \<lparr>app_config = \<lparr>BasePath = basePath, AppDataPath = DataPath (cfg_data (config_of w basePath)),
               CertPath = ServerCertPath (cfg_tls (config_of w basePath))\<rparr>,
             app_schema = s,
             app_process = new_process (spec_of x) templates cards (ExpectedCN (cfg_tls (config_of w basePath)))
               (seed_references (clock_ms w)) (stored_rows w (cfg_database (config_of w basePath)))\<rparr>)"
proof (cases "base_path w")
  case (Some b)
  let ?c = "config_of w b"
  let ?path = "cfg_database ?c"
  have "main w = Serve h addr \<longleftrightarrow>
     (\<exists>s ts spec cs. NewStressTestDB (open_ok w ?path) (wal_ok w ?path) (stored_schema w ?path) = Opened s
        \<and> LoadTemplates (template_files w) (TemplatesPath (cfg_data ?c)) = Ok ts
        \<and> LoadSpecsFromFile (spec_files w) (SpecPath (cfg_data ?c)) = Ok spec
        \<and> LoadCards (card_files w) (CardsPath (cfg_data ?c)) = Ok cs
        \<and> addr = HTTPPort (cfg_server ?c)
        \<and> h = New ''1.0''
            \<lparr>app_config = \<lparr>BasePath = b, AppDataPath = DataPath (cfg_data ?c), CertPath = ServerCertPath (cfg_tls ?c)\<rparr>,
             app_schema = s,
             app_process = new_process spec ts cs (ExpectedCN (cfg_tls ?c)) (seed_references (clock_ms w)) (stored_rows w ?path)\<rparr>)"
    unfolding main_def Some option.case Let_def
    by (cases "NewStressTestDB (open_ok w ?path) (wal_ok w ?path) (stored_schema w ?path)";
        cases "LoadTemplates (template_files w) (TemplatesPath (cfg_data ?c))";
        cases "LoadSpecsFromFile (spec_files w) (SpecPath (cfg_data ?c))";
        cases "LoadCards (card_files w) (CardsPath (cfg_data ?c))")
       (auto split: fault.split)
  then show ?thesis
    unfolding NewStressTestDB_Opened LoadTemplates_Ok LoadSpecsFromFile_Ok LoadCards_Ok usable_def Let_def Some option.inject
    by blast
qed (simp add: main_def usable_def Let_def)
lemma seed_small: "0 \<le> ms \<Longrightarrow> ms < 2 ^ 55 \<Longrightarrow> seed_references ms = ms * 100 \<and> seed_references ms < 2 ^ 62"
  by (simp add: seed_references_def wrap64_small)

lemma pick_in_range:
  "xs \<noteq> [] \<Longrightarrow> \<forall>n > 0. 0 \<le> intn n \<and> intn n < n \<Longrightarrow> \<exists>x \<in> set xs. pick intn xs = Ok x"
  by (auto simp: pick_def at_index_def nat_less_iff)

text \<open>
  C32: The program serves HTTP exactly when its base path is known, the database opens, and the
  templates, the specification and at least one card decode. Then the database has every column
  the statements use and has lost nothing, and the process is one the properties of running
  processes apply to.
\<close>

theorem startup_requirements:
  assumes "base_path w = Some basePath" "older (stored_schema w (cfg_database (config_of w basePath)))"
    and "0 \<le> clock_ms w" "clock_ms w < 2 ^ 55"
  shows "(\<exists>templates spec cards. usable w basePath templates spec cards) \<longleftrightarrow>
           (\<exists>h. main w = Serve h (HTTPPort (cfg_server (config_of w basePath)))
              \<and> grows (stored_schema w (cfg_database (config_of w basePath))) (app_schema (app h))
              \<and> (\<forall>(n, c) \<in> set used_columns. available (app_schema (app h)) n c)
              \<and> process_start (clock_ms w * 100) (stored_rows w (cfg_database (config_of w basePath))) (app_process (app h)))"
proof -
  let ?s = "stored_schema w (cfg_database (config_of w basePath))"
  obtain s' where s': "exec_ddls migration ?s = Ok s'" using migration_runs[OF assms(2)] by blast
  have start: "process_start (clock_ms w * 100) d (new_process spec ts cs cn (seed_references (clock_ms w)) d)" for d spec ts cs cn
    using seed_small[OF assms(3,4)] assms(3) by (auto simp: process_start_def)
  have base: "b = basePath" if "usable w b ts x cs" for b ts x cs
    using that assms(1) by (simp add: usable_def Let_def)
  show ?thesis (is "?usable \<longleftrightarrow> ?serves")
  proof
    assume ?usable
    then obtain ts x cs where u: "usable w basePath ts x cs" by blast
    define h where "h = New ''1.0''
      \<lparr>app_config = \<lparr>BasePath = basePath, AppDataPath = DataPath (cfg_data (config_of w basePath)),
         CertPath = ServerCertPath (cfg_tls (config_of w basePath))\<rparr>,
       app_schema = s',
       app_process = new_process (spec_of x) ts cs (ExpectedCN (cfg_tls (config_of w basePath)))
         (seed_references (clock_ms w)) (stored_rows w (cfg_database (config_of w basePath)))\<rparr>"
    have "main w = Serve h (HTTPPort (cfg_server (config_of w basePath)))"
      unfolding main_Serve using u s' h_def by blast
    moreover have "app_schema (app h) = s'" "process_start (clock_ms w * 100)
        (stored_rows w (cfg_database (config_of w basePath))) (app_process (app h))"
      using start by (simp_all add: h_def New_def)
    ultimately show ?serves using exec_ddls_grows[OF s'] migrated_columns[OF assms(2) s'] by blast
  next
    assume ?serves
    then obtain b ts x cs where "usable w b ts x cs" unfolding main_Serve by blast
    with base show ?usable by blast
  qed
qed

text \<open>
  C31: Once the program serves, a connection never runs out of cards: in every state the process can
  reach, each connection draws from the cards loaded at the start, and a draw yields one of them. Its
  specification is the one of the file. A draw of a template panics exactly when the template
  file holds an empty list, which loading accepts.
\<close>

theorem connections_draw_loaded_cards:
  assumes "main w = Serve h addr" "run (process_exec base) ls (app_process (app h)) = Some p" "c \<in> set (p_conns p)"
    and "\<forall>n > 0. 0 \<le> intn n \<and> intn n < n"
  shows "\<exists>basePath templates spec cards. usable w basePath templates spec cards
           \<and> (\<exists>card \<in> set cards. (GetRandomCard intn (c_cards c) :: (string, Card) result) = Ok card)
           \<and> c_spec c = spec_of spec
           \<and> ((RandomTemplate intn (c_templates c) :: (string, IsoMsgTemplate) result) = panic \<longleftrightarrow> templates = [])"
proof -
  obtain b ts x cs cn d where u: "usable w b ts x cs"
    and h: "app_process (app h) = new_process (spec_of x) ts cs cn (seed_references (clock_ms w)) d"
    using assms(1) unfolding main_Serve by (auto simp: New_def)
  have "given (spec_of x) ts cs p"
    by (rule loading.inv_run[OF _ assms(2)]) (simp add: h new_process_def given_def)
  then have c: "c_spec c = spec_of x" "c_templates c = ts" "c_cards c = cs" using assms(3) by (auto simp: given_def)
  have "cs \<noteq> []" using u by (simp add: usable_def Let_def)
  from pick_in_range[OF this assms(4)] have "\<exists>card \<in> set cs. (GetRandomCard intn cs :: (string, Card) result) = Ok card"
    by (simp add: GetRandomCard_def)
  moreover have "(RandomTemplate intn ts :: (string, IsoMsgTemplate) result) = panic \<longleftrightarrow> ts = []"
  proof (cases "ts = []")
    case False
    with pick_in_range[OF False assms(4)] have "\<exists>t. (RandomTemplate intn ts :: (string, IsoMsgTemplate) result) = Ok t"
      by (auto simp: RandomTemplate_def)
    with False show ?thesis by auto
  qed (simp add: RandomTemplate_def pick_def)
  ultimately show ?thesis using u by (intro exI [of _ b] exI [of _ ts] exI [of _ x] exI [of _ cs]) (simp add: c)
qed

section \<open>A first start\<close>

definition fresh_world :: world where
  "fresh_world =
     \<lparr>environment = Map.empty, Getwd = Some ''/srv'', open_ok = (\<lambda>_. True), wal_ok = (\<lambda>_. True),
      stored_schema = (\<lambda>_. \<lparr>tables = Map.empty, indexes = []\<rparr>), stored_rows = (\<lambda>_. empty_db),
      template_files = (\<lambda>_. Decoded []), spec_files = (\<lambda>_. Decoded (''spec'', [])),
      card_files = (\<lambda>_. Decoded [\<lparr>CardNumber = ''5555555555554444'', CVV2 = ''949'', Track2Data = [], ExpiryDate = []\<rparr>]),
      clock_ms = 0\<rparr>"

lemma fresh_usable:
  "usable fresh_world ''/srv'' [] (''spec'', []) [\<lparr>CardNumber = ''5555555555554444'', CVV2 = ''949'', Track2Data = [], ExpiryDate = []\<rparr>]"
  by (simp add: usable_def Let_def fresh_world_def base_path_def)

lemma fresh_facts:
  "base_path fresh_world = Some ''/srv''" "environment fresh_world = Map.empty" "clock_ms fresh_world = 0"
  "HTTPPort (cfg_server (Load Map.empty b)) = '':8080''" "ExpectedCN (cfg_tls (Load Map.empty b)) = ''photon-client''"
  "older (stored_schema fresh_world path)" "stored_rows fresh_world path = empty_db"
  by (simp_all add: fresh_world_def base_path_def Load_def getEnv_def Let_def older_def)

theorem startup_requirements_witness:
  "\<exists>h. main fresh_world = Serve h '':8080'' \<and> available (app_schema (app h)) ''stress_test'' ''test_type''"
proof -
  have "\<exists>templates spec cards. usable fresh_world ''/srv'' templates spec cards" using fresh_usable by blast
  then obtain h where "main fresh_world = Serve h (HTTPPort (cfg_server (config_of fresh_world ''/srv'')))"
      "\<forall>(n, c) \<in> set used_columns. available (app_schema (app h)) n c"
    using startup_requirements[OF fresh_facts(1) fresh_facts(6)] by (auto simp: fresh_facts)
  then show ?thesis by (auto simp: fresh_facts used_columns_def)
qed

theorem connections_draw_loaded_cards_witness:
  "\<exists>h p c. main fresh_world = Serve h '':8080''
     \<and> run (process_exec 0) [Net Listen, Net (Accept (client ''c1'')), Register 0 []] (app_process (app h)) = Some p
     \<and> p_conns p = [c] \<and> (\<exists>card. (GetRandomCard (\<lambda>n. n - 1) (c_cards c) :: (string, Card) result) = Ok card)"
proof -
  obtain s where "exec_ddls migration (stored_schema fresh_world (cfg_database (config_of fresh_world ''/srv''))) = Ok s"
    using migration_runs[OF fresh_facts(6)] by blast
  with fresh_usable main_Serve[of fresh_world] obtain h where h: "main fresh_world = Serve h '':8080''"
    and p: "app_process (app h) = new_process (spec_of (''spec'', [])) []
      [\<lparr>CardNumber = ''5555555555554444'', CVV2 = ''949'', Track2Data = [], ExpiryDate = []\<rparr>] ''photon-client'' 0 empty_db"
    by (fastforce simp: fresh_facts New_def seed_references_def wrap64_small)
  have "\<exists>q c. run (process_exec 0) [Net Listen, Net (Accept (client ''c1'')), Register 0 []] (app_process (app h)) = Some q
      \<and> p_conns q = [c]"
    by (simp add: p process_exec_def alive_def new_process_def NewIsoServer_def main_allows_def admitted_def client_def
        validateClient_def newIsoConnection_def)
  then obtain q c where q: "run (process_exec 0) [Net Listen, Net (Accept (client ''c1'')), Register 0 []] (app_process (app h)) = Some q"
      "p_conns q = [c]" by blast
  have "c \<in> set (p_conns q)" using q(2) by simp
  from connections_draw_loaded_cards[OF h q(1) this, of "\<lambda>n. n - 1"] h q show ?thesis by auto
qed

end
