(* ===== verification/Shutdown.thy ===== *)
theory Shutdown
  imports Process
begin

text \<open>
  The whole process over its life: the database follows the logs of the connections at every
  moment, a clean shutdown leaves nothing behind and always comes to its end, and a failure of
  the listener ends the process without one.
\<close>

section \<open>Shutting down makes progress\<close>

text \<open>The steps of the main goroutine, of the closes it waits for, and of the writer goroutine.\<close>

definition shutdown_label :: "process_label \<Rightarrow> bool" where
  "shutdown_label l \<longleftrightarrow>
     (case l of
        Net k \<Rightarrow> (case k of Listen \<Rightarrow> False | Accept _ \<Rightarrow> False | Handshake _ \<Rightarrow> False | _ \<Rightarrow> True)
      | Db k \<Rightarrow> run_label k
      | CloseDb \<Rightarrow> True
      | DbClosed \<Rightarrow> True
      | _ \<Rightarrow> False)"

definition stop_work :: "IsoServer \<Rightarrow> nat" where
  "stop_work s =
     length (filter (\<lambda>c. \<not> cs_closed c) (conns s)) + length (filter (\<lambda>c. \<not> cs_removed c) (conns s))
     + (if stop_begun s then 0 else 1)
     + (case stop_todo s of None \<Rightarrow> card (dom (connMap s)) + 1 | Some is \<Rightarrow> length is)"

definition shutdown_work :: "process \<Rightarrow> nat" where
  "shutdown_work p =
     run_work (p_writer p) + stop_work (p_server p) + (case p_main p of Stopping _ \<Rightarrow> 2 | Closing _ \<Rightarrow> 1 | _ \<Rightarrow> 0)"

definition shutting_down :: "int \<Rightarrow> process \<Rightarrow> bool" where
  "shutting_down base p \<longleftrightarrow>
     (\<forall>c \<in> set (p_conns p). \<not> crashed c) \<and> p_counter p < base + 10 ^ 12
     \<and> (\<exists>err. p_main p = Stopping err \<or> p_main p = Closing err)"

lemma filter_update_less:
  "i < length xs \<Longrightarrow> P (xs ! i) \<Longrightarrow> \<not> P y \<Longrightarrow> length (filter P (xs[i := y])) < length (filter P xs)"
proof (induction xs arbitrary: i)
  case (Cons x xs)
  then show ?case by (cases i) auto
qed simp

lemma filter_update_same:
  "i < length xs \<Longrightarrow> P y = P (xs ! i) \<Longrightarrow> length (filter P (xs[i := y])) = length (filter P xs)"
proof (induction xs arbitrary: i)
  case (Cons x xs)
  then show ?case by (cases i) auto
qed simp

lemma stop_work_step:
  assumes x: "server_exec k s = Some s'" and l: "shutdown_label (Net k)" and fin: "finite (dom (connMap s))"
  shows "stop_work s' < stop_work s"
proof (cases k)
  case (BeginClose i)
  then have i: "i < length (conns s)" "\<not> cs_closed (conns s ! i)"
    and s': "s' = s\<lparr>conns := (conns s)[i := (conns s ! i)\<lparr>cs_closed := True\<rparr>]\<rparr>"
    using x by (auto split: if_splits)
  then show ?thesis
    using filter_update_less[of i "conns s" "\<lambda>c. \<not> cs_closed c" "(conns s ! i)\<lparr>cs_closed := True\<rparr>"]
      filter_update_same[of i "conns s" "\<lambda>c. \<not> cs_removed c" "(conns s ! i)\<lparr>cs_closed := True\<rparr>"]
    by (simp add: stop_work_def s' split: option.split)
next
  case (OnClose i)
  then have i: "i < length (conns s)" "\<not> cs_removed (conns s ! i)"
    and s': "s' = removeConn (cs_remote (conns s ! i)) i s\<lparr>conns := (conns s)[i := (conns s ! i)\<lparr>cs_removed := True\<rparr>]\<rparr>"
    using x by (auto split: if_splits)
  have "card (dom (connMap s')) \<le> card (dom (connMap s))"
    using fin by (intro card_mono) (auto simp: s' removeConn_def split: if_splits)
  with i show ?thesis
    using filter_update_less[of i "conns s" "\<lambda>c. \<not> cs_removed c" "(conns s ! i)\<lparr>cs_removed := True\<rparr>"]
      filter_update_same[of i "conns s" "\<lambda>c. \<not> cs_closed c" "(conns s ! i)\<lparr>cs_removed := True\<rparr>"]
    by (auto simp: stop_work_def s' removeConn_def split: option.splits)
next
  case (StopSnapshot ids)
  then have "distinct ids" "set ids = dom (connMap s)" "stop_todo s = None"
    "s' = s\<lparr>stop_snapshot := connections s ids, stop_todo := Some (connections s ids)\<rparr>"
    using x by (auto simp: key_order_def split: if_splits)
  then show ?thesis using distinct_card[of ids] by (simp add: stop_work_def connections_def)
qed (use x l in \<open>auto simp: stop_work_def shutdown_label_def split: if_splits option.splits list.splits\<close>)

lemma shutdown_decreases:
  assumes inv: "process_inv base d p" and l: "shutdown_label l" and x: "process_exec base l p = Some p'"
  shows "shutdown_work p' < shutdown_work p"
proof -
  have y: "process_step l p = Some p'" using x by (auto simp: process_exec_def simp del: process_step.simps split: if_splits)
  have w: "writer_inv d (p_writer p)" and fin: "finite (dom (connMap (p_server p)))" using inv by (simp_all add: process_inv_def)
  show ?thesis
  proof (cases l)
    case (Net k)
    with y obtain s where "server_exec k (p_server p) = Some s" "p_server p' = s" "p_writer p' = p_writer p" "p_main p' = p_main p"
      by (auto simp del: server_exec.simps split: if_splits option.splits)
    with stop_work_step[OF _ l[unfolded Net] fin] show ?thesis by (simp add: shutdown_work_def)
  next
    case (Db k)
    with y l obtain v where "run_label k" "writer_exec k (p_writer p) = Some v" "p' = p\<lparr>p_writer := v\<rparr>"
      by (auto simp: shutdown_label_def split: if_splits)
    with run_label_decreases[OF w] show ?thesis by (simp add: shutdown_work_def)
  next
    case CloseDb
    with y show ?thesis by (auto simp: shutdown_work_def run_work_def split: main_pc.splits if_splits)
  next
    case DbClosed
    with y show ?thesis by (auto simp: shutdown_work_def split: main_pc.splits if_splits)
  qed (use l in \<open>simp_all add: shutdown_label_def\<close>)
qed

lemma process_execI: "shutting_down base p \<Longrightarrow> process_step l p \<noteq> None \<Longrightarrow> \<exists>p'. process_exec base l p = Some p'"
  by (auto simp: shutting_down_def process_exec_def alive_def simp del: process_step.simps)

lemma shutdown_enabled:
  assumes inv: "process_inv base d p" and g: "shutting_down base p"
  shows "\<exists>l p'. shutdown_label l \<and> process_exec base l p = Some p'"
proof -
  let ?s = "p_server p"
  have srv: "server_inv ?s" "finite (dom (connMap ?s))" and w: "writer_inv d (p_writer p)" and m: "main_inv p"
    using inv by (simp_all add: process_inv_def)
  have net: ?thesis if "server_exec k ?s \<noteq> None" "shutdown_label (Net k)" "main_allows (p_main p) k" for k
    using that process_execI[OF g, of "Net k"] by (auto simp del: server_exec.simps)
  have lab: "shutdown_label CloseDb" "shutdown_label DbClosed" by (simp_all add: shutdown_label_def)
  consider err where "p_main p = Stopping err" | err where "p_main p = Closing err" using g by (auto simp: shutting_down_def)
  then show ?thesis
  proof cases
    case 1
    show ?thesis
    proof (cases "stop_begun ?s")
      case False
      with net[of StopListener] 1 show ?thesis by (simp add: shutdown_label_def main_allows_def)
    next
      case True
      show ?thesis
      proof (cases "stop_todo ?s")
        case None
        obtain ids where "set ids = dom (connMap ?s)" "distinct ids" using finite_distinct_list[OF srv(2)] by blast
        with net[of "StopSnapshot ids"] True None 1 show ?thesis by (simp add: key_order_def shutdown_label_def main_allows_def)
      next
        case (Some "is")
        show ?thesis
        proof (cases "is")
          case Nil
          then show ?thesis
            using process_execI[OF g, of CloseDb] lab 1 Some m by (simp add: main_inv_def) blast
        next
          case (Cons i js)
          have "set is \<subseteq> {..<length (conns ?s)}" using srv(1) Some by (auto simp: server_inv_def)
          then have i: "i < length (conns ?s)" using Cons by simp
          consider "cs_removed (conns ?s ! i)" | "\<not> cs_removed (conns ?s ! i)" "cs_closed (conns ?s ! i)" | "\<not> cs_closed (conns ?s ! i)"
            by blast
          then show ?thesis
          proof cases
            case 1
            with net[of StopNext] Some Cons \<open>p_main p = Stopping err\<close> show ?thesis by (simp add: shutdown_label_def main_allows_def)
          next
            case 2
            with net[of "OnClose i"] i show ?thesis by (simp add: shutdown_label_def main_allows_def)
          next
            case 3
            with net[of "BeginClose i"] i show ?thesis by (simp add: shutdown_label_def main_allows_def)
          qed
        qed
      qed
    qed
  next
    case 2
    show ?thesis
    proof (cases "run_pc (p_writer p) = Finished")
      case True
      then show ?thesis using process_execI[OF g, of DbClosed] lab 2 by simp blast
    next
      case False
      then have "\<not> run_idle (p_writer p)" using m 2 by (simp add: main_inv_def run_idle_def)
      with run_label_enabled[OF w] obtain k v where k: "run_label k" "writer_exec k (p_writer p) = Some v" by blast
      then have "free_db_label (p_writer p) k" by (auto simp: run_label_def free_db_label_def)
      with k have "process_step (Db k) p \<noteq> None" "shutdown_label (Db k)" by (simp_all add: shutdown_label_def)
      with process_execI[OF g] show ?thesis by blast
    qed
  qed
qed

interpretation shutdown: progress_system "process_exec base" "process_start base d"
    "\<lambda>p. 0 \<le> base \<and> base < 2 ^ 62 \<and> process_inv base d p"
    shutdown_label shutdown_work "\<lambda>p. \<not> shutting_down base p" for base d
  by unfold_locales (metis shutdown_decreases, metis shutdown_enabled)

text \<open>The main goroutine's exit code, and what shutting down leaves as it is.\<close>

definition ending :: "int \<Rightarrow> bool \<Rightarrow> process \<Rightarrow> bool" where
  "ending base err p \<longleftrightarrow>
     (\<forall>c \<in> set (p_conns p). \<not> crashed c) \<and> p_counter p < base + 10 ^ 12
     \<and> (p_main p = Stopping err \<or> p_main p = Closing err \<or> p_main p = Exited (if err then 1 else 0))"

lemma ending_step:
  assumes "ending base err p" "shutdown_label l" "process_exec base l p = Some p'" "process_inv base d p"
  shows "ending base err p'"
proof -
  have y: "process_step l p = Some p'" using assms(3) by (auto simp: process_exec_def simp del: process_step.simps split: if_splits)
  have len: "length (p_conns p) = length (conns (p_server p))" using assms(4) list_all2_lengthD by (auto simp: process_inv_def)
  show ?thesis
  proof (cases l)
    case (Net k)
    with y obtain s where s: "server_exec k (p_server p) = Some s"
      "p' = p\<lparr>p_server := s, p_conns := (case k of BeginClose i \<Rightarrow> (p_conns p)[i := (p_conns p ! i)\<lparr>closed := True\<rparr>] | _ \<Rightarrow> p_conns p)\<rparr>"
      by (auto simp del: server_exec.simps split: if_splits option.splits)
    have "\<forall>c \<in> set (p_conns p'). \<not> crashed c"
      using assms(1) s len by (auto simp: ending_def split: server_label.splits if_splits dest!: set_update_subset_insert[THEN subsetD])
    then show ?thesis using assms(1) s by (simp add: ending_def)
  qed (use y assms(1,2) in \<open>auto simp: ending_def shutdown_label_def split: if_splits main_pc.splits\<close>)
qed

lemma ending_run:
  "ending base err p \<Longrightarrow> \<forall>l \<in> set ls. shutdown_label l \<Longrightarrow> run (process_exec base) ls p = Some p' \<Longrightarrow>
     0 \<le> base \<Longrightarrow> base < 2 ^ 62 \<Longrightarrow> process_inv base d p \<Longrightarrow> ending base err p'"
proof (induction ls arbitrary: p)
  case (Cons l ls)
  then obtain t where t: "process_exec base l p = Some t" "run (process_exec base) ls t = Some p'" by (auto split: option.splits)
  then show ?case using Cons.IH[of t] Cons.prems ending_step[of base err p l t d] process_inv_step[of base d p l t] by simp
qed simp

section \<open>What the database holds\<close>

lemma process_rows:
  assumes inv: "process_inv base d p" and "distinct (map conn_id (p_conns p))"
    and "\<forall>b \<in> set (committed (p_writer p)). faultless (fst b)" "c \<in> set (p_conns p)"
  shows "\<exists>sent. db_log c = sent @ filter (\<lambda>op. op_conn op = Some (conn_id c)) (batch (p_writer p) @ writes (p_writer p))
           \<and> conn_rows (conn_id c) (w_db (p_writer p)) = conn_rows (conn_id c) (exec_ops now sent d)"
proof -
  let ?own = "filter (\<lambda>op. op_conn op = Some (conn_id c))" and ?w = "p_writer p"
  let ?sent = "?own (concat (map snd (committed ?w)))"
  have w: "accepted ?w = concat (map snd (committed ?w)) @ batch ?w @ writes ?w" "w_db ?w = replay (committed ?w) d"
    using inv by (simp_all add: process_inv_def writer_inv_def)
  have "?own (accepted ?w) = db_log c" using inv assms(2,4) by (simp add: process_inv_def logs_agree_def)
  then have "db_log c = ?sent @ ?own (batch ?w @ writes ?w)" by (simp add: w(1))
  moreover have "conn_rows (conn_id c) (w_db ?w) = conn_rows (conn_id c) (exec_ops now ?sent d)"
    by (simp add: w(2) conn_rows_replay[OF assms(3)] conn_rows_ops)
  ultimately show ?thesis by blast
qed

lemma no_rows_open: "conn_rows cid d = [] \<Longrightarrow> \<forall>x \<in> set (request_log d). lr_connection_id x \<noteq> cid"
  by (auto simp: conn_rows_def filter_empty_conv)

lemma rows_open_cong: "conn_rows cid d = conn_rows cid d' \<Longrightarrow> length (rows_open cid r d) = length (rows_open cid r d')"
  using arg_cong[OF rows_open_view[of cid r d], of length] arg_cong[OF rows_open_view[of cid r d'], of length] by simp

section \<open>Properties\<close>

text \<open>
  C3: At any moment of any run of the process in which the connections have different addresses and
  every batch committed so far met no database error, what the database holds of a connection is
  what it held at the start changed by the connection's own writes, applied one by one in their
  order, up to the writes still in the batch and the queue; batches, other connections and the
  totals of tests change nothing in it. If the address had no rows before, no reference of the
  connection has two unanswered rows.
\<close>

theorem database_follows_connections:
  assumes "reachable (process_exec base) (process_start base d) p" "distinct (map conn_id (p_conns p))"
    and "\<forall>b \<in> set (committed (p_writer p)). faultless (fst b)" "c \<in> set (p_conns p)"
  shows "\<exists>sent. db_log c = sent @ filter (\<lambda>op. op_conn op = Some (conn_id c)) (batch (p_writer p) @ writes (p_writer p))
           \<and> conn_rows (conn_id c) (w_db (p_writer p)) = conn_rows (conn_id c) (exec_ops now sent d)
           \<and> (conn_rows (conn_id c) d = [] \<longrightarrow> length (rows_open (conn_id c) r (w_db (p_writer p))) \<le> 1)"
proof -
  have inv: "process_inv base d p" using whole.inv_reachable[OF assms(1)] by simp
  from process_rows[OF inv assms(2-4)] obtain sent where
    s: "db_log c = sent @ filter (\<lambda>op. op_conn op = Some (conn_id c)) (batch (p_writer p) @ writes (p_writer p))"
       "conn_rows (conn_id c) (w_db (p_writer p)) = conn_rows (conn_id c) (exec_ops now sent d)" by blast
  have good: "good_log (conn_id c) (db_log c)"
    using inv assms(4) by (auto simp: process_inv_def conns_ok_def conn_inv_def conn_lifecycle_def dest!: lifecycle_good)
  then have g: "good_log (conn_id c) sent" using s(1) good_log_prefix by metis
  have own: "filter (\<lambda>op. op_conn op = Some (conn_id c)) sent = sent"
  proof (intro filter_True ballI)
    fix op assume "op \<in> set sent"
    then obtain xs ys where "sent = xs @ op # ys" using split_list by metis
    then show "op_conn op = Some (conn_id c)" using g by (auto simp: good_log_def write_ok_def)
  qed
  have "length (rows_open (conn_id c) r (exec_ops now sent d)) \<le> 1" if "conn_rows (conn_id c) d = []"
    using arg_cong[OF rows_open_run[OF no_rows_open[OF that], of r now sent], of length] good_log_open_rows[OF g, of r]
    by (simp add: own)
  with s rows_open_cong[OF s(2), of r] show ?thesis by (intro exI [of _ sent]) simp
qed

text \<open>The writer's part of a step of the process.\<close>

lemma process_writer:
  assumes "process_exec base l p = Some p'"
  shows "p_writer p' = p_writer p \<or> (\<exists>k. writer_exec k (p_writer p) = Some (p_writer p'))"
proof -
  have y: "process_step l p = Some p'" using assms by (auto simp: process_exec_def simp del: process_step.simps split: if_splits)
  show ?thesis
  proof (cases l)
    case (ConnStep i k wl)
    with y obtain c w where "db_step (p_conns p ! i) c wl (p_writer p) = Some w" "p_writer p' = w"
      by (auto simp del: server_exec.simps split: if_splits option.splits)
    with db_step_writer show ?thesis by blast
  next
    case (Register j sales)
    with y show ?thesis by (auto simp del: server_exec.simps split: option.splits)
  next
    case (Net k)
    with y show ?thesis by (auto simp del: server_exec.simps split: if_splits option.splits)
  qed (use y in \<open>auto simp del: writer_exec.simps split: if_splits main_pc.splits\<close>)
qed

text \<open>After \<open>Close\<close> no call of \<open>enqueue\<close> gets past the first \<open>select\<close>, so only those already under
  way, \<open>P\<close>, can still be sent; and what the writer goroutine leaves in the queue is among them.\<close>

definition left_behind :: "writeOp multiset \<Rightarrow> writer \<Rightarrow> bool" where
  "left_behind P w \<longleftrightarrow>
     w_done w \<and> mset (pending w) + (if run_pc w = Finished then mset (writes w) else {#}) \<subseteq># P"

lemma subset_mset_add1: "add_mset x A \<subseteq># P \<Longrightarrow> A \<subseteq># P"
  by (metis insert_subset_eq_iff diff_subset_eq_self subset_mset.order_trans)

lemma left_behind_step:
  assumes "left_behind P w" "writer_exec l w = Some w'"
  shows "left_behind P w'"
proof (cases l)
  case (SendOp i)
  with assms mset_drop_at[of i "pending w"] show ?thesis
    by (auto simp: left_behind_def dest: subset_mset_add1 split: if_splits)
next
  case (RejectOp i)
  with assms mset_drop_at[of i "pending w"] show ?thesis
    by (auto simp: left_behind_def dest: subset_mset_add1 split: if_splits)
next
  case Receive
  with assms show ?thesis by (auto simp: left_behind_def split: run_state.splits list.splits)
next
  case (EndBatch env)
  with assms show ?thesis
    by (cases "run_pc w") (auto simp: left_behind_def can_fill_def do_commit_def maxBatchSize_def split: if_splits)
qed (use assms in \<open>auto simp: left_behind_def split: if_splits\<close>)

lemma left_behind_process:
  "left_behind P (p_writer p) \<Longrightarrow> process_exec base l p = Some p' \<Longrightarrow> left_behind P (p_writer p')"
  using process_writer left_behind_step by metis

text \<open>
  C9: What a clean shutdown keeps, if the connections have different addresses and no commit meets a
  database error: when the process has exited, by whatever schedule, the last batch is written,
  and of each connection the database holds what the writes it was told are accepted give, applied
  one by one, but for those still in the queue; these are among the calls of \<open>enqueue\<close> that were
  between their two \<open>select\<close>s when the database was being closed, so with no such call every
  accepted write is in the database. Every connection \<open>Stop\<close> found is closed.
\<close>

theorem shutdown_persists:
  assumes "reachable (process_exec base) (process_start base d) p"
    and "run (process_exec base) (CloseDb # ls) p = Some p'" "p_main p' = Exited code"
    and "distinct (map conn_id (p_conns p'))" "\<forall>b \<in> set (committed (p_writer p')). faultless (fst b)"
  shows "batch (p_writer p') = [] \<and> mset (writes (p_writer p')) \<subseteq># mset (pending (p_writer p))
         \<and> (\<forall>c \<in> set (p_conns p'). \<exists>sent.
              db_log c = sent @ filter (\<lambda>op. op_conn op = Some (conn_id c)) (writes (p_writer p'))
              \<and> conn_rows (conn_id c) (w_db (p_writer p')) = conn_rows (conn_id c) (exec_ops now sent d)
              \<and> (pending (p_writer p) = [] \<longrightarrow> sent = db_log c))
         \<and> (\<forall>i \<in> set (stop_snapshot (p_server p')). closed (p_conns p' ! i) \<and> cs_removed (conns (p_server p') ! i))"
proof -
  have inv0: "process_inv base d p" using whole.inv_reachable[OF assms(1)] by simp
  have inv: "process_inv base d p'" using whole.inv_reachable[OF reachable_run[OF assms(2,1)]] by simp
  obtain q where q: "process_exec base CloseDb p = Some q" "run (process_exec base) ls q = Some p'"
    using assms(2) by (auto split: option.splits)
  then obtain err where "p_main p = Stopping err" "p_writer q = (p_writer p)\<lparr>w_done := True\<rparr>" "\<not> w_done (p_writer p)"
    by (auto simp: process_exec_def split: if_splits main_pc.splits)
  moreover from this have "run_pc (p_writer p) \<noteq> Finished" using inv0 by (auto simp: process_inv_def writer_inv_def)
  ultimately have "left_behind (mset (pending (p_writer p))) (p_writer q)" by (simp add: left_behind_def)
  from run_preserves[where P = "\<lambda>p'. left_behind (mset (pending (p_writer p))) (p_writer p')", OF left_behind_process this q(2)]
  have left: "left_behind (mset (pending (p_writer p))) (p_writer p')" .
  have m: "run_pc (p_writer p') = Finished" "stop_todo (p_server p') = Some []"
    using inv assms(3) by (simp_all add: process_inv_def main_inv_def)
  have b: "batch (p_writer p') = []" using inv m(1) by (simp add: process_inv_def writer_inv_def)
  have wr: "mset (writes (p_writer p')) \<subseteq># mset (pending (p_writer p))"
    using left m(1) subset_mset.order_trans[OF mset_subset_eq_add_right] unfolding left_behind_def by (simp, blast)
  have rows: "\<exists>sent. db_log c = sent @ filter (\<lambda>op. op_conn op = Some (conn_id c)) (writes (p_writer p'))
        \<and> conn_rows (conn_id c) (w_db (p_writer p')) = conn_rows (conn_id c) (exec_ops now sent d)
        \<and> (pending (p_writer p) = [] \<longrightarrow> sent = db_log c)" if c: "c \<in> set (p_conns p')" for c
    using process_rows[OF inv assms(4,5) c, of now] b wr by auto
  have srv: "server_inv (p_server p')" "list_all2 aligned (p_conns p') (conns (p_server p'))"
    using inv by (simp_all add: process_inv_def)
  have "closed (p_conns p' ! i) \<and> cs_removed (conns (p_server p') ! i)" if i: "i \<in> set (stop_snapshot (p_server p'))" for i
  proof -
    have b: "i < length (conns (p_server p'))" "cs_removed (conns (p_server p') ! i)"
      using srv(1) m(2) i by (auto simp: server_inv_def)
    moreover have "cs_closed (conns (p_server p') ! i)" using srv(1) b by (simp add: server_inv_def)
    moreover have "aligned (p_conns p' ! i) (conns (p_server p') ! i)" using list_all2_nthD2[OF srv(2) b(1)] .
    ultimately show ?thesis by (simp add: aligned_def)
  qed
  with rows b wr show ?thesis by blast
qed

text \<open>Shutting down reaches the exit by its own steps.\<close>

lemma shutdown_exit:
  assumes "reachable (process_exec base) (process_start base d) p" "ending base err p"
  shows "\<exists>ls p'. (\<forall>l \<in> set ls. shutdown_label l) \<and> run (process_exec base) ls p = Some p'
            \<and> p_main p' = Exited (if err then 1 else 0)"
proof -
  have inv: "0 \<le> base \<and> base < 2 ^ 62 \<and> process_inv base d p" using whole.inv_reachable[OF assms(1)] .
  from shutdown.goal_reached[OF inv] obtain ls p' where
    r: "\<forall>l \<in> set ls. shutdown_label l" "run (process_exec base) ls p = Some p'" "\<not> shutting_down base p'" by blast
  have "ending base err p'" using ending_run[OF assms(2) r(1,2)] inv by blast
  then have "p_main p' = Exited (if err then 1 else 0)" using r(3) by (auto simp: ending_def shutting_down_def)
  with r show ?thesis by blast
qed

text \<open>
  C15: Once the HTTP server has stopped, the process always gets to its end: from every reachable
  state the main goroutine, the closes it waits for and the writer goroutine alone lead to the
  exit, with status 1 exactly after an HTTP error, and however these steps are scheduled there
  are at most \<open>shutdown_work\<close> of them.
\<close>

theorem shutdown_completes:
  assumes "reachable (process_exec base) (process_start base d) p" "ending base err p"
  shows "(\<exists>ls p'. (\<forall>l \<in> set ls. shutdown_label l) \<and> run (process_exec base) ls p = Some p'
            \<and> p_main p' = Exited (if err then 1 else 0))
         \<and> (\<forall>ls p'. (\<forall>l \<in> set ls. shutdown_label l) \<and> run (process_exec base) ls p = Some p'
              \<longrightarrow> length ls \<le> shutdown_work p)"
proof -
  have inv: "0 \<le> base \<and> base < 2 ^ 62 \<and> process_inv base d p" using whole.inv_reachable[OF assms(1)] .
  have "length ls \<le> shutdown_work p"
    if "\<forall>l \<in> set ls. shutdown_label l" "run (process_exec base) ls p = Some p'" for ls p'
    using shutdown.worker_run_bounded[OF inv that] by simp
  with shutdown_exit[OF assms] show ?thesis by blast
qed

section \<open>A sample run\<close>

definition sample_process :: process where
  "sample_process = new_process bundled_spec [\<lparr>tmpl_message = sale_text, tmpl_original = []\<rparr>] [test_card]
     ''photon-client'' 0 empty_db"

definition sample_entry :: RequestLog where
  "sample_entry = (case stress_task sample_env 1 ''000000000001'' (sample_conn\<lparr>referenceCounter := 1\<rparr>) of
     Inr (LogSend s) \<Rightarrow> sd_entry s | _ \<Rightarrow> undefined)"

definition connect_and_log :: "process_label list" where
  "connect_and_log = [Net Listen, Net (Accept (client ''c1'')), Register 0 [], ConnStep 0 (StartStress 1 sample_env) None,
     Db (Enqueue (InsertLog sample_entry)), ConnStep 0 (Task 0 sample_env) (Some (SendOp 0)), Db Receive]"

definition stop_schedule :: "process_label list" where
  "stop_schedule = [HttpEnd False, Net StopListener, Net (StopSnapshot [''c1'']), Net (BeginClose 0), Net (OnClose 0), Net StopNext]"

lemma sample_entry:
  "stress_task sample_env 1 ''000000000001'' (sample_conn\<lparr>referenceCounter := 1\<rparr>) = Ok (LogSend \<lparr>sd_entry = sample_entry, sd_stress = True\<rparr>)"
  "rl_reference sample_entry = ''000000000001''" "rl_connection_id sample_entry = ''c1''" "rl_mti sample_entry = ''0200''"
  using sample_send by (auto simp: sample_entry_def)

definition logged_conn :: conn where
  "logged_conn = sample_conn\<lparr>referenceCounter := 1, tasks := [QueueSend \<lparr>sd_entry = sample_entry, sd_stress = True\<rparr>],
     db_log := [InsertLog sample_entry]\<rparr>"

definition logged_process :: process where
  "logged_process = sample_process\<lparr>
     p_server := (NewIsoServer ''photon-client'')\<lparr>listener := Some True, connMap := [''c1'' \<mapsto> 0],
       conns := [\<lparr>cs_remote = ''c1'', cs_closed = False, cs_removed = False\<rparr>]\<rparr>,
     p_conns := [logged_conn], p_counter := 1,
     p_writer := (newBatchWriter empty_db)\<lparr>accepted := [InsertLog sample_entry], batch := [InsertLog sample_entry], run_pc := Filling\<rparr>\<rparr>"

lemma logged_run: "run (process_exec 0) connect_and_log sample_process = Some logged_process"
proof -
  have n: "next_reference sample_conn = (''000000000001'', sample_conn\<lparr>referenceCounter := 1\<rparr>)"
    by (simp add: next_reference_def sample_conn_def newIsoConnection_def GenerateTimestampID_eval reference_of_def eval_simps)
  have c: "conn_id sample_conn = ''c1''" "closed sample_conn = False" "db_log sample_conn = []" "refused sample_conn = []"
    "tasks sample_conn = []" "crashed sample_conn = False"
    by (simp_all add: sample_conn_def newIsoConnection_def)
  have s: "spawn (stress_task sample_env 1 ''000000000001'' (sample_conn\<lparr>referenceCounter := 1\<rparr>)) (sample_conn\<lparr>referenceCounter := 1\<rparr>)
      = sample_conn\<lparr>referenceCounter := 1, tasks := [LogSend \<lparr>sd_entry = sample_entry, sd_stress = True\<rparr>]\<rparr>"
    by (simp add: sample_entry(1) spawn_def c)
  have e: "e_db_ok sample_env" by (simp add: sample_env_def)
  have q: "in_remote (client ''c1'') = ''c1''" "admitted ''photon-client'' (client ''c1'')"
    by (simp_all add: client_def admitted_def validateClient_def)
  show ?thesis
    unfolding connect_and_log_def
    by (simp add: process_exec_def alive_def sample_process_def new_process_def main_allows_def NewIsoServer_def
        HandleNewConnect_def q flip: sample_conn_def)
       (simp add: process_exec_def alive_def c n s e sample_entry(2) newBatchWriter_def db_step_def free_db_label_def enqueue_def db_up_def op_simps
        writeQueueSize_def logged_process_def sample_process_def new_process_def logged_conn_def NewIsoServer_def)
qed

definition stored_process :: process where
  "stored_process = logged_process\<lparr>p_writer := (newBatchWriter empty_db)\<lparr>accepted := [InsertLog sample_entry],
     committed := [(no_faults, [InsertLog sample_entry])], w_db := fst (commit no_faults [InsertLog sample_entry] empty_db)\<rparr>\<rparr>"

definition stopped_process :: process where
  "stopped_process = stored_process\<lparr>
     p_server := (NewIsoServer ''photon-client'')\<lparr>listener := Some False, conns := [\<lparr>cs_remote = ''c1'', cs_closed = True, cs_removed = True\<rparr>],
       stop_begun := True, stop_snapshot := [0], stop_todo := Some []\<rparr>,
     p_conns := [logged_conn\<lparr>closed := True\<rparr>], p_main := Stopping False\<rparr>"

definition exited_process :: process where
  "exited_process = stopped_process\<lparr>p_writer := (p_writer stored_process)\<lparr>w_done := True, run_pc := Finished\<rparr>, p_main := Exited 0\<rparr>"

lemma logged_conn_fields:
  "crashed logged_conn = False" "closed logged_conn = False" "conn_id logged_conn = ''c1''"
  "db_log logged_conn = [InsertLog sample_entry]"
  by (simp_all add: logged_conn_def sample_conn_def newIsoConnection_def)

lemma main_allows_stop:
  "main_allows (Stopping e) l \<longleftrightarrow> (\<forall>j. l \<noteq> Handshake j)"
  by (cases l) (auto simp: main_allows_def)

lemma stored_run: "run (process_exec 0) (connect_and_log @ [Db (EndBatch no_faults)]) sample_process = Some stored_process"
  unfolding run_append logged_run
  by (simp add: process_exec_def alive_def logged_process_def stored_process_def sample_process_def new_process_def
      logged_conn_fields free_db_label_def can_fill_def do_commit_def newBatchWriter_def)

lemma stopped_run: "run (process_exec 0) stop_schedule stored_process = Some stopped_process"
  unfolding stop_schedule_def
  by (simp add: process_exec_def alive_def logged_process_def stored_process_def stopped_process_def sample_process_def
      new_process_def logged_conn_fields main_allows_stop NewIsoServer_def key_order_def connections_def removeConn_def)

lemma exited_run:
  "run (process_exec 0) [CloseDb, Db SeeDone, Db (EndBatch no_faults), DbClosed] stopped_process = Some exited_process"
  by (simp add: process_exec_def alive_def logged_process_def stored_process_def stopped_process_def exited_process_def
      sample_process_def new_process_def logged_conn_fields newBatchWriter_def free_db_label_def can_fill_def)

lemma stored_reachable: "reachable (process_exec 0) (process_start 0 empty_db) stored_process"
proof -
  have "process_start 0 empty_db sample_process" by (auto simp: process_start_def sample_process_def)
  then show ?thesis using stored_run reachable_from_start by metis
qed

lemma stopped_reachable: "reachable (process_exec 0) (process_start 0 empty_db) stopped_process"
  using stopped_run stored_reachable by (rule reachable_run)

theorem database_follows_connections_witness:
  "conn_rows ''c1'' (w_db (p_writer stored_process)) = conn_rows ''c1'' (exec_ops 0 [InsertLog sample_entry] empty_db)
   \<and> length (rows_open ''c1'' ''000000000001'' (w_db (p_writer stored_process))) \<le> 1"
proof -
  have f: "p_conns stored_process = [logged_conn]" "batch (p_writer stored_process) = []" "writes (p_writer stored_process) = []"
    "committed (p_writer stored_process) = [(no_faults, [InsertLog sample_entry])]" "conn_rows ''c1'' empty_db = []"
    by (simp_all add: stored_process_def logged_process_def newBatchWriter_def conn_rows_def empty_db_def)
  have "distinct (map conn_id (p_conns stored_process))" "\<forall>b \<in> set (committed (p_writer stored_process)). faultless (fst b)"
    "logged_conn \<in> set (p_conns stored_process)"
    by (simp_all add: f logged_conn_fields no_faults_faultless)
  from database_follows_connections[OF stored_reachable this, of 0 "''000000000001''"] show ?thesis
    by (auto simp: f logged_conn_fields)
qed

theorem shutdown_persists_witness:
  "conn_rows ''c1'' (w_db (p_writer exited_process)) = [new_log_row 0 0 sample_entry] \<and> closed (p_conns exited_process ! 0)"
  using shutdown_persists[OF stopped_reachable exited_run, of 0 0]
  by (simp add: exited_process_def stopped_process_def stored_process_def logged_process_def sample_process_def
      new_process_def logged_conn_fields no_faults_faultless newBatchWriter_def)
     (simp add: conn_rows_def empty_db_def sample_entry(3))

theorem shutdown_completes_witness:
  "\<exists>ls p'. run (process_exec 0) ls stopped_process = Some p' \<and> p_main p' = Exited 0 \<and> length ls \<le> shutdown_work stopped_process"
proof -
  have "ending 0 False stopped_process"
    by (simp add: ending_def stopped_process_def stored_process_def logged_process_def sample_process_def
        new_process_def logged_conn_fields)
  from shutdown_completes[OF stopped_reachable this] show ?thesis by auto
qed

text \<open>The writes on their way while the process shuts down by its own steps.\<close>

definition calm :: "writeOp list \<Rightarrow> writer \<Rightarrow> bool" where
  "calm A w \<longleftrightarrow> pending w = [] \<and> accepted w = A \<and> (run_pc w = Finished \<longrightarrow> writes w = [])"

lemma calm_writer:
  assumes "calm A w" "run_label l \<or> l = CloseDone" "writer_exec l w = Some w'"
  shows "calm A w'"
proof (cases l)
  case Receive
  with assms show ?thesis by (auto simp: calm_def split: run_state.splits list.splits)
next
  case (EndBatch env)
  with assms show ?thesis
    by (cases "run_pc w") (auto simp: calm_def can_fill_def do_commit_def maxBatchSize_def split: if_splits)
qed (use assms in \<open>auto simp: calm_def run_label_def split: if_splits\<close>)

lemma calm_step:
  assumes "calm A (p_writer p)" "shutdown_label l" "process_exec base l p = Some p'"
  shows "calm A (p_writer p')"
proof -
  have y: "process_step l p = Some p'" using assms(3) by (auto simp: process_exec_def simp del: process_step.simps split: if_splits)
  show ?thesis
  proof (cases l)
    case (Db k)
    with y assms(1,2) calm_writer[of A "p_writer p" k] show ?thesis
      by (auto simp: shutdown_label_def simp del: writer_exec.simps split: if_splits)
  next
    case CloseDb
    with y assms(1) calm_writer[of A "p_writer p" CloseDone] show ?thesis
      by (auto simp del: writer_exec.simps split: main_pc.splits if_splits)
  qed (use y assms(1,2) in \<open>auto simp: shutdown_label_def simp del: server_exec.simps split: if_splits option.splits main_pc.splits\<close>)
qed

lemma calm_run:
  "calm A (p_writer p) \<Longrightarrow> \<forall>l \<in> set ls. shutdown_label l \<Longrightarrow> run (process_exec base) ls p = Some p' \<Longrightarrow> calm A (p_writer p')"
proof (induction ls arbitrary: p)
  case (Cons l ls)
  then obtain t where "process_exec base l p = Some t" "run (process_exec base) ls t = Some p'" by (auto split: option.splits)
  with Cons calm_step[of A p l base t] show ?case by simp
qed simp

text \<open>
  C39: Not every end is clean: when the process serves, an accepted write is not yet committed and no
  call of \<open>enqueue\<close> is under way (and fewer than \<open>10^12\<close> references were handed out), an error of the ISO
  listener (a certificate that does not load, an \<open>Accept\<close> that fails) ends the process by
  \<open>log.Fatal\<close> with fewer writes handed to the database than callers were told are accepted, and
  nothing can follow; from the same state the end of the HTTP server leads to an exit before which every one of them is handed to a transaction.
\<close>

theorem listener_failure_loses_writes:
  assumes "reachable (process_exec base) (process_start base d) p" "alive p" "p_counter p < base + 10 ^ 12"
    and "p_main p = Serving"
    and "pending (p_writer p) = []" "batch (p_writer p) \<noteq> [] \<or> writes (p_writer p) \<noteq> []"
  shows "(\<exists>p'. process_exec base ListenFatal p = Some p' \<and> (\<forall>l. process_exec base l p' = None)
            \<and> length (concat (map snd (committed (p_writer p')))) < length (accepted (p_writer p')))
         \<and> (\<exists>ls q. run (process_exec base) (HttpEnd err # ls) p = Some q \<and> p_main q = Exited (if err then 1 else 0)
              \<and> accepted (p_writer q) = accepted (p_writer p)
              \<and> concat (map snd (committed (p_writer q))) = accepted (p_writer q))"
proof (intro conjI)
  have inv: "process_inv base d p" using whole.inv_reachable[OF assms(1)] by simp
  then have a: "accepted (p_writer p) = concat (map snd (committed (p_writer p))) @ batch (p_writer p) @ writes (p_writer p)"
    by (simp add: process_inv_def writer_inv_def)
  with assms(2,3,6) show "\<exists>p'. process_exec base ListenFatal p = Some p' \<and> (\<forall>l. process_exec base l p' = None)
      \<and> length (concat (map snd (committed (p_writer p')))) < length (accepted (p_writer p'))"
    by (intro exI [of _ "p\<lparr>p_main := Killed\<rparr>"]) (auto simp: process_exec_def alive_def)
  let ?q = "p\<lparr>p_main := Stopping err\<rparr>"
  have x: "process_exec base (HttpEnd err) p = Some ?q" using assms(2-4) by (simp add: process_exec_def)
  then have r: "reachable (process_exec base) (process_start base d) ?q"
    using reachable_run[OF _ assms(1), of "[HttpEnd err]" ?q] by simp
  have "ending base err ?q" using assms(2,3) by (simp add: ending_def alive_def)
  from shutdown_exit[OF r this] obtain ls q where
    q: "\<forall>l \<in> set ls. shutdown_label l" "run (process_exec base) ls ?q = Some q" "p_main q = Exited (if err then 1 else 0)"
    by blast
  have "run_pc (p_writer p) \<noteq> Finished" using inv assms(4) by (auto simp: process_inv_def main_inv_def writer_inv_def)
  then have "calm (accepted (p_writer p)) (p_writer ?q)" using assms(5) by (simp add: calm_def)
  note c = calm_run[OF this q(1,2)]
  have i: "process_inv base d q" using whole.inv_reachable[OF reachable_run[OF q(2) r]] by simp
  then have "run_pc (p_writer q) = Finished" using q(3) by (simp add: process_inv_def main_inv_def split: if_splits)
  then have "concat (map snd (committed (p_writer q))) = accepted (p_writer q)"
    using i c by (simp add: process_inv_def writer_inv_def calm_def)
  then show "\<exists>ls q. run (process_exec base) (HttpEnd err # ls) p = Some q \<and> p_main q = Exited (if err then 1 else 0)
      \<and> accepted (p_writer q) = accepted (p_writer p)
      \<and> concat (map snd (committed (p_writer q))) = accepted (p_writer q)"
    using q x c by (intro exI [of _ ls] exI [of _ q]) (simp add: calm_def)
qed

theorem listener_failure_loses_writes_witness:
  "(\<exists>p. process_exec 0 ListenFatal logged_process = Some p \<and> committed (p_writer p) = [] \<and> accepted (p_writer p) = [InsertLog sample_entry])
   \<and> (\<exists>ls q. run (process_exec 0) (HttpEnd False # ls) logged_process = Some q \<and> p_main q = Exited 0
        \<and> concat (map snd (committed (p_writer q))) = [InsertLog sample_entry])"
proof -
  have "process_start 0 empty_db sample_process" by (auto simp: process_start_def sample_process_def)
  then have r: "reachable (process_exec 0) (process_start 0 empty_db) logged_process"
    using logged_run reachable_from_start by metis
  have a: "accepted (p_writer logged_process) = [InsertLog sample_entry]"
    by (simp add: logged_process_def newBatchWriter_def)
  have "alive logged_process" "p_counter logged_process < 0 + 10 ^ 12" "p_main logged_process = Serving"
    "pending (p_writer logged_process) = []"
    "batch (p_writer logged_process) \<noteq> [] \<or> writes (p_writer logged_process) \<noteq> []"
    by (simp_all add: alive_def logged_process_def sample_process_def new_process_def logged_conn_fields newBatchWriter_def)
  from listener_failure_loses_writes[OF r this, of False] show ?thesis
    by (auto simp: a process_exec_def logged_process_def newBatchWriter_def split: if_splits)
qed

end
