(* ===== verification/Panic_Free.thy ===== *)
theory Panic_Free
  imports Startup Shutdown Response_Properties
begin

text \<open>
  Which inputs can end the process by a panic. The goroutines of a connection slice message types,
  references and fields, index lists by random numbers and print messages they have changed; each of
  these is safe, for any peer and under any schedule, but for one: a request whose field 123 holds an
  AV or CV tag with a negative length.
\<close>

section \<open>Printing a changed message\<close>

definition printable :: "Iso8583Message \<Rightarrow> bool" where
  "printable m \<longleftrightarrow> 4 \<le> length (message m) \<and> (has_bit (primaryBitMap m) 0 \<longrightarrow> secondaryBitMap m \<noteq> None)"

lemma printable_wf: "wf_msg m \<Longrightarrow> printable m"
  using wf_msgD(1,2) by (auto simp: printable_def)

lemma GetMTI_printable: "printable m \<Longrightarrow> GetMTI m = Ok (take 4 (message m))"
  by (simp add: printable_def GetMTI_def go_slice_def)

lemma FormatIso_printable: "printable m \<Longrightarrow> \<exists>raw. FormatIso m = Ok raw"
  by (cases "has_bit (primaryBitMap m) 0"; cases "secondaryBitMap m")
     (auto simp: FormatIso_def GetMTI_printable GetBit_ok, simp_all add: printable_def)

lemma printable_SetField [simp]: "printable (SetField m i v) = printable m"
  by (simp add: printable_def)

lemma printable_set_present [simp]: "printable (set_present i v m) = printable m"
  by (simp add: set_present_def)

lemma printable_marked: "0 < i \<Longrightarrow> i < 128 \<Longrightarrow> printable m \<Longrightarrow> printable (marked m i)"
  by (auto simp: printable_def marked_def split: if_splits)

lemma printable_put: "0 < i \<Longrightarrow> i < 128 \<Longrightarrow> put_field m i v = Ok r \<Longrightarrow> printable m \<Longrightarrow> printable r"
  by (auto simp: put_field_def MarkField_ok printable_marked)

lemma addPartial_printable: "addPartial r code n currency = Ok r' \<Longrightarrow> printable r \<Longrightarrow> printable r'"
  by (auto simp: addPartial_def go_div_def field_indices split: if_splits dest!: printable_put[rotated 2])

lemma addBalance_printable: "addBalance r code f n currency = Ok r' \<Longrightarrow> printable r \<Longrightarrow> printable r'"
  by (auto simp: addBalance_def field_indices split: if_splits dest!: printable_put[rotated 2])

section \<open>Answers\<close>

definition harmless :: "Iso8583Message \<Rightarrow> bool" where
  "harmless m \<longleftrightarrow> take 4 (message m) = ''0800''
     \<or> \<not> negative_tag (GetField m 122) ''AV'' \<and> \<not> negative_tag (GetField m 122) ''CV''"

lemma request_type_length: "isRequestMTI mti \<Longrightarrow> length (toResponseMTI mti) = 4"
  using toResponseMTI_requests by (auto simp: isRequestMTI_def requestMTISet_def)

lemma buildResponse_printable:
  assumes "printable req" "isRequestMTI (take 4 (message req))" "buildResponse intn now req = Ok (slept, r)"
  shows "printable r"
proof -
  let ?b = "req\<lparr>message := toResponseMTI (take 4 (message req)) @ drop 4 (message req)\<rparr>"
  have m: "4 \<le> length (message req)" using assms(1) by (simp add: printable_def)
  have b: "printable ?b" using assms(1) request_type_length[OF assms(2)] by (simp add: printable_def)
  show ?thesis
    using assms(3) b
    by (auto simp: buildResponse_def GetMTI_printable[OF assms(1)] NewResponseMessage_ok[OF m] Let_def result_simps
          MarkField_ok field_indices printable_marked
        split: if_splits prod.splits dest!: addPartial_printable addBalance_printable printable_put[rotated 2])
qed

lemma harmless_answered:
  assumes "wf_msg req" "isRequestMTI (take 4 (message req))" "harmless req" "intn_ok intn"
  shows "buildResponse intn now req \<noteq> panic"
proof (cases "take 4 (message req) = ''0800''")
  case True
  then show ?thesis
    using wf_msgD(1)[OF assms(1)]
    by (simp add: buildResponse_def GetMTI_printable[OF printable_wf[OF assms(1)]] NewResponseMessage_ok put_field_ok field_indices)
next
  case False
  obtain slept code where "getResponseCode intn (GetField req 1) (GetField req 3) (GetField req 122) = Ok (slept, code)"
    using getResponseCode_ok[OF assms(4)] by blast
  from buildResponse_panic[OF assms(1) False assms(2) this] assms(3) False show ?thesis by (simp add: harmless_def)
qed

lemma respond_safe:
  assumes "wf_msg req" "isRequestMTI (take 4 (message req))" "harmless req" "intn_ok (e_intn e)"
  shows "respond e req c = Some (c, None) \<or> (\<exists>raw. respond e req c = Some (c, Some (QueueAnswer raw)))"
proof (cases "buildResponse (e_intn e) (e_clock e) req")
  case (Inl f)
  with harmless_answered[OF assms, of "e_clock e"] show ?thesis by (cases f) auto
next
  case (Inr p)
  obtain slept r where p: "p = (slept, r)" by (cases p)
  have "printable r" by (rule buildResponse_printable[OF printable_wf[OF assms(1)] assms(2) Inr[unfolded p]])
  then obtain raw where "FormatIso r = (Ok raw :: (string, string) result)" using FormatIso_printable by blast
  with Inr p show ?thesis by simp
qed

section \<open>Messages built from templates and sales\<close>

lemma value_length: "sane_lengths spec \<Longrightarrow> value_ok spec i v \<Longrightarrow> int (length v) < 2 ^ 62"
  by (auto simp: value_ok_def split: option.splits if_splits dest: sane_lengthsD)

lemma field_length: "wf_msg m \<Longrightarrow> sane_lengths (isoSpec m) \<Longrightarrow> int (length (GetField m i)) < 2 ^ 62"
  using value_length[of "isoSpec m" i] wf_msgD(4)[of m i] by (cases "msg_fields m i") (auto simp: GetField_def)

lemma parse_total: "short s \<Longrightarrow> sane_lengths spec \<Longrightarrow> NewIso8583Message s spec \<noteq> panic"
  using NewIso8583Message_refines by (fastforce split: option.splits)

definition no_panic :: "('e, 'a) result \<Rightarrow> ('a \<Rightarrow> bool) \<Rightarrow> bool" where
  "no_panic r P \<longleftrightarrow> (case r of Inl Panic \<Rightarrow> False | Inl (Err _) \<Rightarrow> True | Inr a \<Rightarrow> P a)"

lemma no_panic_simps [simp]:
  "no_panic (Ok a) P = P a" "no_panic (fail e) P" "\<not> no_panic panic P"
  by (simp_all add: no_panic_def)

lemma no_panic_bindR: "no_panic r P \<Longrightarrow> (\<And>a. P a \<Longrightarrow> no_panic (f a) Q) \<Longrightarrow> no_panic (bindR r f) Q"
  by (cases r) (auto simp: no_panic_def split: fault.splits)

lemma no_panic_weaken: "no_panic r P \<Longrightarrow> (\<And>a. P a \<Longrightarrow> Q a) \<Longrightarrow> no_panic r Q"
  by (cases r) (auto simp: no_panic_def split: fault.splits)

lemma parse_no_panic:
  assumes "short s" "sane_lengths spec"
  shows "no_panic (NewIso8583Message s spec) (\<lambda>m. wf_msg m \<and> message m = s \<and> isoSpec m = spec)"
  using parse_total[OF assms] parsed_wf[OF assms]
  by (auto simp: no_panic_def split: sum.split fault.split)

lemma getIsoMessage_no_panic:
  assumes "short s" "sane_lengths spec"
  shows "no_panic (getIsoMessage cd reference spec s) printable"
  unfolding getIsoMessage_def
proof (rule no_panic_bindR[OF parse_no_panic[OF assms]], unfold Let_def, rule no_panic_bindR)
  fix m
  let ?m = "set_present 34 (Track2Data cd) (set_present 13 (ExpiryDate cd) (set_present 1 (CardNumber cd) m))"
  assume m: "wf_msg m \<and> message m = s \<and> isoSpec m = spec"
  then have p: "printable ?m" using printable_wf by simp
  have "GetField ?m 122 = GetField m 122" by (simp add: set_present_other)
  moreover obtain v where "rewrite_cvv cd (GetField m 122) = Ok v"
    using rewrite_cvv_ok field_length[of m 122] m assms(2) by blast
  ultimately show "no_panic (if GetField ?m 122 \<noteq> [] then bindR (rewrite_cvv cd (GetField ?m 122))
      (\<lambda>v. Ok (case v of None \<Rightarrow> ?m | Some s \<Rightarrow> SetField ?m 122 s)) else Ok ?m) printable"
    using p by (simp split: option.split)
qed simp

lemma newRequestLog_no_panic:
  assumes "printable m"
  shows "no_panic (newRequestLog tid reference cid now m) (\<lambda>e. 4 \<le> length (rl_mti e))"
proof -
  obtain raw where "FormatIso m = (Ok raw :: (iso_error, string) result)" using FormatIso_printable[OF assms] by blast
  then show ?thesis using assms by (simp add: newRequestLog_def GetMTI_printable printable_def)
qed

definition drawable :: "conn \<Rightarrow> bool" where
  "drawable c \<longleftrightarrow> sane_lengths (c_spec c) \<and> c_cards c \<noteq> [] \<and> c_templates c \<noteq> []
     \<and> (\<forall>t \<in> set (c_templates c). short (tmpl_message t) \<and> short (tmpl_original t))"

lemma pick_no_panic: "intn_ok intn \<Longrightarrow> xs \<noteq> [] \<Longrightarrow> no_panic (pick intn xs) (\<lambda>x. x \<in> set xs)"
  by (auto simp: pick_def at_index_def intn_ok_def nat_less_iff)

section \<open>Starting a worker\<close>

text \<open>The message types a goroutine carries are four characters; a channel of an echo test exists, and
  what it holds is as long as \<open>HandleRead\<close> asks for.\<close>

definition send_ok :: "send \<Rightarrow> bool" where "send_ok s \<longleftrightarrow> 4 \<le> length (rl_mti (sd_entry s))"
definition follow_ok :: "pendingFollowUp \<Rightarrow> bool" where "follow_ok f \<longleftrightarrow> 4 \<le> length (fu_mti f)"

fun task_safe :: "nat \<Rightarrow> task \<Rightarrow> bool" where
  "task_safe chans (RecordFollowUp s f) = (send_ok s \<and> follow_ok f)"
| "task_safe chans (StoreFollowUp s f) = (send_ok s \<and> follow_ok f)"
| "task_safe chans (LogSend s) = send_ok s"
| "task_safe chans (QueueSend s) = send_ok s"
| "task_safe chans (Respond m) = (wf_msg m \<and> isRequestMTI (take 4 (message m)) \<and> harmless m)"
| "task_safe chans (MatchResponse mti _ _ _ _) = (4 \<le> length mti)"
| "task_safe chans (LogFollowUp _ f) = follow_ok f"
| "task_safe chans (QueueFollowUp _ f _) = follow_ok f"
| "task_safe chans (DeliverTest ch msg) = (ch < chans \<and> 46 \<le> length msg)"
| "task_safe chans (TestWrite _ ch) = (ch < chans)"
| "task_safe chans (TestWait _ ch) = (ch < chans)"
| "task_safe chans _ = True"

lemma stress_task_safe:
  assumes "drawable c" "intn_ok (e_intn e)" "intn_ok (e_card_intn e)"
  shows "no_panic (stress_task e tid reference c) (task_safe n)"
proof -
  note d = assms(1)[unfolded drawable_def]
  have short: "short (tmpl_message t)" "short (tmpl_original t)" if "t \<in> set (c_templates c)" for t
    using d that by auto
  have messages: "no_panic (template_messages cd reference (c_spec c) t)
      (\<lambda>(m, f). printable m \<and> (\<forall>x. f = Some x \<longrightarrow> printable x))" if "t \<in> set (c_templates c)" for cd t
    using short[OF that] d unfolding template_messages_def
    by (auto intro!: no_panic_bindR[OF getIsoMessage_no_panic])
  have follow: "no_panic (case f of None \<Rightarrow> Ok None | Some fm \<Rightarrow>
      bindR (FormatIso fm) (\<lambda>raw. bindR (GetMTI fm) (\<lambda>mti.
        (Ok (Some \<lparr>fu_mti = mti, fu_rawMessage = raw, fu_stressTestId = tid\<rparr>) :: (iso_error, _) result))))
      (\<lambda>fu. \<forall>x. fu = Some x \<longrightarrow> follow_ok x)" if "\<forall>x. f = Some x \<longrightarrow> printable x" for f
  proof (cases f)
    case (Some fm)
    with that obtain raw where "FormatIso fm = (Ok raw :: (iso_error, string) result)" using FormatIso_printable by blast
    with Some that show ?thesis by (simp add: GetMTI_printable follow_ok_def printable_def)
  qed simp
  show ?thesis
    unfolding stress_task_def RandomTemplate_def GetRandomCard_def
    using d assms(2,3)
    by (auto intro!: no_panic_bindR[OF pick_no_panic] no_panic_bindR[OF messages] no_panic_bindR[OF follow]
        no_panic_bindR[OF newRequestLog_no_panic] simp: Let_def send_ok_def split: option.split)
qed

definition replayable :: "IsoSpec \<Rightarrow> RefundCandidate \<Rightarrow> bool" where
  "replayable spec s \<longleftrightarrow>
     short (rc_request_message s)
     \<and> (\<forall>m. NewIso8583Message (rc_request_message s) spec = Ok m \<longrightarrow> 2 \<le> length (GetField m 2))"

lemma fmt_0d_width: "0 < w \<Longrightarrow> w \<le> length (fmt_0d w n)"
  by (auto simp: fmt_0d_def pad_zeros_def)

lemma reference_width: "12 \<le> length (fst (GenerateTimestampID n))"
  by (simp add: GenerateTimestampID_def Let_def fmt_0d_width)

lemma refund_message_no_panic:
  assumes "sane_lengths spec" "replayable spec s" "6 \<le> length reference"
  shows "no_panic (refund_message reference now (rc_request_message s) spec) printable"
proof (cases "NewIso8583Message (rc_request_message s) spec")
  case (Inl f)
  with parse_no_panic[of "rc_request_message s" spec] assms show ?thesis
    by (cases f) (auto simp: refund_message_def replayable_def)
next
  case (Inr m)
  then have "2 \<le> length (GetField m 2)" "printable m"
    using assms(1,2) parsed_wf(1)[OF _ assms(1) Inr] printable_wf by (auto simp: replayable_def)
  with Inr assms(3) show ?thesis by (simp add: refund_message_def go_slice_def Let_def)
qed

lemma refund_task_safe:
  assumes "sane_lengths (c_spec c)" "replayable (c_spec c) s" "6 \<le> length reference"
  shows "no_panic (refund_task e tid s reference c) (task_safe n)"
  unfolding refund_task_def
  by (rule no_panic_bindR[OF refund_message_no_panic[OF assms]], rule no_panic_bindR[OF newRequestLog_no_panic])
     (simp_all add: send_ok_def)

section \<open>The invariant of a connection\<close>

definition queued_ok :: "IsoRequestResponse \<Rightarrow> bool" where
  "queued_ok q \<longleftrightarrow> rr_reference q = [] \<or> 4 \<le> length (rr_mti q)"

definition conn_safe :: "conn \<Rightarrow> bool" where
  "conn_safe c \<longleftrightarrow>
     \<not> crashed c \<and> drawable c \<and> (\<forall>s \<in> set (c_sales c). replayable (c_spec c) s)
     \<and> (\<forall>t \<in> set (tasks c). task_safe (length (wait_chans c)) t)
     \<and> (\<forall>t. reader c = Handling t \<longrightarrow> task_safe (length (wait_chans c)) t)
     \<and> (\<forall>q \<in> set (writeChannel c). queued_ok q)
     \<and> (\<forall>q. cwriter c = Holding q \<longrightarrow> queued_ok q)
     \<and> (\<forall>stan ch. connTestMap c stan = Some ch \<longrightarrow> ch < length (wait_chans c))
     \<and> (\<forall>msg. Some msg \<in> set (wait_chans c) \<longrightarrow> 46 \<le> length msg)
     \<and> (\<forall>r f. followUps c r = Some f \<longrightarrow> follow_ok f)"

lemma matchKey_no_panic: "4 \<le> length mti \<Longrightarrow> \<exists>k. matchKey mti reference = Ok k"
  by (simp add: matchKey_def go_slice_def at_index_def)

lemma task_safe_mono: "task_safe n t \<Longrightarrow> n \<le> k \<Longrightarrow> task_safe k t"
  by (cases t) auto

lemma conn_safe_enqueue [simp]:
  "conn_safe (enqueue e r op c) = conn_safe c" "wait_chans (enqueue e r op c) = wait_chans c"
  "tasks (enqueue e r op c) = tasks c" "reader (enqueue e r op c) = reader c"
  by (auto simp: enqueue_def conn_safe_def drawable_def)

lemma queue_request_frame [simp]:
  "tasks (queue_request q c) = tasks c" "reader (queue_request q c) = reader c" "wait_chans (queue_request q c) = wait_chans c"
  by (simp_all add: queue_request_def)

lemma conn_safe_frame [simp]:
  "conn_safe (c\<lparr>droppedCount := n\<rparr>) = conn_safe c" "conn_safe (c\<lparr>unmatchedCount := n\<rparr>) = conn_safe c"
  "conn_safe (c\<lparr>sentTimes := m\<rparr>) = conn_safe c" "conn_safe (c\<lparr>sent_frames := fs\<rparr>) = conn_safe c"
  "conn_safe (c\<lparr>closed := b\<rparr>) = conn_safe c" "conn_safe (c\<lparr>referenceCounter := i\<rparr>) = conn_safe c"
  by (simp_all add: conn_safe_def drawable_def)

lemma conn_safe_updates:
  "conn_safe c \<Longrightarrow> follow_ok f \<Longrightarrow> conn_safe (c\<lparr>followUps := (followUps c)(r \<mapsto> f)\<rparr>)"
  "conn_safe c \<Longrightarrow> conn_safe (c\<lparr>followUps := (followUps c)(r := None)\<rparr>)"
  "conn_safe c \<Longrightarrow> queued_ok q \<Longrightarrow> conn_safe (queue_request q c)"
  "conn_safe c \<Longrightarrow> conn_safe (c\<lparr>connTestMap := (connTestMap c)(stan := None)\<rparr>)"
  by (simp_all add: conn_safe_def drawable_def queue_request_def)

lemma conn_safe_chans:
  assumes "conn_safe c"
  shows "46 \<le> length msg \<Longrightarrow> conn_safe (c\<lparr>wait_chans := (wait_chans c)[ch := Some msg]\<rparr>)"
    and "conn_safe (c\<lparr>wait_chans := (wait_chans c)[ch := None]\<rparr>)"
    and "conn_safe (c\<lparr>wait_chans := wait_chans c @ [None], connTestMap := (connTestMap c)(stan \<mapsto> length (wait_chans c))\<rparr>)"
proof -
  show "conn_safe (c\<lparr>wait_chans := (wait_chans c)[ch := Some msg]\<rparr>)" if "46 \<le> length msg"
    using assms that by (auto simp: conn_safe_def drawable_def dest!: subsetD [OF set_update_subset_insert])
  show "conn_safe (c\<lparr>wait_chans := (wait_chans c)[ch := None]\<rparr>)"
    using assms by (auto simp: conn_safe_def drawable_def dest!: subsetD [OF set_update_subset_insert])
  show "conn_safe (c\<lparr>wait_chans := wait_chans c @ [None], connTestMap := (connTestMap c)(stan \<mapsto> length (wait_chans c))\<rparr>)"
    using assms task_safe_mono[of "length (wait_chans c)" _ "Suc (length (wait_chans c))"]
    by (auto simp: conn_safe_def drawable_def less_SucI)
qed

text \<open>What one step of a goroutine leaves alone, and what it keeps.\<close>

lemma exec_task_safe:
  assumes "conn_safe c" "task_safe (length (wait_chans c)) t" "intn_ok (e_intn e)" "exec_task e t c = Some (c', k)"
  shows "conn_safe c' \<and> tasks c' = tasks c \<and> reader c' = reader c
         \<and> (\<forall>t'. k = Some t' \<longrightarrow> task_safe (length (wait_chans c')) t')"
proof (cases t)
  case (Respond req)
  then have "wf_msg req" "isRequestMTI (take 4 (message req))" "harmless req" using assms(2) by auto
  from respond_safe[OF this assms(3), of c] assms(1,4) Respond show ?thesis by (auto simp del: respond_def)
next
  case (MatchResponse mti reference t' code auth)
  then obtain key where "matchKey mti reference = Ok key" using matchKey_no_panic assms(2) by auto
  with assms(1,4) MatchResponse show ?thesis by (auto split: option.splits)
next
  case (TakeFollowUp r)
  with assms(1,4) show ?thesis by (auto simp: conn_safe_updates) (auto simp: conn_safe_def)
next
  case (TestWait stan ch)
  have "46 \<le> length msg" if "wait_chans c ! ch = Some msg" for msg
    using assms(1,2) TestWait that nth_mem[of ch "wait_chans c"] by (auto simp: conn_safe_def)
  with assms(1,2,4) TestWait show ?thesis
    by (auto simp: conn_safe_chans go_slice_def split: if_splits option.splits)
qed (use assms(1,2,4) in \<open>auto simp: conn_safe_updates conn_safe_chans queued_ok_def send_request_def
      follow_request_def send_ok_def follow_ok_def Let_def split: if_splits option.splits\<close>)

section \<open>Steps\<close>

definition harmless_frame :: "IsoSpec \<Rightarrow> string \<Rightarrow> bool" where
  "harmless_frame spec msg \<longleftrightarrow>
     (case NewIso8583Message msg spec of Inl _ \<Rightarrow> True | Inr m \<Rightarrow> isRequestMTI (take 4 msg) \<longrightarrow> harmless m)"

text \<open>What the peers and the run-time choose: \<open>rand.Intn(n)\<close> is below \<open>n\<close>, a frame has a length of
  16 bits and no negative tag.\<close>

fun harmless_label :: "IsoSpec \<Rightarrow> conn_label \<Rightarrow> bool" where
  "harmless_label spec (StartStress tid e) = (intn_ok (e_intn e) \<and> intn_ok (e_card_intn e))"
| "harmless_label spec (Task i e) = intn_ok (e_intn e)"
| "harmless_label spec (Reader e) = intn_ok (e_intn e)"
| "harmless_label spec (ReadFrame msg e) = (length msg < 65536 \<and> harmless_frame spec msg)"
| "harmless_label spec _ = True"

lemma conn_safe_spawn:
  "conn_safe c \<Longrightarrow> no_panic r (task_safe (length (wait_chans c))) \<Longrightarrow> conn_safe (spawn r c)"
  by (auto simp: spawn_def no_panic_def conn_safe_def drawable_def split: sum.splits fault.splits)

lemma next_reference_safe:
  "conn_safe c \<Longrightarrow> next_reference c = (r, d) \<Longrightarrow>
     conn_safe d \<and> wait_chans d = wait_chans c \<and> c_spec d = c_spec c \<and> 12 \<le> length r"
  using reference_width[of "referenceCounter c"] by (auto simp: next_reference_def split: prod.splits)

lemma conn_safe_tasks:
  "conn_safe c \<Longrightarrow> \<forall>t \<in> set ts. task_safe (length (wait_chans c)) t \<Longrightarrow> conn_safe (c\<lparr>tasks := ts\<rparr>)"
  "conn_safe c \<Longrightarrow> \<forall>t. r = Handling t \<longrightarrow> task_safe (length (wait_chans c)) t \<Longrightarrow> conn_safe (c\<lparr>reader := r\<rparr>)"
  "conn_safe c \<Longrightarrow> \<forall>q. w = Holding q \<longrightarrow> queued_ok q \<Longrightarrow> conn_safe (c\<lparr>cwriter := w\<rparr>)"
  "conn_safe c \<Longrightarrow> \<forall>q \<in> set qs. queued_ok q \<Longrightarrow> conn_safe (c\<lparr>writeChannel := qs\<rparr>)"
  by (simp_all add: conn_safe_def drawable_def)

lemma on_frame_safe:
  assumes "conn_safe c" "length msg < 65536" "harmless_frame (c_spec c) msg"
  shows "case on_frame c msg t of Crash \<Rightarrow> False | Ignore \<Rightarrow> True
           | Handle k \<Rightarrow> task_safe (length (wait_chans c)) k | Spawn k \<Rightarrow> task_safe (length (wait_chans c)) k"
proof -
  have s: "short msg" "sane_lengths (c_spec c)" using assms(1,2) by (auto simp: short_def conn_safe_def drawable_def)
  note p = parse_no_panic[OF s]
  have f: "harmless m" if "NewIso8583Message msg (c_spec c) = Ok m" "isRequestMTI (take 4 msg)" for m
    using assms(3) that by (simp add: harmless_frame_def)
  have ch: "ch < length (wait_chans c)" if "connTestMap c stan = Some ch" for stan ch
    using assms(1) that by (auto simp: conn_safe_def)
  show ?thesis
    using p f ch by (auto simp: on_frame_def Let_def no_panic_def split: sum.splits fault.splits option.splits if_splits)
qed

lemma conn_exec_safe:
  assumes "conn_safe c" "harmless_label (c_spec c) l" "conn_exec l c = Some c'"
  shows "conn_safe c'"
proof (cases l)
  case (StartStress tid e)
  obtain r d where d: "next_reference c = (r, d)" by (cases "next_reference c")
  note s = next_reference_safe[OF assms(1) d]
  have "drawable d" using s by (simp add: conn_safe_def)
  with assms(2) StartStress have "no_panic (stress_task e tid r d) (task_safe (length (wait_chans d)))"
    by (intro stress_task_safe) simp_all
  moreover have "c' = spawn (stress_task e tid r d) d" using assms(3) StartStress d by (simp split: if_splits)
  ultimately show ?thesis using s conn_safe_spawn by blast
next
  case (StartRefund tid i e)
  obtain r d where d: "next_reference c = (r, d)" by (cases "next_reference c")
  note s = next_reference_safe[OF assms(1) d]
  from assms(1,3) StartRefund have rep: "replayable (c_spec c) (c_sales c ! i)" "sane_lengths (c_spec c)"
    by (auto simp: conn_safe_def drawable_def split: if_splits)
  from rep(1) have "short (rc_request_message (c_sales c ! i))" by (simp add: replayable_def)
  note p = parse_no_panic[OF this rep(2)]
  have "no_panic (refund_task e tid (c_sales c ! i) r d) (task_safe (length (wait_chans d)))"
    using rep s by (intro refund_task_safe) auto
  with s have "conn_safe (spawn (refund_task e tid (c_sales c ! i) r d) d)" using conn_safe_spawn by blast
  with p assms(1,3) StartRefund d show ?thesis
    by (cases "NewIso8583Message (rc_request_message (c_sales c ! i)) (c_spec c)")
       (auto simp: no_panic_def split: if_splits fault.splits)
next
  case OtherReference
  with assms next_reference_safe[OF assms(1)] show ?thesis
    by (cases "next_reference c") (auto split: if_splits)
next
  case (SendRaw raw)
  with assms show ?thesis by (auto simp: conn_safe_updates queued_ok_def split: if_splits)
next
  case StartTest
  with assms(3) have "c' = c\<lparr>tasks := tasks c @ [TestRange]\<rparr>" by (simp split: if_splits)
  with assms(1) show ?thesis by (simp add: conn_safe_def drawable_def)
next
  case (Task i e)
  with assms(3) obtain d k where x: "i < length (tasks c)" "exec_task e (tasks c ! i) c = Some (d, k)"
    and c': "c' = d\<lparr>tasks := (case k of None \<Rightarrow> drop_at i (tasks c) | Some t \<Rightarrow> (tasks c)[i := t])\<rparr>"
    by (auto split: if_splits option.splits)
  have "task_safe (length (wait_chans c)) (tasks c ! i)" using assms(1) x(1) by (simp add: conn_safe_def)
  from exec_task_safe[OF assms(1) this _ x(2)] assms(2) Task
  have d: "conn_safe d" "tasks d = tasks c" "\<forall>t'. k = Some t' \<longrightarrow> task_safe (length (wait_chans d)) t'" by auto
  then show ?thesis
    unfolding c' by (intro conn_safe_tasks)
      (auto simp: conn_safe_def split: option.splits dest!: subsetD [OF set_update_subset_insert] subsetD [OF set_drop_at])
next
  case (ReadFrame msg e)
  with assms on_frame_safe[OF assms(1), of msg "e_now e"] show ?thesis
    by (auto split: if_splits frame_action.splits intro!: conn_safe_tasks simp: conn_safe_def drawable_def)
next
  case ReadFail
  with assms show ?thesis by (auto split: if_splits intro!: conn_safe_tasks)
next
  case (Reader e)
  with assms(3) obtain t d k where x: "reader c = Handling t" "exec_task e t c = Some (d, k)"
    and c': "c' = d\<lparr>reader := (case k of None \<Rightarrow> Reading | Some t' \<Rightarrow> Handling t')\<rparr>"
    by (auto split: if_splits option.splits reader_pc.splits)
  have "task_safe (length (wait_chans c)) t" using assms(1) x(1) by (simp add: conn_safe_def)
  from exec_task_safe[OF assms(1) this _ x(2)] assms(2) Reader show ?thesis
    unfolding c' by (intro conn_safe_tasks) (auto split: option.splits)
next
  case Recv
  with assms show ?thesis
    by (auto split: if_splits writer_pc.splits list.splits intro!: conn_safe_tasks) (auto simp: conn_safe_def drawable_def)
next
  case SeeClose
  with assms show ?thesis by (auto split: if_splits intro!: conn_safe_tasks)
next
  case (StoreSent e)
  with assms(3) obtain q where q: "cwriter c = Holding q" by (auto split: if_splits writer_pc.splits)
  then have "rr_reference q \<noteq> [] \<Longrightarrow> \<exists>k. matchKey (rr_mti q) (rr_reference q) = Ok k"
    using assms(1) matchKey_no_panic by (auto simp: conn_safe_def queued_ok_def)
  with q assms StoreSent show ?thesis by (auto split: if_splits sum.splits intro!: conn_safe_tasks)
next
  case (WriteDone e)
  with assms show ?thesis by (auto split: if_splits writer_pc.splits intro!: conn_safe_tasks) (auto simp: conn_safe_def drawable_def)
next
  case CloseConn
  with assms show ?thesis by (auto split: if_splits)
qed

section \<open>The whole process\<close>

fun harmless_step :: "IsoSpec \<Rightarrow> process_label \<Rightarrow> bool" where
  "harmless_step spec (ConnStep i l wl) = harmless_label spec l"
| "harmless_step spec (Register j sales) = (\<forall>s \<in> set sales. replayable spec s)"
| "harmless_step spec _ = True"

definition well_provided :: "IsoSpec \<Rightarrow> IsoMsgTemplate list \<Rightarrow> Card list \<Rightarrow> bool" where
  "well_provided spec templates cards \<longleftrightarrow>
     sane_lengths spec \<and> cards \<noteq> [] \<and> templates \<noteq> []
     \<and> (\<forall>t \<in> set templates. short (tmpl_message t) \<and> short (tmpl_original t))"

definition all_safe :: "IsoSpec \<Rightarrow> process \<Rightarrow> bool" where
  "all_safe spec p \<longleftrightarrow>
     p_spec p = spec \<and> well_provided spec (p_templates p) (p_cards p)
     \<and> (\<forall>c \<in> set (p_conns p). conn_safe c \<and> c_spec c = spec)"

lemma conn_safe_new:
  "well_provided spec templates cards \<Longrightarrow> \<forall>s \<in> set sales. replayable spec s \<Longrightarrow>
     conn_safe (newIsoConnection cid spec templates cards sales n)"
  by (simp add: conn_safe_def drawable_def well_provided_def newIsoConnection_def)

lemma all_safe_step:
  assumes "all_safe spec p" "harmless_step spec l" "process_exec base l p = Some p'"
  shows "all_safe spec p'"
proof -
  have y: "process_step l p = Some p'" using assms(3) by (simp add: process_exec_def split: if_splits)
  show ?thesis
  proof (cases l)
    case (Net sl)
    have "all_safe spec (p\<lparr>p_server := s, p_conns := (p_conns p)[i := (p_conns p ! i)\<lparr>closed := b\<rparr>]\<rparr>)" for s i b
    proof (cases "i < length (p_conns p)")
      case True
      with assms(1) show ?thesis by (auto simp: all_safe_def dest!: subsetD [OF set_update_subset_insert])
    next
      case False
      with assms(1) show ?thesis by (simp add: all_safe_def list_update_beyond)
    qed
    with y Net assms(1) show ?thesis
      by (auto simp: all_safe_def simp del: server_exec.simps split: if_splits option.splits server_label.splits)
  next
    case (Register j sales)
    with assms(1,2) have "conn_safe (newIsoConnection cid spec (p_templates p) (p_cards p) sales n)" for cid n
      by (intro conn_safe_new) (auto simp: all_safe_def)
    with y Register assms(1) show ?thesis
      by (auto simp: all_safe_def newIsoConnection_def simp del: server_exec.simps split: if_splits option.splits)
  next
    case (ConnStep i cl wl)
    with y obtain c where c: "i < length (p_conns p)" "conn_exec cl (p_conns p ! i) = Some c"
      and p': "p_conns p' = map (\<lambda>d. d\<lparr>referenceCounter := referenceCounter c\<rparr>) ((p_conns p)[i := c])"
        "p_spec p' = p_spec p" "p_templates p' = p_templates p" "p_cards p' = p_cards p"
      by (auto simp del: server_exec.simps conn_exec.simps split: if_splits option.splits)
    have "conn_safe (p_conns p ! i)" "c_spec (p_conns p ! i) = spec" using assms(1) c(1) by (auto simp: all_safe_def)
    with conn_exec_safe[OF _ _ c(2)] conn_exec_loaded[OF c(2)] assms(2) ConnStep
    have "conn_safe c" "c_spec c = spec" by auto
    with assms(1) show ?thesis by (auto simp: p' all_safe_def dest!: subsetD [OF set_update_subset_insert])
  qed (use y assms(1) in \<open>auto simp: all_safe_def simp del: writer_exec.simps split: if_splits main_pc.splits\<close>)
qed

lemma all_safe_run:
  "run (process_exec base) ls p = Some p' \<Longrightarrow> \<forall>l \<in> set ls. harmless_step spec l \<Longrightarrow> all_safe spec p \<Longrightarrow> all_safe spec p'"
  by (induction ls arbitrary: p) (auto split: option.splits dest: all_safe_step)

section \<open>Properties\<close>

text \<open>
  C5: No goroutine of any connection panics, whatever clients connect, send and close, and however
  goroutines, writes and tests interleave, provided that at least one card and one template are
  loaded, the templates are shorter than \<open>2^62\<close> bytes and the lengths of the specification sane,
  replayed sales that parse have a processing code of two characters or more, \<open>rand\<close> stays in range,
  frames have fewer than 65536 bytes, and no request frame carries a negative tag length: then a
  process that has not exited and was not ended by \<open>log.Fatal\<close> is running.
\<close>

theorem no_goroutine_panics:
  assumes "well_provided spec templates cards" "\<forall>l \<in> set ls. harmless_step spec l"
    and "run (process_exec base) ls (new_process spec templates cards cn counter d) = Some p"
  shows "alive p \<or> p_main p = Killed \<or> (\<exists>status. p_main p = Exited status)"
proof -
  have "all_safe spec (new_process spec templates cards cn counter d)"
    using assms(1) by (simp add: all_safe_def new_process_def)
  from all_safe_run[OF assms(3,2) this] have "\<forall>c \<in> set (p_conns p). \<not> crashed c"
    by (auto simp: all_safe_def conn_safe_def)
  then show ?thesis by (cases "p_main p") (auto simp: alive_def)
qed

lemma harmful_respond:
  assumes "wf_msg m" "isRequestMTI (take 4 (message m))" "\<not> harmless m" "intn_ok (e_intn e)"
  shows "respond e m c = Some (crash c, None)"
proof -
  obtain slept code where code: "getResponseCode (e_intn e) (GetField m 1) (GetField m 3) (GetField m 122) = Ok (slept, code)"
    using getResponseCode_ok[OF assms(4)] by blast
  have "buildResponse (e_intn e) (e_clock e) m = panic"
    using buildResponse_panic[OF assms(1) _ assms(2) code] assms(3) by (auto simp: harmless_def)
  then show ?thesis by simp
qed

lemma harmful_frame:
  assumes "length msg < 65536" "20 \<le> length msg" "sane_lengths (c_spec c)" "NewIso8583Message msg (c_spec c) = Ok m"
    and "isRequestMTI (take 4 msg)" "\<not> harmless m"
  shows "on_frame c msg t = Spawn (Respond m)" "wf_msg m" "message m = msg"
proof -
  have "short msg" using assms(1) by (simp add: short_def)
  note p = parsed_wf[OF this assms(3,4)]
  show "wf_msg m" "message m = msg" using p by auto
  have "take 4 msg \<noteq> ''0800''" "take 4 msg \<noteq> ''0810''"
    using assms(5,6) p(2) by (auto simp: harmless_def isRequestMTI_def requestMTISet_def)
  with assms(2,4,5) show "on_frame c msg t = Spawn (Respond m)" by (simp add: on_frame_def Let_def)
qed

text \<open>
  C37: The exception ends everything: from any reachable state of a running process, one frame on one
  open connection, a request whose AV or CV tag has a negative length, lets the goroutine that
  answers it panic. After that nothing runs any more, no connection is closed and nothing is flushed.
\<close>

theorem harmful_frame_ends_process:
  assumes "reachable (process_exec base) (process_start base d) p" "alive p" "p_counter p < base + 10 ^ 12"
    and "i < length (p_conns p)" "c = p_conns p ! i" "reader c = Reading" "\<not> closed c"
    and "length msg < 65536" "20 \<le> length msg" "sane_lengths (c_spec c)" "NewIso8583Message msg (c_spec c) = Ok m"
    and "isRequestMTI (take 4 msg)" "\<not> harmless m" "intn_ok (e_intn e)"
  shows "\<exists>p'. run (process_exec base) [ConnStep i (ReadFrame msg e) None, ConnStep i (Task (length (tasks c)) e) None] p = Some p'
           \<and> (\<forall>l. process_exec base l p' = None) \<and> p_writer p' = p_writer p"
proof -
  note f = harmful_frame[OF assms(8-13)]
  have inv: "process_inv base d p" using whole.inv_reachable[OF assms(1)] by simp
  then have n: "referenceCounter c = p_counter p" using assms(4,5) by (simp add: process_inv_def conns_ok_def)
  have nc: "\<not> crashed c" using assms(2,4,5) by (simp add: alive_def)
  define c1 where "c1 = c\<lparr>tasks := tasks c @ [Respond m], referenceCounter := p_counter p\<rparr>"
  define p1 where "p1 = p\<lparr>p_conns := map (\<lambda>d. d\<lparr>referenceCounter := p_counter p\<rparr>)
      ((p_conns p)[i := c\<lparr>tasks := tasks c @ [Respond m]\<rparr>]), p_counter := p_counter p\<rparr>"
  have "conn_exec (ReadFrame msg e) c = Some (c\<lparr>tasks := tasks c @ [Respond m]\<rparr>)" using nc assms(6,7) f(1) by simp
  then have s1: "process_exec base (ConnStep i (ReadFrame msg e) None) p = Some p1"
    using assms(2-5,7) n by (simp add: process_exec_def db_step_def p1_def del: conn_exec.simps)
  have a1: "alive p1" "p_counter p1 < base + 10 ^ 12"
    using assms(2-4) nc by (auto simp: p1_def alive_def dest!: subsetD [OF set_update_subset_insert])
  have c1: "p_conns p1 ! i = c1" "i < length (p_conns p1)" using assms(4) by (simp_all add: p1_def c1_def)
  define c2 where "c2 = c1\<lparr>crashed := True, tasks := tasks c\<rparr>"
  have "respond e m c1 = Some (crash c1, None)" using harmful_respond[OF f(2) _ assms(13,14)] f(3) assms(12) by simp
  then have "conn_exec (Task (length (tasks c)) e) c1 = Some c2"
    using nc by (simp add: c1_def c2_def drop_at_def crash_def del: respond_def)
  moreover have "db_log c2 = db_log c1" "refused c2 = refused c1" "closed c2 = closed c1" by (simp_all add: c2_def)
  moreover define p2 where "p2 = p1\<lparr>p_conns := map (\<lambda>d. d\<lparr>referenceCounter := referenceCounter c2\<rparr>)
      ((p_conns p1)[i := c2]), p_counter := referenceCounter c2\<rparr>"
  ultimately have s2: "process_exec base (ConnStep i (Task (length (tasks c)) e) None) p1 = Some p2"
    using a1 c1 by (simp add: process_exec_def db_step_def del: conn_exec.simps)
  have "c2\<lparr>referenceCounter := referenceCounter c2\<rparr> \<in> set (p_conns p2)"
    using set_update_memI[OF c1(2), of c2] by (auto simp: p2_def intro: rev_image_eqI)
  moreover have "crashed (c2\<lparr>referenceCounter := referenceCounter c2\<rparr>)" by (simp add: c2_def)
  ultimately have "\<not> alive p2" unfolding alive_def by blast
  then have "\<forall>l. process_exec base l p2 = None" by (simp add: process_exec_def)
  moreover have "p_writer p2 = p_writer p" by (simp add: p2_def p1_def)
  ultimately show ?thesis using s1 s2 by (intro exI [of _ p2]) (simp del: process_step.simps)
qed

section \<open>Samples\<close>

lemma sample_provided: "well_provided bundled_spec [\<lparr>tmpl_message = sale_text, tmpl_original = []\<rparr>] [test_card]"
  using sale_short by (simp add: well_provided_def bundled_sane) (simp add: short_def)

lemma sample_env_ok: "intn_ok (e_intn sample_env)" "intn_ok (e_card_intn sample_env)"
  by (simp_all add: sample_env_def intn_ok_def)

theorem no_goroutine_panics_witness:
  "run (process_exec 0) connect_and_log sample_process = Some logged_process \<and> alive logged_process"
proof -
  have "\<forall>l \<in> set connect_and_log. harmless_step bundled_spec l" by (simp add: connect_and_log_def sample_env_ok)
  from no_goroutine_panics[OF sample_provided this logged_run[unfolded sample_process_def]] show ?thesis
    using logged_run by (simp add: logged_process_def sample_process_def new_process_def)
qed

theorem harmful_frame_ends_process_witness:
  "\<exists>p. run (process_exec 0) [ConnStep 0 (ReadFrame evil_text sample_env) None, ConnStep 0 (Task 1 sample_env) None] logged_process = Some p
     \<and> (\<forall>l. process_exec 0 l p = None) \<and> batch (p_writer p) = [InsertLog sample_entry]"
proof -
  have "process_start 0 empty_db sample_process" by (auto simp: process_start_def sample_process_def)
  then have r: "reachable (process_exec 0) (process_start 0 empty_db) logged_process"
    using logged_run reachable_from_start by metis
  have a: "alive logged_process" "p_counter logged_process < 0 + 10 ^ 12" "0 < length (p_conns logged_process)"
    "p_conns logged_process ! 0 = logged_conn" "reader logged_conn = Reading" "\<not> closed logged_conn"
    "batch (p_writer logged_process) = [InsertLog sample_entry]" "length (tasks logged_conn) = 1" "c_spec logged_conn = bundled_spec"
    by (simp_all add: alive_def logged_process_def sample_process_def new_process_def logged_conn_def sample_conn_def newIsoConnection_def)
  have e: "length evil_text < 65536" "20 \<le> length evil_text" by (simp_all add: evil_text_def)
  have "short evil_text" by (simp add: short_def evil_text_def)
  then have p: "NewIso8583Message evil_text bundled_spec = Ok evil_msg"
    using NewIso8583Message_refines[OF _ bundled_sane, of evil_text] by (simp add: request_decodes evil_msg_def)
  have h: "\<not> harmless evil_msg"
    by (simp add: harmless_def negative_tag_def GetField_def request_simps request_texts str_index.simps eval_simps)
  have q: "isRequestMTI (take 4 evil_text)" by (simp add: request_texts isRequestMTI_def requestMTISet_def)
  from harmful_frame_ends_process[OF r a(1-3) a(4)[symmetric] a(5,6) e _ _ q h sample_env_ok(1)] show ?thesis
    using a(7) by (auto simp: a(8,9) bundled_sane p simp del: run.simps)
qed

end
