(* ===== verification/Read_Loop.thy ===== *)
theory Read_Loop
  imports Connection
begin

text \<open>
  The bounds of the write channel, and the echo test of \<open>TestConnection\<close> against the read loop:
  \<open>HandleRead\<close> delivers every echo reply into a channel of one place, whoever still waits.
\<close>

section \<open>The write channel\<close>

lemma exec_task_queue:
  "exec_task e t c = Some (c', k) \<Longrightarrow> length (writeChannel c) \<le> writeChannelSize \<Longrightarrow>
     length (writeChannel c') \<le> writeChannelSize"
  by (cases t)
     (auto simp: enqueue_def queue_request_def can_queue_def crash_def Let_def
        split: if_splits sum.splits fault.splits option.splits)

lemma spawn_fields [simp]:
  "writeChannel (spawn r c) = writeChannel c" "reader (spawn r c) = reader c" "wait_chans (spawn r c) = wait_chans c"
  by (auto simp: spawn_def crash_def split: sum.splits fault.splits)

lemma next_reference_fields:
  "next_reference c = (r, d) \<Longrightarrow>
     writeChannel d = writeChannel c \<and> reader d = reader c \<and> wait_chans d = wait_chans c \<and> tasks d = tasks c"
  by (auto simp: next_reference_def Let_def split: prod.splits)

lemma next_reference_snd [simp]:
  "writeChannel (snd (next_reference c)) = writeChannel c" "reader (snd (next_reference c)) = reader c"
  "wait_chans (snd (next_reference c)) = wait_chans c" "tasks (snd (next_reference c)) = tasks c"
  using next_reference_fields[of c "fst (next_reference c)" "snd (next_reference c)"] by simp_all

lemma conn_exec_queue:
  assumes "length (writeChannel c) \<le> writeChannelSize" "conn_exec l c = Some c'"
  shows "length (writeChannel c') \<le> writeChannelSize"
  using assms
proof (cases l)
  case (Task i e)
  with assms exec_task_queue show ?thesis by (fastforce split: if_splits option.splits)
next
  case (Reader e)
  with assms exec_task_queue show ?thesis by (fastforce split: if_splits option.splits reader_pc.splits)
qed (auto dest!: next_reference_fields simp: crash_def queue_request_def can_queue_def
       split: if_splits prod.splits sum.splits fault.splits frame_action.splits reader_pc.splits writer_pc.splits list.splits)

section \<open>A blocked read loop\<close>

fun test_chan :: "task \<Rightarrow> nat option" where
  "test_chan (TestWrite _ ch) = Some ch"
| "test_chan (TestWait _ ch) = Some ch"
| "test_chan _ = None"

text \<open>The read loop sends into a full channel that no test will receive from.\<close>

definition read_blocked :: "nat \<Rightarrow> string \<Rightarrow> conn \<Rightarrow> bool" where
  "read_blocked ch msg c \<longleftrightarrow>
     reader c = Handling (DeliverTest ch msg) \<and> ch < length (wait_chans c) \<and> wait_chans c ! ch \<noteq> None
     \<and> (\<forall>t \<in> set (tasks c). test_chan t \<noteq> Some ch)"

lemma exec_task_blocked:
  assumes "exec_task e t c = Some (c', k)" "ch < length (wait_chans c)" "wait_chans c ! ch \<noteq> None" "test_chan t \<noteq> Some ch"
  shows "reader c' = reader c \<and> tasks c' = tasks c \<and> ch < length (wait_chans c') \<and> wait_chans c' ! ch \<noteq> None
         \<and> (\<forall>t'. k = Some t' \<longrightarrow> test_chan t' \<noteq> Some ch)"
proof (cases t)
  case (DeliverTest ch' m)
  then have "ch' \<noteq> ch" using assms(1,3) by (auto split: if_splits)
  with DeliverTest assms show ?thesis by (auto split: if_splits)
next
  case (TestWait stan ch')
  with assms show ?thesis by (auto simp: crash_def split: if_splits sum.splits option.splits)
qed (use assms in \<open>auto simp: enqueue_def queue_request_def crash_def Let_def nth_append
       split: if_splits sum.splits fault.splits option.splits\<close>)

lemma stress_task_no_test: "stress_task e tid r c = Ok t \<Longrightarrow> test_chan t = None"
  by (auto simp: stress_task_def result_simps Let_def split: option.splits)

lemma refund_task_no_test: "refund_task e tid o' r c = Ok t \<Longrightarrow> test_chan t = None"
  by (auto simp: refund_task_def result_simps Let_def)

lemma spawn_blocked:
  assumes "read_blocked ch msg c" "\<And>t. mk = Ok t \<Longrightarrow> test_chan t = None" "tasks d = tasks c"
    "reader d = reader c" "wait_chans d = wait_chans c"
  shows "read_blocked ch msg (spawn mk d)"
  using assms by (auto simp: read_blocked_def spawn_def crash_def split: sum.splits fault.splits)

lemma read_blocked_step:
  assumes b: "read_blocked ch msg c" and x: "conn_exec l c = Some c'"
  shows "read_blocked ch msg c'"
proof (cases l)
  case (StartStress tid e)
  obtain r d where d: "next_reference c = (r, d)" by fastforce
  with x show ?thesis
    using spawn_blocked[OF b, of "stress_task e tid r d" d] stress_task_no_test[of e tid r d] next_reference_fields[OF d]
    by (auto simp: StartStress split: if_splits)
next
  case (StartRefund tid i e)
  obtain r d where d: "next_reference c = (r, d)" by fastforce
  have "read_blocked ch msg (crash c)" using b by (simp add: read_blocked_def crash_def)
  with x d b show ?thesis
    using spawn_blocked[OF b, of "refund_task e tid (c_sales c ! i) r d" d] refund_task_no_test[of e tid "c_sales c ! i" r d] next_reference_fields[OF d]
    by (auto simp: StartRefund split: if_splits sum.splits fault.splits)
next
  case (Task i e)
  then obtain d k where d: "exec_task e (tasks c ! i) c = Some (d, k)" "i < length (tasks c)"
    "c' = d\<lparr>tasks := (case k of None \<Rightarrow> drop_at i (tasks c) | Some t \<Rightarrow> (tasks c)[i := t])\<rparr>"
    using x by (auto split: if_splits option.splits)
  have t: "test_chan (tasks c ! i) \<noteq> Some ch" using b d(2) by (auto simp: read_blocked_def)
  note s = exec_task_blocked[OF d(1) _ _ t]
  show ?thesis
  proof (cases k)
    case None
    then show ?thesis using s b d set_drop_at[of i "tasks c"] by (auto simp: read_blocked_def)
  next
    case (Some t')
    then show ?thesis
      using s b d set_update_subset_insert[of "tasks c" i t'] by (auto simp: read_blocked_def)
  qed
qed (use b x in \<open>auto dest!: next_reference_fields simp: read_blocked_def crash_def queue_request_def
       split: if_splits prod.splits sum.splits fault.splits frame_action.splits reader_pc.splits writer_pc.splits list.splits\<close>)

definition no_conn_start :: "conn \<Rightarrow> bool" where
  "no_conn_start c \<longleftrightarrow> writeChannel c = []"

interpretation write_queue: invariant_system conn_exec no_conn_start "\<lambda>c. length (writeChannel c) \<le> writeChannelSize"
  by unfold_locales (simp add: no_conn_start_def, rule conn_exec_queue)

interpretation blocked_reader: invariant_system conn_exec "read_blocked ch msg" "read_blocked ch msg" for ch msg
  by unfold_locales (auto intro: read_blocked_step)

section \<open>Properties\<close>

text \<open>
  The write channel never holds more than 1024 messages.
\<close>

theorem write_channel_bounded:
  assumes "run conn_exec ls (newIsoConnection cid spec templates cards sales counter) = Some c"
  shows "length (writeChannel c) \<le> 1024"
  using write_queue.inv_run[OF _ assms] by (simp add: no_conn_start_def newIsoConnection_def writeChannelSize_def)

theorem write_channel_bounded_witness:
  "length (writeChannel (newIsoConnection ''c1'' bundled_spec [] [] [] 0)) \<le> 1024"
  by (rule write_channel_bounded[where ls = "[]"]) simp

text \<open>
  C38: A peer that answers one echo test three times stops the connection for good: the test takes
  the first reply, the second fills the test's channel, which holds one, and the third blocks the
  read loop in its send; the test succeeds and the connection stays open, and no later step,
  closing included, lets the read loop go on.
\<close>

theorem repeated_echo_reply_hangs_reader:
  assumes "46 \<le> length msg" "take 4 msg = ''0810''" "take 10 (drop 36 msg) = format_mdhms (e_clock e)"
    and "e_io_ok e" "\<not> e_timeout e"
  shows "\<exists>c. run conn_exec
           [StartTest, Task 0 e, Task 0 e, Task 0 e, ReadFrame msg e, Reader e, Task 0 e,
            ReadFrame msg e, Reader e, ReadFrame msg e, Task 0 e]
           (newIsoConnection cid spec templates cards sales counter) = Some c
         \<and> tasks c = [] \<and> \<not> closed c
         \<and> (\<forall>ls c'. run conn_exec ls c = Some c' \<longrightarrow> reader c' = Handling (DeliverTest 0 msg))"
proof -
  let ?c = "newIsoConnection cid spec templates cards sales counter"
  let ?stan = "format_mdhms (e_clock e)"
  have f: "on_frame d msg t = Handle (DeliverTest 0 msg)" if "connTestMap d ?stan = Some 0" for d t
    using assms(1-3) that by (simp add: on_frame_def Let_def)
  have s: "(go_slice msg 0 4 :: (string, string) result) = Ok ''0810''" using assms(1,2) by (simp add: go_slice_def)
  let ?c' = "?c\<lparr>sent_frames := [write_frame (test_text ?stan)], wait_chans := [Some msg],
      reader := Handling (DeliverTest 0 msg)\<rparr>"
  define c0 where "c0 = ?c"
  have n: "tasks c0 = []" "wait_chans c0 = []" "connTestMap c0 = Map.empty" "reader c0 = Reading" "\<not> closed c0"
    "\<not> crashed c0" "sent_frames c0 = []"
    by (simp_all add: c0_def newIsoConnection_def)
  let ?d = "c0\<lparr>wait_chans := [None], connTestMap := [?stan \<mapsto> 0], sent_frames := [write_frame (test_text ?stan)],
      tasks := [TestWait ?stan 0]\<rparr>"
  have r1: "run conn_exec [StartTest, Task 0 e, Task 0 e, Task 0 e] c0 = Some ?d"
    using assms(4) n by (simp add: Let_def)
  have r2: "run conn_exec [ReadFrame msg e, Reader e, Task 0 e] ?d = Some (?d\<lparr>tasks := [TestDelete ?stan True]\<rparr>)"
    using assms(5) n s by (simp add: f)
  have r3: "run conn_exec [ReadFrame msg e, Reader e, ReadFrame msg e, Task 0 e] (?d\<lparr>tasks := [TestDelete ?stan True]\<rparr>)
      = Some (c0\<lparr>sent_frames := [write_frame (test_text ?stan)], wait_chans := [Some msg], reader := Handling (DeliverTest 0 msg)\<rparr>)"
    using n by (simp add: f)
  have c: "run conn_exec
      [StartTest, Task 0 e, Task 0 e, Task 0 e, ReadFrame msg e, Reader e, Task 0 e,
       ReadFrame msg e, Reader e, ReadFrame msg e, Task 0 e] ?c = Some ?c'"
    using run_append[of conn_exec "[StartTest, Task 0 e, Task 0 e, Task 0 e]"
        "[ReadFrame msg e, Reader e, Task 0 e] @ [ReadFrame msg e, Reader e, ReadFrame msg e, Task 0 e]" c0]
      run_append[of conn_exec "[ReadFrame msg e, Reader e, Task 0 e]" _ ?d] r1 r2 r3
    unfolding c0_def by (simp del: run.simps)
  have "read_blocked 0 msg ?c'" by (simp add: read_blocked_def newIsoConnection_def)
  then have h: "\<forall>ls c'. run conn_exec ls ?c' = Some c' \<longrightarrow> reader c' = Handling (DeliverTest 0 msg)"
    using blocked_reader.inv_run[of 0 msg ?c'] unfolding read_blocked_def by blast
  have t: "tasks ?c' = []" "\<not> closed ?c'" by (simp_all add: newIsoConnection_def)
  show ?thesis by (rule exI [of _ ?c'], intro conjI) (fact c t h)+
qed

theorem repeated_echo_reply_hangs_reader_witness:
  "\<exists>c ls. run conn_exec ls (newIsoConnection ''c1'' bundled_spec [] [] [] 0) = Some c \<and> \<not> closed c
     \<and> (\<forall>ls c'. run conn_exec ls c = Some c' \<longrightarrow> reader c' \<noteq> Reading)"
proof -
  let ?t = "\<lparr>ck_month = 3, ck_day = 14, ck_hour = 12, ck_minute = 0, ck_second = 0\<rparr>"
  let ?e = "\<lparr>e_now = 7, e_clock = ?t, e_intn = (\<lambda>_. 0), e_card_intn = (\<lambda>_. 0), e_db_ok = True, e_io_ok = True,
    e_timeout = False\<rparr>"
  let ?msg = "''081082200000000000000400000000000000'' @ format_mdhms ?t @ ''026612361''"
  have "length (format_mdhms ?t) = 10" by (rule length_format_mdhms) (simp add: valid_clock_def)
  then have m: "46 \<le> length ?msg" "take 4 ?msg = ''0810''" "take 10 (drop 36 ?msg) = format_mdhms (e_clock ?e)"
    by simp_all
  have "e_io_ok ?e" "\<not> e_timeout ?e" by simp_all
  from repeated_echo_reply_hangs_reader[OF m this, of "''c1''" bundled_spec "[]" "[]" "[]" 0]
  obtain ls c where c: "run conn_exec ls (newIsoConnection ''c1'' bundled_spec [] [] [] 0) = Some c" "\<not> closed c"
    "\<forall>ls c'. run conn_exec ls c = Some c' \<longrightarrow> reader c' = Handling (DeliverTest 0 ?msg)"
    by blast
  then show ?thesis by (metis reader_pc.distinct(1))
qed

end
