(* ===== verification/Stress_Run.thy ===== *)
theory Stress_Run
  imports Results Server
begin

text \<open>
  The generators: \<open>RunStress\<close> of \<open>network/server/iso_server.go\<close> and \<open>RunRefund\<close> of
  \<open>refund.go\<close>. Both work out from the elapsed time how many steps are due and make up late or
  dropped ticks on the next one. The ticker, the clock and the connected clients at each tick
  are the events of the run; what the workers do with a job is in \<open>Connection\<close>.
\<close>

section \<open>Pacing\<close>

text \<open>The tick interval in nanoseconds, at least a millisecond.\<close>

definition tick_interval :: "int \<Rightarrow> (string, int) result" where
  "tick_interval requestPerSecond =
     bindR (go_div (10 ^ 9) requestPerSecond) (\<lambda>interval.
     Ok (if interval < 10 ^ 6 then 10 ^ 6 else interval))"

definition steps_due :: "int \<Rightarrow> int \<Rightarrow> int \<Rightarrow> int" where
  "steps_due start now requestPerSecond =
     int_of_f64 (f64_mul (Seconds (time_sub now start)) (f64_of_int requestPerSecond))"

text \<open>\<open>time.Duration(TestTimeSecs)*time.Second\<close>, the timeout of the context.\<close>

definition test_timeout :: "int \<Rightarrow> int" where
  "test_timeout testTimeSecs = wrap64 (testTimeSecs * 10 ^ 9)"

section \<open>RunStress\<close>

record 'c stress_run =
  sr_steps :: int
  sr_pos :: int
  sr_count :: int
  sr_jobs :: "'c list"

text \<open>A tick brings its time, the snapshot of the connections and how many jobs can be queued
  before the context is done, if it is done during this tick.\<close>

datatype 'c stress_event = Tick int "'c list" "nat option" | ContextDone

text \<open>Queueing the jobs of one step; \<open>True\<close> when the context ends the loop.\<close>

fun queue_jobs :: "'c list \<Rightarrow> nat option \<Rightarrow> 'c stress_run \<Rightarrow> 'c stress_run \<times> nat option \<times> bool" where
  "queue_jobs [] budget st = (st, budget, False)"
| "queue_jobs (c # cs) budget st =
     (if budget = Some 0 then (st, budget, True)
      else queue_jobs cs (map_option (\<lambda>n. n - 1) budget)
             (st\<lparr>sr_count := sr_count st + 1, sr_jobs := sr_jobs st @ [c]\<rparr>))"

lemma queue_jobs_steps [simp]: "queue_jobs cs b st = (st', b', stop) \<Longrightarrow> sr_steps st' = sr_steps st"
  by (induction cs arbitrary: b st) (auto split: if_splits)

function tick_steps ::
    "string \<Rightarrow> 'c list \<Rightarrow> int \<Rightarrow> nat option \<Rightarrow> 'c stress_run \<Rightarrow> (string, 'c stress_run \<times> bool) result" where
  "tick_steps mode cs due budget st =
     (if sr_steps st < due
      then bindR (nodeTargets mode cs (sr_pos st)) (\<lambda>(targets, pos).
           case queue_jobs targets budget (st\<lparr>sr_pos := pos\<rparr>) of
             (st', budget', stop) \<Rightarrow>
               if stop then Ok (st', True)
               else tick_steps mode cs due budget' (st'\<lparr>sr_steps := sr_steps st' + 1\<rparr>))
      else Ok (st, False))"
  by pat_completeness auto
termination
  by (relation "measure (\<lambda>(mode, cs, due, b, st). nat (due - sr_steps st))") (auto dest: queue_jobs_steps[OF sym])

declare tick_steps.simps [simp del]

text \<open>The loop over the events; \<open>True\<close> when it has ended.\<close>

fun stress_loop :: "StressTest \<Rightarrow> int \<Rightarrow> 'c stress_event list \<Rightarrow> 'c stress_run \<Rightarrow> (string, 'c stress_run \<times> bool) result" where
  "stress_loop t start [] st = Ok (st, False)"
| "stress_loop t start (ContextDone # es) st = Ok (st, True)"
| "stress_loop t start (Tick now cs budget # es) st =
     bindR (tick_steps (st_node_test_mode t) cs (steps_due start now (st_request_per_second t)) budget st)
       (\<lambda>(st', stop). if stop then Ok (st', True) else stress_loop t start es st')"

definition run_start :: "'c stress_run" where
  "run_start = \<lparr>sr_steps = 0, sr_pos = 0, sr_count = 0, sr_jobs = []\<rparr>"

text \<open>The run so far and, once it has ended, the write of the total.\<close>

definition RunStress :: "StressTest \<Rightarrow> int \<Rightarrow> 'c stress_event list \<Rightarrow> (string, 'c stress_run \<times> writeOp option) result" where
  "RunStress t start es =
     (if st_test_time_secs t \<le> 0 \<or> st_request_per_second t \<le> 0 then Ok (run_start, None)
      else
        bindR (tick_interval (st_request_per_second t)) (\<lambda>_.
        bindR (stress_loop t start es run_start) (\<lambda>(st, ended).
        Ok (st, if ended then Some (SetTotalRequests (st_id t) (sr_count st)) else None))))"

section \<open>RunRefund\<close>

fun refund_sends :: "'c list \<Rightarrow> 'r list \<Rightarrow> nat \<Rightarrow> nat \<Rightarrow> (string, ('c \<times> 'r) list) result" where
  "refund_sends cs sales sent 0 = Ok []"
| "refund_sends cs sales sent (Suc n) =
     bindR (go_mod (int sent) (int (length cs))) (\<lambda>i.
     bindR (at_index cs i) (\<lambda>c.
     bindR (at_index sales (int sent)) (\<lambda>s.
     bindR (refund_sends cs sales (Suc sent) n) (\<lambda>rest. Ok ((c, s) # rest)))))"

text \<open>The loop over the ticks: what has been sent, and \<open>True\<close> when every sale has been.\<close>

fun refund_loop :: "'c list \<Rightarrow> 'r list \<Rightarrow> int \<Rightarrow> int \<Rightarrow> int list \<Rightarrow> nat \<Rightarrow> ('c \<times> 'r) list
    \<Rightarrow> (string, ('c \<times> 'r) list \<times> bool) result" where
  "refund_loop cs sales rps start [] sent out = Ok (out, length sales \<le> sent)"
| "refund_loop cs sales rps start (now # ticks) sent out =
     (if length sales \<le> sent then Ok (out, True)
      else
        let due = min (steps_due start now rps) (int (length sales)) in
        bindR (refund_sends cs sales sent (nat (due - int sent))) (\<lambda>new.
        refund_loop cs sales rps start ticks (sent + length new) (out @ new)))"

definition RunRefund ::
    "StressTest \<Rightarrow> (string, 'r list) result \<Rightarrow> 'c list \<Rightarrow> int \<Rightarrow> int list
     \<Rightarrow> (string, ('c \<times> 'r) list \<times> writeOp option) result" where
  "RunRefund t candidates cs start ticks =
     (case candidates of
        Inl Panic \<Rightarrow> panic
      | Inl (Err _) \<Rightarrow> Ok ([], None)
      | Inr sales \<Rightarrow>
          if cs = [] then Ok ([], None)
          else
            bindR (tick_interval (st_request_per_second t)) (\<lambda>_.
            bindR (refund_loop cs sales (st_request_per_second t) start ticks 0 []) (\<lambda>(out, ended).
            Ok (out, if ended then Some (SetTotalRequests (st_id t) (int (length out))) else None))))"

section \<open>The due steps\<close>

lemma Seconds_nonneg:
  "0 \<le> d \<Longrightarrow> Seconds d = f64_add (f64_of_int (d div 10 ^ 9)) (f64_div (f64_of_int (d mod 10 ^ 9)) (10 ^ 9))"
  by (cases "d = 0") (simp_all add: Seconds_def)

lemma Seconds_bounds:
  assumes "0 \<le> d" "d div 10 ^ 9 \<le> 2 ^ 52"
  shows "of_int (d div 10 ^ 9) \<le> Seconds d \<and> Seconds d \<le> of_int (d div 10 ^ 9 + 1)"
proof -
  let ?w = "d div 10 ^ 9" and ?f = "d mod 10 ^ 9"
  have f: "0 \<le> ?f" "?f < 10 ^ 9" by simp_all
  have w: "0 \<le> ?w" using assms(1) by (simp add: pos_imp_zdiv_nonneg_iff)
  have fi: "f64_of_int ?f = of_int ?f" "f64_of_int ?w = of_int ?w"
    using f w assms(2) by (simp_all add: f64_of_int_small)
  let ?q = "f64_div (f64_of_int ?f) (10 ^ 9)"
  have q: "0 \<le> ?q" "?q \<le> 1"
  proof -
    have "(of_int ?f :: rat) \<le> of_int (10 ^ 9)" using f by (simp only: of_int_le_iff)
    then show "?q \<le> 1" unfolding f64_div_def fi using f64_le_int[of "of_int ?f / 10 ^ 9" 1] f(1) by simp
    show "0 \<le> ?q" unfolding f64_div_def fi using f(1) by (intro f64_nonneg) simp
  qed
  show ?thesis
    unfolding Seconds_nonneg[OF assms(1)] f64_add_def fi(2)
    using f64_ge_int[of ?w "of_int ?w + ?q"] f64_le_int[of "of_int ?w + ?q" "?w + 1"] q w assms(2) by simp
qed

lemma Seconds_mono:
  assumes "0 \<le> a" "a \<le> b" "b div 10 ^ 9 \<le> 2 ^ 52"
  shows "Seconds a \<le> Seconds b"
proof -
  have le: "a div 10 ^ 9 \<le> b div 10 ^ 9" using assms(2) by (simp add: zdiv_mono1)
  show ?thesis
  proof (cases "a div 10 ^ 9 = b div 10 ^ 9")
    case True
    have "a mod 10 ^ 9 \<le> b mod 10 ^ 9"
      using assms(2) True by (metis add_le_cancel_left div_mult_mod_eq)
    then have "f64_div (f64_of_int (a mod 10 ^ 9)) (10 ^ 9) \<le> f64_div (f64_of_int (b mod 10 ^ 9)) (10 ^ 9)"
      unfolding f64_div_def f64_of_int_def
      by (intro f64_mono divide_right_mono divide_nonneg_nonneg f64_nonneg) simp_all
    moreover have "0 \<le> f64_of_int (a div 10 ^ 9) + f64_div (f64_of_int (a mod 10 ^ 9)) (10 ^ 9)"
      unfolding f64_div_def f64_of_int_def
      using assms(1) by (intro add_nonneg_nonneg f64_nonneg divide_nonneg_nonneg) (simp_all add: pos_imp_zdiv_nonneg_iff)
    ultimately show ?thesis
      using assms(1,2) True unfolding f64_add_def by (simp add: Seconds_nonneg f64_add_def f64_mono)
  next
    case False
    with le have "a div 10 ^ 9 + 1 \<le> b div 10 ^ 9" by simp
    then have "(of_int (a div 10 ^ 9 + 1) :: rat) \<le> of_int (b div 10 ^ 9)" by (simp only: of_int_le_iff)
    with Seconds_bounds[of a] Seconds_bounds[of b] assms le show ?thesis by linarith
  qed
qed

text \<open>Two roundings in a row.\<close>

lemma rounding_chain:
  fixes w f q s :: rat
  assumes "\<bar>q - f\<bar> \<le> f / 2 ^ 53" "\<bar>s - (w + q)\<bar> \<le> (w + q) / 2 ^ 53" "0 \<le> w" "0 \<le> f"
  shows "\<bar>s - (w + f)\<bar> \<le> (w + f) / 2 ^ 51"
proof -
  have q: "q \<le> f + f / 2 ^ 53" "f - f / 2 ^ 53 \<le> q" using assms(1) unfolding abs_le_iff by linarith+
  have s: "s \<le> w + q + (w + q) / 2 ^ 53" "w + q - (w + q) / 2 ^ 53 \<le> s"
    using assms(2) unfolding abs_le_iff by linarith+
  show ?thesis unfolding abs_le_iff using q s assms(3,4) by (simp add: field_simps)
qed

lemma Seconds_error:
  assumes "0 \<le> d" "d div 10 ^ 9 \<le> 2 ^ 52"
  shows "\<bar>Seconds d - of_int d / 10 ^ 9\<bar> \<le> of_int d / 10 ^ 9 / 2 ^ 51"
proof -
  let ?w = "of_int (d div 10 ^ 9) :: rat" and ?f = "of_int (d mod 10 ^ 9) / 10 ^ 9 :: rat"
  have w: "0 \<le> ?w" using assms(1) by (simp add: pos_imp_zdiv_nonneg_iff)
  have f: "0 \<le> ?f" by simp
  have fi: "f64_of_int (d mod 10 ^ 9) = of_int (d mod 10 ^ 9)" "f64_of_int (d div 10 ^ 9) = ?w"
    using assms w by (simp_all add: f64_of_int_small order.trans[OF less_imp_le[OF pos_mod_bound]] pos_imp_zdiv_nonneg_iff)
  have sum: "?w + ?f = of_int d / 10 ^ 9"
  proof -
    have "(of_int d :: rat) = of_int (d div 10 ^ 9 * 10 ^ 9 + d mod 10 ^ 9)" by simp
    also have "\<dots> = ?w * 10 ^ 9 + of_int (d mod 10 ^ 9)" by (simp only: of_int_add of_int_mult) simp
    finally show ?thesis by (simp add: field_simps)
  qed
  define q where "q = f64 ?f"
  have q: "\<bar>q - ?f\<bar> \<le> ?f / 2 ^ 53" unfolding q_def by (rule f64_error) (rule f)
  have q0: "0 \<le> q" unfolding q_def by (rule f64_nonneg) (rule f)
  have s: "Seconds d = f64 (?w + q)"
    by (simp only: Seconds_nonneg[OF assms(1)] f64_add_def f64_div_def fi q_def)
  have e: "\<bar>f64 (?w + q) - (?w + q)\<bar> \<le> (?w + q) / 2 ^ 53" using w q0 by (intro f64_error) simp
  show ?thesis using rounding_chain[OF q e w f] unfolding s sum .
qed

text \<open>The steps due after \<open>d\<close> nanoseconds, for tests of practical length and rate.\<close>

definition practical :: "int \<Rightarrow> int \<Rightarrow> bool" where
  "practical d rps \<longleftrightarrow> 0 \<le> d \<and> 0 < rps \<and> d < 2 ^ 60 \<and> rps \<le> 2 ^ 53 \<and> d * rps \<le> 10 ^ 9 * 2 ^ 40"

lemma practical_whole: "practical d rps \<Longrightarrow> d div 10 ^ 9 \<le> 2 ^ 52"
  using zdiv_mono1[of d "2 ^ 60" "10 ^ 9"] by (simp add: practical_def)

lemma steps_due_eval:
  assumes "practical (now - start) rps"
  shows "steps_due start now rps = \<lfloor>f64 (Seconds (now - start) * of_int rps)\<rfloor>"
    and "0 \<le> Seconds (now - start)"
proof -
  let ?d = "now - start"
  have d: "0 \<le> ?d" "time_sub now start = ?d" using assms by (simp_all add: practical_def time_sub_def)
  have "(0 :: rat) \<le> of_int (?d div 10 ^ 9)" using d(1) by (simp add: pos_imp_zdiv_nonneg_iff)
  then show s: "0 \<le> Seconds ?d" using Seconds_bounds[OF d(1) practical_whole[OF assms]] by linarith
  have "f64_of_int rps = of_int rps" using assms by (intro f64_of_int_small) (simp_all add: practical_def)
  moreover have "0 \<le> f64 (Seconds ?d * of_int rps)" using s assms by (intro f64_nonneg) (simp add: practical_def)
  ultimately show "steps_due start now rps = \<lfloor>f64 (Seconds ?d * of_int rps)\<rfloor>"
    by (simp add: steps_due_def d(2) f64_mul_def int_of_f64_def)
qed

lemma steps_due_mono:
  assumes "practical (a - start) rps" "practical (b - start) rps" "a \<le> b"
  shows "0 \<le> steps_due start a rps \<and> steps_due start a rps \<le> steps_due start b rps"
proof -
  have "Seconds (a - start) \<le> Seconds (b - start)"
    using assms practical_whole[OF assms(2)] by (intro Seconds_mono) (simp_all add: practical_def)
  then have "f64 (Seconds (a - start) * of_int rps) \<le> f64 (Seconds (b - start) * of_int rps)"
    using assms steps_due_eval(2)[OF assms(1)] by (intro f64_mono mult_right_mono) (simp_all add: practical_def)
  moreover have "0 \<le> f64 (Seconds (a - start) * of_int rps)"
    using assms(1) steps_due_eval(2)[OF assms(1)] by (intro f64_nonneg) (simp add: practical_def)
  ultimately show ?thesis by (simp add: steps_due_eval assms floor_mono)
qed

lemma steps_due_error:
  assumes "practical (now - start) rps"
  shows "\<bar>f64 (Seconds (now - start) * of_int rps) - of_int ((now - start) * rps) / 10 ^ 9\<bar> \<le> 1 / 2 ^ 10"
proof -
  let ?d = "now - start"
  define S where "S = Seconds ?d"
  define x where "x = (of_int (?d * rps) / 10 ^ 9 :: rat)"
  define r where "r = (of_int rps :: rat)"
  have d: "0 \<le> ?d" "0 < rps" "?d * rps \<le> 10 ^ 9 * 2 ^ 40" using assms by (simp_all add: practical_def)
  have r: "0 < r" using d(2) by (simp add: r_def)
  have xs: "x = of_int ?d / 10 ^ 9 * r" by (simp add: x_def r_def)
  have "(of_int (?d * rps) :: rat) \<le> of_int (10 ^ 9 * 2 ^ 40)" using d(3) by (simp only: of_int_le_iff)
  then have x: "x \<le> 2 ^ 40" by (simp add: x_def)
  have x0: "0 \<le> x" unfolding xs using d(1) r by simp
  have "\<bar>S - of_int ?d / 10 ^ 9\<bar> \<le> of_int ?d / 10 ^ 9 / 2 ^ 51"
    unfolding S_def by (rule Seconds_error[OF d(1) practical_whole[OF assms]])
  then have "\<bar>S - of_int ?d / 10 ^ 9\<bar> * r \<le> of_int ?d / 10 ^ 9 / 2 ^ 51 * r" using r by (intro mult_right_mono) simp_all
  moreover have "S * r - x = (S - of_int ?d / 10 ^ 9) * r" by (simp add: xs left_diff_distrib)
  ultimately have e1: "\<bar>S * r - x\<bar> \<le> x / 2 ^ 51" using r by (simp add: abs_mult xs)
  have S0: "0 \<le> S * r" using steps_due_eval(2)[OF assms] r by (simp add: S_def)
  have e2: "\<bar>f64 (S * r) - S * r\<bar> \<le> S * r / 2 ^ 53" by (rule f64_error[OF S0])
  have "S * r \<le> x + x / 2 ^ 51" "x - x / 2 ^ 51 \<le> S * r" using e1 unfolding abs_le_iff by linarith+
  moreover have "f64 (S * r) \<le> S * r + S * r / 2 ^ 53" "S * r - S * r / 2 ^ 53 \<le> f64 (S * r)"
    using e2 unfolding abs_le_iff by linarith+
  ultimately have "\<bar>f64 (S * r) - x\<bar> \<le> x / 2 ^ 50" unfolding abs_le_iff using x0 by (simp add: field_simps)
  also have "\<dots> \<le> 1 / 2 ^ 10" using x by simp
  finally show ?thesis unfolding S_def x_def r_def .
qed

section \<open>The generator loop\<close>

lemma tick_interval_bounds:
  assumes "0 < rps"
  shows "\<exists>i. tick_interval rps = Ok i \<and> 10 ^ 6 \<le> i \<and> i \<le> 10 ^ 9"
proof -
  have "(10 ^ 9 :: int) div rps \<le> 10 ^ 9" using assms zdiv_mono2[of "10 ^ 9" 1 rps] by simp
  then show ?thesis using assms by (simp add: tick_interval_def go_div_nonneg int64_def)
qed

lemma queue_jobs_all:
  "queue_jobs cs None st = (st\<lparr>sr_count := sr_count st + int (length cs), sr_jobs := sr_jobs st @ cs\<rparr>, None, False)"
  by (induction cs arbitrary: st) simp_all

text \<open>A run as the loop leaves it: \<open>sr_pos\<close> moves only in round-robin mode, at most once a step.\<close>

definition run_ok :: "string \<Rightarrow> bool \<Rightarrow> 'c stress_run \<Rightarrow> bool" where
  "run_ok mode always st \<longleftrightarrow> 0 \<le> sr_pos st \<and> sr_pos st \<le> sr_steps st \<and> sr_count st = int (length (sr_jobs st))
     \<and> (mode = NodeTestModeRoundRobin \<and> always \<longrightarrow> sr_count st = sr_steps st)"

lemma run_ok_start: "run_ok mode always run_start"
  by (simp add: run_ok_def run_start_def)

text \<open>Who gets the messages: of \<open>n\<close> steps in a row from position \<open>p\<close> in round-robin mode the connections
  of the tick in turn, otherwise every connection one at each step; and of a whole run, tick by
  tick, when the steps due at each and its connections are given.\<close>

definition step_jobs :: "string \<Rightarrow> 'c list \<Rightarrow> nat \<Rightarrow> nat \<Rightarrow> 'c list" where
  "step_jobs mode cs p n =
     (if mode = NodeTestModeRoundRobin \<and> cs \<noteq> [] then map (\<lambda>i. cs ! ((p + i) mod length cs)) [0..<n]
      else concat (replicate n cs))"

fun stress_plan :: "string \<Rightarrow> nat \<Rightarrow> int \<Rightarrow> (int \<times> 'c list) list \<Rightarrow> 'c list" where
  "stress_plan mode p done [] = []"
| "stress_plan mode p done ((due, cs) # es) =
     step_jobs mode cs p (nat (due - done))
     @ stress_plan mode (if mode = NodeTestModeRoundRobin \<and> cs \<noteq> [] then p + nat (due - done) else p) (max done due) es"

lemma step_jobs_0 [simp]: "step_jobs mode cs p 0 = []"
  by (simp add: step_jobs_def)

lemma step_jobs_Suc:
  "step_jobs mode cs p (Suc n) =
     (if mode = NodeTestModeRoundRobin \<and> cs \<noteq> [] then cs ! (p mod length cs) # step_jobs mode cs (Suc p) n
      else cs @ step_jobs mode cs p n)"
proof -
  have "[0..<Suc n] = 0 # map Suc [0..<n]" by (simp add: map_Suc_upt upt_conv_Cons)
  then show ?thesis by (simp add: step_jobs_def comp_def del: upt_Suc)
qed

lemma step_jobs_length:
  "mode = NodeTestModeRoundRobin \<Longrightarrow> cs \<noteq> [] \<Longrightarrow> length (step_jobs mode cs p n) = n"
  by (simp add: step_jobs_def)

lemma step_jobs_append:
  assumes "mode = NodeTestModeRoundRobin" "cs \<noteq> []"
  shows "step_jobs mode cs p m @ step_jobs mode cs (p + m) n = step_jobs mode cs p (m + n)"
proof (induction m arbitrary: p)
  case (Suc m)
  from Suc[of "Suc p"] show ?case using assms by (simp add: step_jobs_Suc)
qed simp

text \<open>With the same connections throughout, message \<open>i\<close> of a round-robin run goes to connection
  \<open>i\<close> modulo their number.\<close>

lemma stress_plan_same:
  assumes "mode = NodeTestModeRoundRobin" "cs \<noteq> []" "\<forall>e \<in> set es. snd e = cs" "sorted (map fst es)"
    and "\<forall>e \<in> set es. d \<le> fst e"
  shows "stress_plan mode p d es = step_jobs mode cs p (if es = [] then 0 else nat (fst (last es) - d))"
  using assms(3-5)
proof (induction es arbitrary: p d)
  case (Cons e es)
  obtain due where e: "e = (due, cs)" using Cons.prems(1) by (cases e) auto
  have d: "d \<le> due" "\<forall>e \<in> set es. due \<le> fst e" using Cons.prems by (auto simp: e)
  note app = step_jobs_append[OF assms(1,2)]
  have "stress_plan mode (p + nat (due - d)) due es
      = step_jobs mode cs (p + nat (due - d)) (if es = [] then 0 else nat (fst (last es) - due))"
    using Cons.IH[of due] Cons.prems d by simp
  moreover have "nat (due - d) + nat (fst (last es) - due) = nat (fst (last es) - d)" if "es \<noteq> []"
    using d(1) bspec[OF d(2) last_in_set[OF that]] by simp
  ultimately show ?case using assms(1,2) d(1) app by (simp add: e)
qed simp

lemma tick_steps_ok:
  assumes "run_ok mode always st" "due \<le> 2 ^ 62" "always \<longrightarrow> cs \<noteq> []"
  shows "\<exists>st'. tick_steps mode cs due None st = Ok (st', False) \<and> run_ok mode always st'
           \<and> sr_steps st' = max (sr_steps st) due
           \<and> sr_jobs st' = sr_jobs st @ step_jobs mode cs (nat (sr_pos st)) (nat (due - sr_steps st))
           \<and> sr_pos st' = (if mode = NodeTestModeRoundRobin \<and> cs \<noteq> [] then sr_pos st + int (nat (due - sr_steps st)) else sr_pos st)"
  using assms
proof (induction "nat (due - sr_steps st)" arbitrary: st rule: less_induct)
  case less
  show ?case
  proof (cases "sr_steps st < due")
    case True
    then have p: "0 \<le> sr_pos st" "sr_pos st < 2 ^ 63 - 1" using less.prems by (simp_all add: run_ok_def)
    let ?rr = "mode = NodeTestModeRoundRobin \<and> cs \<noteq> []"
    let ?ts = "if ?rr then [cs ! (nat (sr_pos st) mod length cs)] else cs" and ?pos = "if ?rr then sr_pos st + 1 else sr_pos st"
    have t: "nodeTargets mode cs (sr_pos st) = Ok (?ts, ?pos)"
    proof (cases ?rr)
      case True
      then show ?thesis using nodeTargets_eval[OF p, of cs] by simp
    qed (auto simp: nodeTargets_def)
    let ?st = "st\<lparr>sr_pos := ?pos, sr_count := sr_count st + int (length ?ts),
      sr_jobs := sr_jobs st @ ?ts, sr_steps := sr_steps st + 1\<rparr>"
    have n: "nat (due - sr_steps st) = Suc (nat (due - sr_steps ?st))" using True by simp
    have "run_ok mode always ?st" using less.prems by (auto simp: run_ok_def)
    then obtain st' where st': "tick_steps mode cs due None ?st = Ok (st', False)" "run_ok mode always st'"
      "sr_steps st' = max (sr_steps ?st) due"
      "sr_jobs st' = sr_jobs ?st @ step_jobs mode cs (nat (sr_pos ?st)) (nat (due - sr_steps ?st))"
      "sr_pos st' = (if ?rr then sr_pos ?st + int (nat (due - sr_steps ?st)) else sr_pos ?st)"
      using less.hyps[of ?st] less.prems(2,3) True by auto
    have "tick_steps mode cs due None st = tick_steps mode cs due None ?st"
      using True t by (subst tick_steps.simps) (simp add: queue_jobs_all)
    moreover have "sr_jobs st' = sr_jobs st @ step_jobs mode cs (nat (sr_pos st)) (nat (due - sr_steps st))"
      unfolding n step_jobs_Suc using st'(4) p(1) by (simp add: nat_add_distrib)
    moreover have "sr_pos st' = (if ?rr then sr_pos st + int (nat (due - sr_steps st)) else sr_pos st)"
      unfolding n using st'(5) by simp
    ultimately show ?thesis using st'(1-3) True by (intro exI [of _ st']) simp
  next
    case False
    then show ?thesis using less.prems by (subst tick_steps.simps) simp
  qed
qed

definition tick_events :: "(int \<times> 'c list) list \<Rightarrow> 'c stress_event list" where
  "tick_events ts = map (\<lambda>(now, cs). Tick now cs None) ts"

lemma practical_mono: "practical d rps \<Longrightarrow> 0 \<le> d' \<Longrightarrow> d' \<le> d \<Longrightarrow> practical d' rps"
  unfolding practical_def by (auto intro: order.trans[OF mult_right_mono[of d' d rps]])

lemma practical_due:
  assumes "practical (now - start) rps"
  shows "steps_due start now rps \<le> 2 ^ 62"
    and "\<bar>of_int (steps_due start now rps) - of_int ((now - start) * rps) / 10 ^ 9\<bar> < (1 + 1 / 2 ^ 10 :: rat)"
proof -
  define f where "f = f64 (Seconds (now - start) * of_int rps)"
  define x where "x = (of_int ((now - start) * rps) / 10 ^ 9 :: rat)"
  have e: "\<bar>f - x\<bar> \<le> 1 / 2 ^ 10" unfolding f_def x_def by (rule steps_due_error[OF assms])
  have s: "steps_due start now rps = \<lfloor>f\<rfloor>" by (simp add: steps_due_eval(1)[OF assms] f_def)
  have fl: "of_int \<lfloor>f\<rfloor> \<le> f" "f < of_int \<lfloor>f\<rfloor> + 1"
    using floor_correct[of f] unfolding of_int_add of_int_1 by blast+
  then show "\<bar>of_int (steps_due start now rps) - of_int ((now - start) * rps) / 10 ^ 9\<bar> < (1 + 1 / 2 ^ 10 :: rat)"
    using e unfolding s x_def[symmetric] abs_le_iff abs_less_iff by linarith
  have "(of_int ((now - start) * rps) :: rat) \<le> of_int (10 ^ 9 * 2 ^ 40)"
    using assms unfolding of_int_le_iff by (simp add: practical_def)
  then have "x \<le> 2 ^ 40" by (simp add: x_def)
  moreover have "f - x \<le> 1 / 2 ^ 10" using e unfolding abs_le_iff by blast
  moreover have "(1 / 2 ^ 10 :: rat) \<le> 1" "(2 ^ 40 + 1 :: rat) \<le> 2 ^ 41" by simp_all
  ultimately have "f \<le> 2 ^ 41" by linarith
  then have "(of_int \<lfloor>f\<rfloor> :: rat) \<le> of_int (2 ^ 62)" using fl(1) by (intro order.trans[OF fl(1)]) simp
  then show "steps_due start now rps \<le> 2 ^ 62" unfolding s by (simp only: of_int_le_iff)
qed

definition due_ticks :: "StressTest \<Rightarrow> int \<Rightarrow> (int \<times> 'c list) list \<Rightarrow> (int \<times> 'c list) list" where
  "due_ticks t start ts = map (\<lambda>(now, cs). (steps_due start now (st_request_per_second t), cs)) ts"

lemma stress_loop_ticks:
  assumes "run_ok (st_node_test_mode t) always st"
    and "sorted (map fst ts)" "\<forall>e \<in> set ts. practical (fst e - start) (st_request_per_second t) \<and> (always \<longrightarrow> snd e \<noteq> [])"
    and "\<forall>e \<in> set ts. sr_steps st \<le> steps_due start (fst e) (st_request_per_second t)"
  shows "\<exists>st'. stress_loop t start (tick_events ts @ es) st = stress_loop t start es st'
           \<and> run_ok (st_node_test_mode t) always st'
           \<and> sr_jobs st' = sr_jobs st @ stress_plan (st_node_test_mode t) (nat (sr_pos st)) (sr_steps st) (due_ticks t start ts)
           \<and> sr_steps st' = (if ts = [] then sr_steps st else steps_due start (fst (last ts)) (st_request_per_second t))"
  using assms
proof (induction ts arbitrary: st)
  case (Cons e ts)
  obtain now cs where e: "e = (now, cs)" by fastforce
  let ?due = "steps_due start now (st_request_per_second t)"
  have p: "practical (now - start) (st_request_per_second t)" "always \<longrightarrow> cs \<noteq> []" using Cons.prems(3) e by auto
  obtain st' where t: "tick_steps (st_node_test_mode t) cs ?due None st = Ok (st', False)"
    "run_ok (st_node_test_mode t) always st'" "sr_steps st' = max (sr_steps st) ?due"
    "sr_jobs st' = sr_jobs st @ step_jobs (st_node_test_mode t) cs (nat (sr_pos st)) (nat (?due - sr_steps st))"
    "sr_pos st' = (if st_node_test_mode t = NodeTestModeRoundRobin \<and> cs \<noteq> []
                   then sr_pos st + int (nat (?due - sr_steps st)) else sr_pos st)"
    using tick_steps_ok[OF Cons.prems(1) practical_due(1)[OF p(1)] p(2)] by blast
  have s: "sr_steps st' = ?due" using t(3) Cons.prems(4) e by simp
  have pos: "nat (sr_pos st') = (if st_node_test_mode t = NodeTestModeRoundRobin \<and> cs \<noteq> []
      then nat (sr_pos st) + nat (?due - sr_steps st) else nat (sr_pos st))"
    using t(5) Cons.prems(1) by (simp add: run_ok_def nat_add_distrib)
  have "\<forall>e' \<in> set ts. sr_steps st' \<le> steps_due start (fst e') (st_request_per_second t)"
    using Cons.prems(2,3) p(1) steps_due_mono[OF p(1)] unfolding s by (auto simp: e)
  then obtain st'' where st'': "stress_loop t start (tick_events ts @ es) st' = stress_loop t start es st''"
    "run_ok (st_node_test_mode t) always st''"
    "sr_jobs st'' = sr_jobs st' @ stress_plan (st_node_test_mode t) (nat (sr_pos st')) (sr_steps st') (due_ticks t start ts)"
    "sr_steps st'' = (if ts = [] then sr_steps st' else steps_due start (fst (last ts)) (st_request_per_second t))"
    using Cons.IH[OF t(2)] Cons.prems(2,3) by auto
  have "sr_jobs st'' = sr_jobs st @ stress_plan (st_node_test_mode t) (nat (sr_pos st)) (sr_steps st) (due_ticks t start (e # ts))"
    unfolding st''(3) t(4) pos t(3) by (simp add: due_ticks_def e)
  with st'' t(1) s show ?case by (intro exI [of _ st'']) (auto simp: tick_events_def e)
qed (auto simp: tick_events_def due_ticks_def)

section \<open>The refund loop\<close>

definition refund_plan :: "'c list \<Rightarrow> 'r list \<Rightarrow> nat \<Rightarrow> nat \<Rightarrow> ('c \<times> 'r) list" where
  "refund_plan cs sales from to = map (\<lambda>i. (cs ! (i mod length cs), sales ! i)) [from..<to]"

lemma refund_sends_eval:
  "cs \<noteq> [] \<Longrightarrow> sent + n \<le> length sales \<Longrightarrow> refund_sends cs sales sent n = Ok (refund_plan cs sales sent (sent + n))"
proof (induction n arbitrary: sent)
  case (Suc n)
  have "(go_mod (int sent) (int (length cs)) :: (string, int) result) = Ok (int (sent mod length cs))"
    using Suc.prems(1) by (simp add: go_mod_nonneg of_nat_mod)
  moreover have "[sent..<Suc (sent + n)] = sent # [Suc sent..<Suc (sent + n)]" by (simp add: upt_conv_Cons)
  ultimately show ?case
    using Suc by (simp add: at_index_ok refund_plan_def)
qed (simp add: refund_plan_def)

lemma refund_plan_append:
  "a \<le> b \<Longrightarrow> b \<le> c \<Longrightarrow> refund_plan cs sales a b @ refund_plan cs sales b c = refund_plan cs sales a c"
  using upt_add_eq_append[of a b "c - b"] by (simp add: refund_plan_def flip: map_append)

lemma refund_loop_eval:
  assumes "cs \<noteq> []" "sent \<le> length sales"
  shows "\<exists>n. refund_loop cs sales rps start ticks sent (refund_plan cs sales 0 sent) = Ok (refund_plan cs sales 0 n, n = length sales)
           \<and> n \<le> length sales
           \<and> ((\<exists>now \<in> set ticks. int (length sales) \<le> steps_due start now rps) \<longrightarrow> n = length sales)"
  using assms(2)
proof (induction ticks arbitrary: sent)
  case (Cons now ticks)
  show ?case
  proof (cases "length sales \<le> sent")
    case False
    let ?n = "nat (min (steps_due start now rps) (int (length sales)) - int sent)"
    have n: "sent + ?n \<le> length sales" using False by simp
    have l: "length (refund_plan cs sales sent (sent + ?n)) = ?n" by (simp add: refund_plan_def)
    have p: "refund_plan cs sales 0 sent @ refund_plan cs sales sent (sent + ?n) = refund_plan cs sales 0 (sent + ?n)"
      by (rule refund_plan_append) simp_all
    obtain m where m: "refund_loop cs sales rps start ticks (sent + ?n) (refund_plan cs sales 0 (sent + ?n))
        = Ok (refund_plan cs sales 0 m, m = length sales)" "m \<le> length sales"
      "(\<exists>now \<in> set ticks. int (length sales) \<le> steps_due start now rps) \<longrightarrow> m = length sales"
      using Cons.IH[OF n] by blast
    have full: "m = length sales" if "int (length sales) \<le> steps_due start now rps"
    proof -
      have "sent + ?n = length sales" using that False by simp
      then show ?thesis using m(1) by (cases ticks) (auto simp: refund_plan_def split: if_splits)
    qed
    show ?thesis
      using m full False refund_sends_eval[OF assms(1) n] l p by (intro exI [of _ m]) (auto simp: Let_def)
  qed (use Cons.prems in auto)
qed auto

section \<open>Properties\<close>


definition one_second_test :: StressTest where
  "one_second_test = \<lparr>st_id = 1, st_name = [], st_created_at = 0, st_total_requests = 0, st_test_time_secs = 1,
     st_request_per_second = 2, st_node_test_mode = NodeTestModeRoundRobin, st_test_type = ''sale'', st_source_test_id = 0\<rparr>"


text \<open>
  C16: A refund test sends the candidates in order, each at most once and to the connections in
  turn, whatever the ticks; it ends, and records its total, exactly when every sale has been
  sent, which it has been once a tick comes late enough. A rate of zero would panic.
\<close>

theorem refund_sends_each_sale_once:
  assumes "cs \<noteq> []" "0 < st_request_per_second t"
  shows "(\<exists>n. RunRefund t (Ok sales) cs start ticks
              = Ok (refund_plan cs sales 0 n, if n = length sales then Some (SetTotalRequests (st_id t) (int n)) else None)
            \<and> n \<le> length sales
            \<and> ((\<exists>now \<in> set ticks. int (length sales) \<le> steps_due start now (st_request_per_second t)) \<longrightarrow> n = length sales))
         \<and> RunRefund (t\<lparr>st_request_per_second := 0\<rparr>) (Ok sales) cs start ticks = panic"
proof -
  obtain n where n: "refund_loop cs sales (st_request_per_second t) start ticks 0 (refund_plan cs sales 0 0)
      = Ok (refund_plan cs sales 0 n, n = length sales)" "n \<le> length sales"
    "(\<exists>now \<in> set ticks. int (length sales) \<le> steps_due start now (st_request_per_second t)) \<longrightarrow> n = length sales"
    using refund_loop_eval[OF assms(1), of 0 sales "st_request_per_second t" start ticks] by auto
  obtain i where "tick_interval (st_request_per_second t) = Ok i" using tick_interval_bounds[OF assms(2)] by blast
  then have "RunRefund t (Ok sales) cs start ticks
      = Ok (refund_plan cs sales 0 n, if n = length sales then Some (SetTotalRequests (st_id t) (int n)) else None)"
    using n(1) assms(1) by (simp add: RunRefund_def refund_plan_def)
  moreover have "RunRefund (t\<lparr>st_request_per_second := 0\<rparr>) (Ok sales) cs start ticks = panic"
    using assms(1) by (simp add: RunRefund_def tick_interval_def go_div_def)
  ultimately show ?thesis using n(2,3) by blast
qed

theorem refund_sends_each_sale_once_witness:
  "\<exists>n. n \<le> 3 \<and> (\<exists>w. RunRefund one_second_test (Ok [''s1'', ''s2'', ''s3'']) [''a'', ''b''] 0 [2000000000]
       = Ok (refund_plan [''a'', ''b''] [''s1'', ''s2'', ''s3''] 0 n, w))"
proof -
  have "0 < st_request_per_second one_second_test" by (simp add: one_second_test_def)
  from refund_sends_each_sale_once[OF _ this, of "[''a'', ''b'']" "[''s1'', ''s2'', ''s3'']" 0 "[2000000000]"]
  obtain n w where "RunRefund one_second_test (Ok [''s1'', ''s2'', ''s3'']) [''a'', ''b''] 0 [2000000000]
      = Ok (refund_plan [''a'', ''b''] [''s1'', ''s2'', ''s3''] 0 n, w)" "n \<le> length [''s1'', ''s2'', ''s3'']"
    by blast
  then show ?thesis by (intro exI [of _ n]) auto
qed

text \<open>
  The duration of a test is exact up to 9223372036 seconds; a longer one, which \<open>CreateTest\<close>
  accepts, wraps to a negative timeout, so that the test ends before it has sent anything.
\<close>

theorem test_timeout_wraps:
  "(0 < secs \<and> secs \<le> 9223372036 \<longrightarrow> test_timeout secs = secs * 10 ^ 9) \<and> test_timeout 9223372037 < 0"
  by (auto simp: test_timeout_def wrap64_def)

theorem test_timeout_wraps_witness: "test_timeout 60 = 60 * 10 ^ 9"
  using test_timeout_wraps[of 60] by simp

end
