(* ===== verification/Runner.thy ===== *)
theory Runner
  imports Stress_Run
begin

text \<open>
  \<open>runner/stresstest_runner.go\<close> and \<open>CreateTest\<close> and \<open>GetTestResults\<close> of
  \<open>handlers/test_handler.go\<close>: validation of a test, the reservation of the one runner by
  concurrent requests, the rendezvous on the unbuffered \<open>StressChannel\<close>, and the answers.
\<close>

section \<open>Validation\<close>

definition TestTypeSale :: string where "TestTypeSale = ''sale''"
definition TestTypeRefund :: string where "TestTypeRefund = ''refund''"

datatype http_error = HttpError nat string string \<comment> \<open>status, code, message\<close>

definition bad_request :: "string \<Rightarrow> http_error" where
  "bad_request msg = HttpError 400 ''invalid_request'' msg"

text \<open>The decoded body; \<open>None\<close> is a body that is not JSON.\<close>

definition check_type :: "StressTest \<Rightarrow> http_error + StressTest" where
  "check_type t =
     (if st_test_type t = [] then Inr (t\<lparr>st_test_type := TestTypeSale\<rparr>)
      else if st_test_type t = TestTypeSale then Inr t
      else if st_test_type t = TestTypeRefund then
        if st_source_test_id t \<le> 0 then Inl (bad_request ''source_test_id is required for refund tests'') else Inr t
      else Inl (bad_request ''test_type must be sale or refund''))"

definition check_rate :: "StressTest \<Rightarrow> http_error + StressTest" where
  "check_rate t =
     (if st_request_per_second t \<le> 0 \<or> st_test_type t = TestTypeSale \<and> st_test_time_secs t \<le> 0
      then Inl (bad_request ''test_time_secs and request_per_second must be greater than 0'') else Inr t)"

definition check_mode :: "StressTest \<Rightarrow> http_error + StressTest" where
  "check_mode t =
     (if st_node_test_mode t = [] then Inr (t\<lparr>st_node_test_mode := NodeTestModeAdvertised\<rparr>)
      else if st_node_test_mode t \<in> {NodeTestModeAdvertised, NodeTestModeRoundRobin} then Inr t
      else Inl (bad_request ''node_test_mode must be advertised or round_robin''))"

definition check_request :: "StressTest option \<Rightarrow> http_error + StressTest" where
  "check_request body =
     (case body of
        None \<Rightarrow> Inl (HttpError 400 ''Invalid JSON'' [])
      | Some t \<Rightarrow>
          (case check_type t of Inl e \<Rightarrow> Inl e | Inr t \<Rightarrow>
           case check_rate t of Inl e \<Rightarrow> Inl e | Inr t \<Rightarrow> check_mode t))"

definition valid_test :: "StressTest \<Rightarrow> bool" where
  "valid_test t \<longleftrightarrow>
     0 < st_request_per_second t
     \<and> st_node_test_mode t \<in> {NodeTestModeAdvertised, NodeTestModeRoundRobin}
     \<and> (st_test_type t = TestTypeSale \<and> 0 < st_test_time_secs t
        \<or> st_test_type t = TestTypeRefund \<and> 0 < st_source_test_id t)"

section \<open>The runner and the requests\<close>

datatype handler_pc =
    Reserving StressTest
  | Creating StressTest \<comment> \<open>holds the reservation\<close>
  | Releasing \<comment> \<open>the insert failed\<close>
  | Sending StressTest
  | Answered "http_error + StressTest"

datatype runner_pc = Receiving | Running StressTest | Finishing

record runner =
  busy :: bool
  handlers :: "handler_pc list"
  run_loop :: runner_pc
  run_db :: database
  started :: "StressTest list"

definition new_runner :: "database \<Rightarrow> runner" where
  "new_runner d = \<lparr>busy = False, handlers = [], run_loop = Receiving, run_db = d, started = []\<rparr>"

text \<open>\<open>CompareAndSwap(false, true)\<close>.\<close>

definition Reserve :: "runner \<Rightarrow> bool \<times> runner" where
  "Reserve r = (if busy r then (False, r) else (True, r\<lparr>busy := True\<rparr>))"

definition Release :: "runner \<Rightarrow> runner" where
  "Release r = r\<lparr>busy := False\<rparr>"

datatype runner_label =
    Request "StressTest option" \<comment> \<open>a request arrives and is validated\<close>
  | TryReserve nat
  | Create nat int bool \<comment> \<open>the insert, at a time, and whether it succeeds\<close>
  | GiveUp nat
  | Send nat \<comment> \<open>the rendezvous on \<open>StressChannel\<close>\<close>
  | FinishTest
  | RunnerRelease

definition set_handler :: "nat \<Rightarrow> handler_pc \<Rightarrow> runner \<Rightarrow> runner" where
  "set_handler i h r = r\<lparr>handlers := (handlers r)[i := h]\<rparr>"

fun runner_exec :: "runner_label \<Rightarrow> runner \<Rightarrow> runner option" where
  "runner_exec (Request body) r =
     Some (r\<lparr>handlers := handlers r @
       [case check_request body of Inl e \<Rightarrow> Answered (Inl e) | Inr t \<Rightarrow> Reserving t]\<rparr>)"
| "runner_exec (TryReserve i) r =
     (if length (handlers r) \<le> i then None
      else case handlers r ! i of
        Reserving t \<Rightarrow>
          Some (case Reserve r of
                  (True, r') \<Rightarrow> set_handler i (Creating t) r'
                | (False, r') \<Rightarrow> set_handler i (Answered (Inl (HttpError 409 ''test_in_progress'' ''a stress test is already running''))) r')
      | _ \<Rightarrow> None)"
| "runner_exec (Create i now ok) r =
     (if length (handlers r) \<le> i then None
      else case handlers r ! i of
        Creating t \<Rightarrow>
          Some (if ok then
                  (case CreateStressTest now (st_name t) (st_test_time_secs t) (st_request_per_second t)
                          (st_node_test_mode t) (st_test_type t) (st_source_test_id t) (run_db r) of
                     (d, t') \<Rightarrow> set_handler i (Sending t') (r\<lparr>run_db := d\<rparr>))
                else set_handler i Releasing r)
      | _ \<Rightarrow> None)"
| "runner_exec (GiveUp i) r =
     (if length (handlers r) \<le> i then None
      else case handlers r ! i of
        Releasing \<Rightarrow>
          Some (set_handler i (Answered (Inl (HttpError 500 ''db_error'' ''failed to create stress test''))) (Release r))
      | _ \<Rightarrow> None)"
| "runner_exec (Send i) r =
     (if length (handlers r) \<le> i then None
      else case (handlers r ! i, run_loop r) of
        (Sending t, Receiving) \<Rightarrow>
          Some (set_handler i (Answered (Inr t)) r\<lparr>run_loop := Running t, started := started r @ [t]\<rparr>)
      | _ \<Rightarrow> None)"
| "runner_exec FinishTest r =
     (case run_loop r of Running t \<Rightarrow> Some (r\<lparr>run_loop := Finishing\<rparr>) | _ \<Rightarrow> None)"
| "runner_exec RunnerRelease r =
     (case run_loop r of Finishing \<Rightarrow> Some (Release r\<lparr>run_loop := Receiving\<rparr>) | _ \<Rightarrow> None)"

text \<open>What the runner does with a test: \<open>RunRefund\<close> for a refund test, else \<open>RunStress\<close>.\<close>

definition HandleChannelEvents ::
    "StressTest \<Rightarrow> (string, 'r list) result \<Rightarrow> 'c list \<Rightarrow> int \<Rightarrow> 'c stress_event list \<Rightarrow> int list
     \<Rightarrow> (string, 'c list \<times> writeOp option) result" where
  "HandleChannelEvents t sales cs start es ticks =
     (if st_test_type t = TestTypeRefund
      then bindR (RunRefund t sales cs start ticks) (\<lambda>(out, w). Ok (map fst out, w))
      else bindR (RunStress t start es) (\<lambda>(st, w). Ok (sr_jobs st, w)))"

section \<open>One test at a time\<close>

definition holding :: "handler_pc \<Rightarrow> bool" where
  "holding h \<longleftrightarrow> (case h of Creating _ \<Rightarrow> True | Releasing \<Rightarrow> True | Sending _ \<Rightarrow> True | _ \<Rightarrow> False)"

definition holders :: "runner \<Rightarrow> nat" where
  "holders r = length (filter holding (handlers r)) + (if run_loop r = Receiving then 0 else 1)"

fun handler_ok :: "handler_pc \<Rightarrow> bool" where
  "handler_ok (Reserving t) = valid_test t"
| "handler_ok (Creating t) = valid_test t"
| "handler_ok (Sending t) = valid_test t"
| "handler_ok _ = True"

fun sending :: "handler_pc \<Rightarrow> StressTest list" where
  "sending (Sending t) = [t]"
| "sending _ = []"

definition runner_inv :: "database \<Rightarrow> runner \<Rightarrow> bool" where
  "runner_inv d0 r \<longleftrightarrow>
     holders r = (if busy r then 1 else 0)
     \<and> (\<forall>h \<in> set (handlers r). handler_ok h)
     \<and> (\<forall>t \<in> set (started r). valid_test t) \<and> (\<forall>t. run_loop r = Running t \<longrightarrow> valid_test t)
     \<and> stress_tests (run_db r) = stress_tests d0 @ started r @ concat (map sending (handlers r))"

lemma check_request_valid: "check_request body = Inr t \<Longrightarrow> valid_test t"
  by (auto simp: check_request_def check_type_def check_rate_def check_mode_def valid_test_def
      TestTypeSale_def TestTypeRefund_def split: option.splits sum.splits if_splits)

lemma filter_update:
  "i < length xs \<Longrightarrow> length (filter P (xs[i := x])) + (if P (xs ! i) then 1 else 0)
     = length (filter P xs) + (if P x then 1 else 0)"
proof (induction xs arbitrary: i)
  case (Cons y ys)
  then show ?case by (cases i) auto
qed simp

lemma concat_update_same:
  "i < length xs \<Longrightarrow> f x = f (xs ! i) \<Longrightarrow> concat (map f (xs[i := x])) = concat (map f xs)"
proof (induction xs arbitrary: i)
  case (Cons y ys)
  then show ?case by (cases i) auto
qed simp

lemma sending_holding: "sending h \<noteq> [] \<Longrightarrow> holding h"
  by (cases h) (simp_all add: holding_def)

lemma sole_holder: "i < length hs \<Longrightarrow> P (hs ! i) \<Longrightarrow> 1 \<le> length (filter P hs)"
  by (metis Suc_leI One_nat_def filter_empty_conv length_greater_0_conv nth_mem)

text \<open>When only one handler holds the reservation, it is the only one that may be sending.\<close>

lemma sole_sender:
  assumes "length (filter holding hs) \<le> 1" "i < length hs" "holding (hs ! i)"
  shows "concat (map sending hs) = sending (hs ! i)"
    and "concat (map sending (hs[i := h])) = sending h"
proof -
  have split: "hs = take i hs @ hs ! i # drop (Suc i) hs" using assms(2) by (simp add: id_take_nth_drop)
  have "length (filter holding (take i hs @ hs ! i # drop (Suc i) hs)) \<le> 1" using assms(1) split by simp
  then have "filter holding (take i hs) = []" "filter holding (drop (Suc i) hs) = []"
    using assms(3) by simp_all
  then have n: "concat (map sending (take i hs)) = []" "concat (map sending (drop (Suc i) hs)) = []"
    using sending_holding by (auto simp: filter_empty_conv)
  then show "concat (map sending hs) = sending (hs ! i)"
    using arg_cong[OF split, of "\<lambda>xs. concat (map sending xs)"] n by (simp del: concat_eq_Nil_conv)
  show "concat (map sending (hs[i := h])) = sending h"
    using n assms(2) by (simp add: upd_conv_take_nth_drop del: concat_eq_Nil_conv)
qed

lemma runner_inv_start: "runner_inv d0 (new_runner d0)"
  by (simp add: runner_inv_def new_runner_def holders_def)

lemma handlers_update_ok:
  "\<forall>h \<in> set hs. handler_ok h \<Longrightarrow> handler_ok x \<Longrightarrow> \<forall>h \<in> set (hs[i := x]). handler_ok h"
  using set_update_subset_insert[of hs i x] by auto

lemma runner_inv_step:
  assumes inv: "runner_inv d0 r" and x: "runner_exec l r = Some r'"
  shows "runner_inv d0 r'"
proof -
  have H: "holders r = (if busy r then 1 else 0)" and ok: "\<forall>h \<in> set (handlers r). handler_ok h"
    and rows: "stress_tests (run_db r) = stress_tests d0 @ started r @ concat (map sending (handlers r))"
    using inv by (simp_all add: runner_inv_def)
  show ?thesis
  proof (cases l)
    case (Request body)
    let ?h = "case check_request body of Inl e \<Rightarrow> Answered (Inl e) | Inr t \<Rightarrow> Reserving t"
    have "r' = r\<lparr>handlers := handlers r @ [?h]\<rparr>" using x Request by simp
    moreover have "handler_ok ?h" "\<not> holding ?h" "sending ?h = []"
      using check_request_valid[of body] by (cases "check_request body"; simp add: holding_def)+
    ultimately show ?thesis using inv by (simp add: runner_inv_def holders_def)
  next
    case (TryReserve i)
    then obtain t where i: "i < length (handlers r)" "handlers r ! i = Reserving t" using x by (auto split: if_splits handler_pc.splits)
    have t: "valid_test t" using ok i by (metis handler_ok.simps(1) nth_mem)
    show ?thesis
    proof (cases "busy r")
      case True
      let ?h = "Answered (Inl (HttpError 409 ''test_in_progress'' ''a stress test is already running''))"
      have r': "r' = r\<lparr>handlers := (handlers r)[i := ?h]\<rparr>"
        using x i True by (simp add: TryReserve Reserve_def set_handler_def)
      have "concat (map sending ((handlers r)[i := ?h])) = concat (map sending (handlers r))"
        using i by (intro concat_update_same) simp_all
      moreover have "length (filter holding ((handlers r)[i := ?h])) = length (filter holding (handlers r))"
        using filter_update[OF i(1), of holding ?h] i by (simp add: holding_def)
      moreover have "\<forall>h \<in> set ((handlers r)[i := ?h]). handler_ok h" by (rule handlers_update_ok[OF ok]) simp
      ultimately show ?thesis using inv by (simp add: r' runner_inv_def holders_def)
    next
      case False
      have r': "r' = r\<lparr>busy := True, handlers := (handlers r)[i := Creating t]\<rparr>"
        using x i False by (simp add: TryReserve Reserve_def set_handler_def)
      have "concat (map sending ((handlers r)[i := Creating t])) = concat (map sending (handlers r))"
        using i by (intro concat_update_same) simp_all
      moreover have "length (filter holding ((handlers r)[i := Creating t])) = length (filter holding (handlers r)) + 1"
        using filter_update[OF i(1), of holding "Creating t"] i by (simp add: holding_def)
      moreover have "\<forall>h \<in> set ((handlers r)[i := Creating t]). handler_ok h"
        by (rule handlers_update_ok[OF ok]) (simp add: t)
      ultimately show ?thesis using inv False by (simp add: r' runner_inv_def holders_def)
    qed
  next
    case (Create i now k)
    then obtain t where i: "i < length (handlers r)" "handlers r ! i = Creating t" using x by (auto split: if_splits handler_pc.splits)
    have t: "valid_test t" using ok i by (metis handler_ok.simps(2) nth_mem)
    have one: "length (filter holding (handlers r)) \<le> 1" using H by (simp add: holders_def split: if_splits)
    have hold: "holding (handlers r ! i)" using i by (simp add: holding_def)
    note s = sole_sender[OF one i(1) hold]
    have idle: "run_loop r = Receiving" "busy r" "length (filter holding (handlers r)) = 1"
      using H sole_holder[OF i(1), of holding, OF hold] by (auto simp: holders_def split: if_splits)
    show ?thesis
    proof (cases k)
      case True
      obtain d t' where c: "CreateStressTest now (st_name t) (st_test_time_secs t) (st_request_per_second t)
          (st_node_test_mode t) (st_test_type t) (st_source_test_id t) (run_db r) = (d, t')" by fastforce
      have d: "stress_tests d = stress_tests (run_db r) @ [t']" "valid_test t'"
        using c t by (auto simp: CreateStressTest_def Let_def valid_test_def)
      have r': "r' = r\<lparr>run_db := d, handlers := (handlers r)[i := Sending t']\<rparr>"
        using x i True c by (simp add: Create set_handler_def)
      have "length (filter holding ((handlers r)[i := Sending t'])) = 1"
        using filter_update[OF i(1), of holding "Sending t'"] hold idle by (simp add: holding_def)
      moreover have "\<forall>h \<in> set ((handlers r)[i := Sending t']). handler_ok h"
        by (rule handlers_update_ok[OF ok]) (simp add: d(2))
      moreover have "stress_tests d = stress_tests d0 @ started r @ concat (map sending ((handlers r)[i := Sending t']))"
        unfolding d(1) rows s(2) using s(1) i(2) by simp
      ultimately show ?thesis using inv idle by (simp add: r' runner_inv_def holders_def)
    next
      case False
      have r': "r' = r\<lparr>handlers := (handlers r)[i := Releasing]\<rparr>" using x i False by (simp add: Create set_handler_def)
      have "length (filter holding ((handlers r)[i := Releasing])) = 1"
        using filter_update[OF i(1), of holding Releasing] hold idle by (simp add: holding_def)
      moreover have "\<forall>h \<in> set ((handlers r)[i := Releasing]). handler_ok h" by (rule handlers_update_ok[OF ok]) simp
      moreover have "concat (map sending ((handlers r)[i := Releasing])) = concat (map sending (handlers r))"
        using i by (intro concat_update_same) simp_all
      ultimately show ?thesis using inv idle by (simp add: r' runner_inv_def holders_def)
    qed
  next
    case (GiveUp i)
    then have i: "i < length (handlers r)" "handlers r ! i = Releasing" using x by (auto split: if_splits handler_pc.splits)
    have hold: "holding (handlers r ! i)" using i by (simp add: holding_def)
    have idle: "run_loop r = Receiving" "busy r" "length (filter holding (handlers r)) = 1"
      using H sole_holder[OF i(1), of holding, OF hold] by (auto simp: holders_def split: if_splits)
    let ?h = "Answered (Inl (HttpError 500 ''db_error'' ''failed to create stress test''))"
    have r': "r' = r\<lparr>busy := False, handlers := (handlers r)[i := ?h]\<rparr>"
      using x i by (simp add: GiveUp set_handler_def Release_def)
    have "length (filter holding ((handlers r)[i := ?h])) = 0"
      using filter_update[OF i(1), of holding ?h] hold idle by (simp add: holding_def)
    moreover have "\<forall>h \<in> set ((handlers r)[i := ?h]). handler_ok h" by (rule handlers_update_ok[OF ok]) simp
    moreover have "concat (map sending ((handlers r)[i := ?h])) = concat (map sending (handlers r))"
      using i by (intro concat_update_same) simp_all
    ultimately show ?thesis using inv idle by (simp add: r' runner_inv_def holders_def)
  next
    case (Send i)
    then obtain t where i: "i < length (handlers r)" "handlers r ! i = Sending t" "run_loop r = Receiving"
      using x by (auto split: if_splits handler_pc.splits runner_pc.splits)
    have t: "valid_test t" using ok i by (metis handler_ok.simps(3) nth_mem)
    have one: "length (filter holding (handlers r)) \<le> 1" using H by (simp add: holders_def split: if_splits)
    have hold: "holding (handlers r ! i)" using i by (simp add: holding_def)
    note s = sole_sender[OF one i(1) hold]
    have idle: "busy r" "length (filter holding (handlers r)) = 1"
      using H sole_holder[OF i(1), of holding, OF hold] by (auto simp: holders_def split: if_splits)
    let ?h = "Answered (Inr t)"
    have r': "r' = r\<lparr>handlers := (handlers r)[i := ?h], run_loop := Running t, started := started r @ [t]\<rparr>"
      using x i by (simp add: Send set_handler_def)
    have "length (filter holding ((handlers r)[i := ?h])) = 0"
      using filter_update[OF i(1), of holding ?h] hold idle by (simp add: holding_def)
    moreover have "\<forall>h \<in> set ((handlers r)[i := ?h]). handler_ok h" by (rule handlers_update_ok[OF ok]) simp
    ultimately show ?thesis using inv idle t i s by (simp add: r' runner_inv_def holders_def)
  qed (use x inv in \<open>auto simp: runner_inv_def holders_def Release_def split: runner_pc.splits if_splits\<close>)
qed

interpretation one_runner: invariant_system runner_exec "\<lambda>r. r = new_runner d0" "runner_inv d0" for d0
  by unfold_locales (auto intro: runner_inv_start runner_inv_step)

section \<open>Progress of a request\<close>

text \<open>A handler that holds the reservation is never stuck, and its request ends.\<close>

definition waiting :: "handler_pc \<Rightarrow> nat" where
  "waiting h = (case h of Reserving _ \<Rightarrow> 3 | Creating _ \<Rightarrow> 2 | Releasing \<Rightarrow> 1 | Sending _ \<Rightarrow> 1 | Answered _ \<Rightarrow> 0)"

definition handler_work :: "runner \<Rightarrow> nat" where
  "handler_work r = sum_list (map waiting (handlers r))"

definition handler_step :: "runner_label \<Rightarrow> bool" where
  "handler_step l = (case l of TryReserve _ \<Rightarrow> True | Create _ _ _ \<Rightarrow> True | GiveUp _ \<Rightarrow> True | Send _ \<Rightarrow> True | _ \<Rightarrow> False)"

definition all_answered :: "runner \<Rightarrow> bool" where
  "all_answered r \<longleftrightarrow> (\<forall>h \<in> set (handlers r). waiting h = 0)"

lemma set_handler_work:
  "i < length (handlers r) \<Longrightarrow> waiting h < waiting (handlers r ! i) \<Longrightarrow> handlers r' = (handlers r)[i := h] \<Longrightarrow>
     handler_work r' < handler_work r"
proof -
  assume i: "i < length (handlers r)" and w: "waiting h < waiting (handlers r ! i)" and r': "handlers r' = (handlers r)[i := h]"
  have "handlers r = take i (handlers r) @ handlers r ! i # drop (Suc i) (handlers r)" using i by (simp add: id_take_nth_drop)
  then have "handler_work r = sum_list (map waiting (take i (handlers r))) + waiting (handlers r ! i)
      + sum_list (map waiting (drop (Suc i) (handlers r)))"
    unfolding handler_work_def by (metis (no_types, lifting) add.assoc list.simps(9) map_append sum_list.Cons sum_list_append)
  moreover have "handler_work r' = sum_list (map waiting (take i (handlers r))) + waiting h
      + sum_list (map waiting (drop (Suc i) (handlers r)))"
    unfolding handler_work_def r' using i by (simp add: upd_conv_take_nth_drop)
  ultimately show ?thesis using w by simp
qed

lemma handler_step_decreases:
  assumes "handler_step l" "runner_exec l r = Some r'"
  shows "handler_work r' < handler_work r"
proof -
  have "\<exists>i h. i < length (handlers r) \<and> waiting h < waiting (handlers r ! i) \<and> handlers r' = (handlers r)[i := h]"
  proof (cases l)
    case (TryReserve i)
    with assms show ?thesis
      by (intro exI [of _ i] exI [of _ "handlers r' ! i"])
         (auto simp: Reserve_def set_handler_def waiting_def split: if_splits handler_pc.splits)
  next
    case (Create i now ok)
    with assms show ?thesis
      by (intro exI [of _ i] exI [of _ "handlers r' ! i"])
         (auto simp: set_handler_def waiting_def CreateStressTest_def Let_def split: if_splits handler_pc.splits)
  next
    case (GiveUp i)
    with assms show ?thesis
      by (intro exI [of _ i] exI [of _ "handlers r' ! i"])
         (auto simp: set_handler_def waiting_def Release_def split: if_splits handler_pc.splits)
  next
    case (Send i)
    with assms show ?thesis
      by (intro exI [of _ i] exI [of _ "handlers r' ! i"])
         (auto simp: set_handler_def waiting_def split: if_splits handler_pc.splits runner_pc.splits)
  qed (use assms in \<open>simp_all add: handler_step_def\<close>)
  then show ?thesis using set_handler_work by blast
qed

lemma sending_meets_runner:
  assumes "runner_inv d0 r" "i < length (handlers r)" "holding (handlers r ! i)"
  shows "run_loop r = Receiving \<and> busy r"
  using assms sole_holder[of i "handlers r" holding] by (auto simp: runner_inv_def holders_def split: if_splits)

lemma handler_step_enabled:
  assumes "runner_inv d0 r" "\<not> all_answered r"
  shows "\<exists>l r'. handler_step l \<and> runner_exec l r = Some r'"
proof -
  obtain i where i: "i < length (handlers r)" "waiting (handlers r ! i) \<noteq> 0"
    using assms(2) by (auto simp: all_answered_def in_set_conv_nth)
  show ?thesis
  proof (cases "handlers r ! i")
    case (Reserving t)
    with i show ?thesis by (intro exI [of _ "TryReserve i"]) (simp add: handler_step_def)
  next
    case (Creating t)
    with i show ?thesis by (intro exI [of _ "Create i 0 False"]) (simp add: handler_step_def)
  next
    case Releasing
    with i show ?thesis by (intro exI [of _ "GiveUp i"]) (simp add: handler_step_def)
  next
    case (Sending t)
    then have "run_loop r = Receiving" using sending_meets_runner[OF assms(1) i(1)] by (simp add: holding_def)
    with Sending i show ?thesis by (intro exI [of _ "Send i"]) (simp add: handler_step_def)
  qed (use i in \<open>simp add: waiting_def\<close>)
qed

interpretation requests: progress_system runner_exec "\<lambda>r. r = new_runner d0" "runner_inv d0"
    handler_step handler_work all_answered for d0
  by unfold_locales (erule (1) handler_step_decreases, erule (1) handler_step_enabled)

section \<open>Results over HTTP\<close>

datatype results_answer = Results StressTestResults | ResultsError http_error

text \<open>\<open>strconv.Atoi\<close> of the path value; \<open>db_ok\<close> is whether the queries run.\<close>

definition GetTestResults :: "bool \<Rightarrow> database \<Rightarrow> string list \<Rightarrow> int \<Rightarrow> string \<Rightarrow> (string, results_answer) result" where
  "GetTestResults db_ok d mtis now path_id =
     (case ParseInt path_id of
        (_, Some _) \<Rightarrow> Ok (ResultsError (bad_request ''stress test id must be a number''))
      | (i, None) \<Rightarrow>
          if \<not> db_ok then Ok (ResultsError (HttpError 500 ''db_error'' ''failed to read stress test results''))
          else
            case GetStressTestResults d i mtis now of
              Inl Panic \<Rightarrow> panic
            | Inl (Err e) \<Rightarrow>
                Ok (ResultsError
                  (if e = ''sql: no rows in result set'' then HttpError 404 ''not_found'' (''no stress test with id '' @ itoa i)
                   else HttpError 500 ''db_error'' ''failed to read stress test results''))
            | Inr res \<Rightarrow> Ok (Results res))"

section \<open>Properties\<close>

text \<open>
  C26: A test request is accepted exactly when its type, rate, duration, source and mode are
  right, after empty ones have been set to their defaults, and what is accepted never makes a
  generator skip it or divide by zero.
\<close>

theorem request_validation:
  "((\<exists>t'. check_request (Some t) = Inr t')
     \<longleftrightarrow> valid_test (t\<lparr>st_test_type := if st_test_type t = [] then TestTypeSale else st_test_type t,
                       st_node_test_mode := if st_node_test_mode t = [] then NodeTestModeAdvertised else st_node_test_mode t\<rparr>))
   \<and> (\<forall>t'. check_request (Some t) = Inr t' \<longrightarrow>
        (\<exists>i. tick_interval (st_request_per_second t') = Ok i)
        \<and> (st_test_type t' \<noteq> TestTypeRefund \<longrightarrow> 0 < st_test_time_secs t'))"
proof
  show "(\<exists>t'. check_request (Some t) = Inr t')
     \<longleftrightarrow> valid_test (t\<lparr>st_test_type := if st_test_type t = [] then TestTypeSale else st_test_type t,
                       st_node_test_mode := if st_node_test_mode t = [] then NodeTestModeAdvertised else st_node_test_mode t\<rparr>)"
    by (auto simp: check_request_def check_type_def check_rate_def check_mode_def valid_test_def TestTypeSale_def
        TestTypeRefund_def NodeTestModeAdvertised_def NodeTestModeRoundRobin_def split: if_splits)
  show "\<forall>t'. check_request (Some t) = Inr t' \<longrightarrow> (\<exists>i. tick_interval (st_request_per_second t') = Ok i)
        \<and> (st_test_type t' \<noteq> TestTypeRefund \<longrightarrow> 0 < st_test_time_secs t')"
    using check_request_valid tick_interval_bounds by (auto simp: valid_test_def) blast+
qed

theorem request_validation_witness: "\<exists>t'. check_request (Some one_second_test) = Inr t'"
  using request_validation[of one_second_test]
  by (simp add: one_second_test_def valid_test_def TestTypeSale_def NodeTestModeRoundRobin_def)

text \<open>
  C10: Under every interleaving of requests and the runner at most one test is reserved or
  running, every test started has been validated, and the tests in the database are exactly
  those started or about to be: a request turned away with a conflict leaves no row. A handler
  that sends to the channel finds the runner waiting.
\<close>

theorem one_test_at_a_time:
  assumes "reachable runner_exec (\<lambda>r. r = new_runner d0) r"
  shows "holders r \<le> 1 \<and> (busy r \<longleftrightarrow> holders r = 1)
         \<and> (\<forall>t \<in> set (started r). valid_test t)
         \<and> stress_tests (run_db r) = stress_tests d0 @ started r @ concat (map sending (handlers r))
         \<and> (\<forall>i t. i < length (handlers r) \<and> handlers r ! i = Sending t \<longrightarrow> runner_exec (Send i) r \<noteq> None)"
proof -
  have inv: "runner_inv d0 r" using one_runner.inv_reachable[OF assms] .
  have "runner_exec (Send i) r \<noteq> None" if "i < length (handlers r)" "handlers r ! i = Sending t" for i t
    using sending_meets_runner[OF inv that(1)] that by (simp add: holding_def)
  with inv show ?thesis by (auto simp: runner_inv_def)
qed

definition sale_request :: StressTest where
  "sale_request = one_second_test\<lparr>st_id := 0, st_name := ''t''\<rparr>"

definition two_requests :: "runner_label list" where
  "two_requests = [Request (Some sale_request), Request (Some sale_request), TryReserve 0, TryReserve 1,
     Create 0 5 True, Send 0]"

definition after_two_requests :: runner where
  "after_two_requests =
     (let t = sale_request\<lparr>st_id := 1, st_created_at := 5\<rparr> in
      \<lparr>busy = True,
       handlers = [Answered (Inr t), Answered (Inl (HttpError 409 ''test_in_progress'' ''a stress test is already running''))],
       run_loop = Running t, run_db = empty_db\<lparr>stress_tests := [t], stress_seq := 1\<rparr>, started = [t]\<rparr>)"

lemma two_requests_run: "run runner_exec two_requests (new_runner empty_db) = Some after_two_requests"
proof -
  have "check_request (Some sale_request) = Inr sale_request"
    by (simp add: check_request_def check_type_def check_rate_def check_mode_def sale_request_def one_second_test_def
        TestTypeSale_def NodeTestModeRoundRobin_def)
  then show ?thesis
    by (simp add: two_requests_def new_runner_def Reserve_def set_handler_def CreateStressTest_def Let_def
        after_two_requests_def)
       (simp add: sale_request_def one_second_test_def empty_db_def)
qed

theorem one_test_at_a_time_witness:
  "holders after_two_requests = 1 \<and> length (stress_tests (run_db after_two_requests)) = 1"
  using one_test_at_a_time[OF reachable_from_start[of "\<lambda>r. r = new_runner empty_db", OF refl two_requests_run]]
  by (simp add: after_two_requests_def Let_def holders_def holding_def empty_db_def)

text \<open>
  C25: Every request is answered: from any reachable state the handlers can run until all are
  answered, whether or not the runner moves, in no more steps than their work, and no schedule
  of handler steps is longer than that.
\<close>

theorem requests_are_answered:
  assumes "reachable runner_exec (\<lambda>r. r = new_runner d0) r"
  shows "(\<exists>ls r'. (\<forall>l \<in> set ls. handler_step l) \<and> run runner_exec ls r = Some r' \<and> all_answered r')
         \<and> (\<forall>ls r'. (\<forall>l \<in> set ls. handler_step l) \<and> run runner_exec ls r = Some r' \<longrightarrow> length ls \<le> 3 * length (handlers r))"
proof -
  have inv: "runner_inv d0 r" using one_runner.inv_reachable[OF assms] .
  have "waiting h \<le> 3" for h by (cases h) (simp_all add: waiting_def)
  then have "handler_work r \<le> 3 * length (handlers r)"
    unfolding handler_work_def using sum_list_mono[of "handlers r" waiting "\<lambda>_. 3"] by (simp add: sum_list_triv mult.commute)
  then show ?thesis
    using requests.goal_reached[OF inv] requests.worker_run_bounded[OF inv] by fastforce
qed

theorem requests_are_answered_witness:
  "\<exists>ls r'. (\<forall>l \<in> set ls. handler_step l) \<and> run runner_exec ls after_two_requests = Some r' \<and> all_answered r'"
  using requests_are_answered[OF reachable_from_start[of "\<lambda>r. r = new_runner empty_db", OF refl two_requests_run]] by blast

text \<open>
  Asking for results never panics: an id that is no number is a bad request, an unknown id
  is not found, and a known one gives its results.
\<close>

theorem results_answers:
  assumes "exact_times (test_rows d (fst (ParseInt path_id)))" "distinct mtis"
    and "set mtis = coalesce_mti ` set (test_rows d (fst (ParseInt path_id)))"
    and "length (test_rows d (fst (ParseInt path_id))) < 2 ^ 40"
  shows "\<exists>a. GetTestResults True d mtis now path_id = Ok a
           \<and> (case ParseInt path_id of
                (_, Some _) \<Rightarrow> a = ResultsError (bad_request ''stress test id must be a number'')
              | (i, None) \<Rightarrow>
                  (if GetStressTest d i = None then a = ResultsError (HttpError 404 ''not_found'' (''no stress test with id '' @ itoa i))
                   else \<exists>res. GetStressTestResults d i mtis now = Ok res \<and> a = Results res))"
proof -
  obtain i e where p: "ParseInt path_id = (i, e)" by fastforce
  show ?thesis
  proof (cases "GetStressTest d i")
    case None
    then have "GetStressTestResults d i mtis now = fail ''sql: no rows in result set''"
      by (simp add: GetStressTestResults_def)
    with p None show ?thesis by (cases e) (simp_all add: GetTestResults_def)
  next
    case (Some t)
    then obtain res where "GetStressTestResults d i mtis now = Ok res"
      using GetStressTestResults_ok[of d i t mtis now] assms p by auto
    with p Some show ?thesis by (cases e) (simp_all add: GetTestResults_def)
  qed
qed

theorem results_answers_witness:
  "GetTestResults True empty_db [] 0 ''7'' = Ok (ResultsError (HttpError 404 ''not_found'' ''no stress test with id 7''))"
proof -
  have g: "GetStressTest empty_db i = None" for i by (simp add: GetStressTest_def empty_db_def)
  have "ParseInt ''7'' = (7, None)" by (simp add: ParseInt_def ParseUint_def eval_simps)
  moreover have "test_rows empty_db i = []" for i by (simp add: test_rows_def empty_db_def)
  ultimately show ?thesis
    using results_answers[of empty_db "''7''" "[]" 0] g by (simp add: exact_times_def times_def itoa_def eval_simps)
qed

end
