(* ===== verification/Client_Handlers.thy ===== *)
theory Client_Handlers
  imports Connection Server
begin

text \<open>
  \<open>handlers/message_handler.go\<close> and \<open>handlers/client_handler.go\<close>: the network management
  messages, sending one to a client, and testing a client's connection. The connections are a
  list beside the server's table, indexed as in \<open>Server\<close>.
\<close>

section \<open>Network management messages\<close>

definition messageTemplates :: "string \<Rightarrow> (clock \<Rightarrow> string) option" where
  "messageTemplates message_type =
     (let msg = (\<lambda>tail now. ''080082200000000000000400000100000000'' @ format_mdhms now @ format_hms now @ tail) in
      if message_type = ''signon'' then Some (msg ''07100022020'')
      else if message_type = ''signoff'' then Some (msg ''07200022020'')
      else if message_type = ''echo'' then Some (msg ''27000022020'')
      else None)"

section \<open>Sending to a client\<close>

text \<open>\<open>IsoServer.SendMessage\<close>: the connection whose queue changes, or an error.\<close>

definition server_send :: "IsoServer \<Rightarrow> conn list \<Rightarrow> string \<Rightarrow> string \<Rightarrow> (string, conn list) result" where
  "server_send s cs clientId rawMsg =
     (case getConn s clientId of
        None \<Rightarrow> fail (''client not found: '' @ clientId)
      | Some i \<Rightarrow>
          if can_queue (cs ! i)
          then Ok (cs[i := queue_request \<lparr>rr_reference = [], rr_mti = [], rr_stressTestId = 0, rr_rawRequest = rawMsg\<rparr> (cs ! i)])
          else fail (''write channel full for client: '' @ clientId))"

datatype send_answer = Sent string string | SendError string

definition SendMessage ::
    "IsoServer \<Rightarrow> conn list \<Rightarrow> clock \<Rightarrow> (string \<times> string) option \<Rightarrow> send_answer \<times> conn list" where
  "SendMessage s cs now body =
     (case body of
        None \<Rightarrow> (SendError ''invalid JSON'', cs)
      | Some (client_id, message_type) \<Rightarrow>
          (case messageTemplates message_type of
             None \<Rightarrow> (SendError (''unknown message_type: '' @ message_type), cs)
           | Some msgFn \<Rightarrow>
               (case server_send s cs client_id (msgFn now) of
                  Inl (Err e) \<Rightarrow> (SendError e, cs)
                | Inl Panic \<Rightarrow> (SendError [], cs)
                | Inr cs' \<Rightarrow> (Sent client_id message_type, cs'))))"

section \<open>Testing a client\<close>

text \<open>What \<open>IsoConnection.TestConnection\<close> ends with: success, a test already in progress, or
  another error.\<close>

datatype test_outcome = TestOk bool | InProgress | TestFailed string

datatype test_answer = TestClients "string list" | TestError string

text \<open>\<open>Close\<close> returns when the connection is closed and removed.\<close>

definition Close :: "nat \<Rightarrow> IsoServer \<Rightarrow> IsoServer" where
  "Close i s =
     (let s = (case server_exec (BeginClose i) s of None \<Rightarrow> s | Some s' \<Rightarrow> s') in
      case server_exec (OnClose i) s of None \<Rightarrow> s | Some s' \<Rightarrow> s')"

text \<open>\<open>IsoServer.TestConnection\<close>: whether it closes the connection.\<close>

definition closes_after_test :: "test_outcome \<Rightarrow> bool" where
  "closes_after_test res = (case res of TestOk ok \<Rightarrow> \<not> ok | InProgress \<Rightarrow> False | TestFailed _ \<Rightarrow> True)"

definition TestClient ::
    "IsoServer \<Rightarrow> (nat \<Rightarrow> test_outcome) \<Rightarrow> (IsoServer \<Rightarrow> string list) \<Rightarrow> string list option \<Rightarrow> test_answer \<times> IsoServer" where
  "TestClient s outcome order body =
     (case body of
        None \<Rightarrow> (TestError ''body must be a JSON array of client IDs'', s)
      | Some [] \<Rightarrow> (TestError ''body must be a JSON array of client IDs'', s)
      | Some (clientId # _) \<Rightarrow>
          (case getConn s clientId of
             None \<Rightarrow> (TestError ''Client is not in the connected list'', s)
           | Some i \<Rightarrow>
               let s' = (if closes_after_test (outcome i) then Close i s else s)
               in (TestClients (GetConnectedClients (order s')), s')))"

section \<open>Properties\<close>

definition network_bits :: BitSet where "network_bits = \<lparr>data = 0x8220000000000000\<rparr>"
definition network_bits2 :: BitSet where "network_bits2 = \<lparr>data = 0x0400000100000000\<rparr>"

lemma network_keys: "field_keys network_bits (Some network_bits2) = [6, 10, 69, 95]"
  by (simp add: field_keys_def present_def has_bit_def network_bits_def network_bits2_def upto.simps)

lemma network_defs:
  "FieldDefMap bundled_spec 7 = Some (field_def (7, ''Fixed'', 10, 10))"
  "FieldDefMap bundled_spec 11 = Some (field_def (11, ''Fixed'', 6, 6))"
  "FieldDefMap bundled_spec 70 = Some (field_def (70, ''Fixed'', 3, 3))"
  "FieldDefMap bundled_spec 96 = Some (field_def (96, ''Fixed'', 8, 8))"
  by (subst bundled_lookup; simp add: bundled_rows_def)+

lemma decode_fixed:
  "FieldDefMap spec (k + 1) = Some (field_def (n, ''Fixed'', int (length v), mx)) \<Longrightarrow>
     decode_field spec k (v @ r) = Some (v, r)"
  by (simp add: decode_field_def field_def_def)

lemma network_decodes:
  assumes "length x = 10" "length y = 6" "length z = 3" "length w = 8"
  shows "decode_message bundled_spec (''080082200000000000000400000100000000'' @ x @ y @ z @ w)
    = Some ((''0800'', network_bits, Some network_bits2, [x, y, z, w]), [])"
proof -
  have h: "SetString new_BitSet ''8220000000000000'' 16 = Inr network_bits"
    "SetString new_BitSet ''0400000100000000'' 16 = Inr network_bits2"
    by (simp_all add: SetString_def ParseUint_def char_val_def new_BitSet_def network_bits_def network_bits2_def)
  have b: "has_bit network_bits 0" by (simp add: has_bit_def network_bits_def)
  have split: "''080082200000000000000400000100000000'' @ r
      = ''0800'' @ ''8220000000000000'' @ ''0400000100000000'' @ r" for r by simp
  have t: "take_str 4 (''0800'' @ r) = Some (''0800'', r)" "take_str 16 (''8220000000000000'' @ r) = Some (''8220000000000000'', r)"
    "take_str 16 (''0400000100000000'' @ r) = Some (''0400000100000000'', r)" for r
    unfolding take_str_Some by simp_all
  have d: "decode_field bundled_spec 6 (x @ r) = Some (x, r)" "decode_field bundled_spec 10 (y @ r) = Some (y, r)"
    "decode_field bundled_spec 69 (z @ r) = Some (z, r)" "decode_field bundled_spec 95 (w @ r) = Some (w, r)" for r
    using assms by (auto intro: decode_fixed simp: network_defs)
  have s: "decode_seq (decode_field bundled_spec) [6, 10, 69, 95] (x @ y @ z @ w) = Some ([x, y, z, w], [])"
    using d(4)[of "[]"] by (simp add: d)
  show ?thesis
    unfolding decode_message_def split t option.case prod.case h sum.case
    by (simp only: decode_secondary_def b if_True t option.case prod.case h sum.case network_keys s)
qed

text \<open>
  Every network management message, at any time of day, parses under the shipped
  specification into a well-formed 0800 request with the date and time in field 7, the time as
  its trace number in field 11 and its function code in field 70.
\<close>

theorem network_messages_parse:
  assumes "valid_clock now" "messageTemplates message_type = Some f"
  shows "\<exists>m. NewIso8583Message (f now) bundled_spec = Ok m \<and> wf_msg m \<and> GetMTI m = (Ok ''0800'' :: (string, string) result)
           \<and> isRequestMTI ''0800'' \<and> GetField m 6 = format_mdhms now \<and> GetField m 10 = format_hms now
           \<and> GetField m 69 = (if message_type = ''signon'' then ''071'' else if message_type = ''signoff'' then ''072'' else ''270'')"
proof -
  let ?x = "format_mdhms now" and ?y = "format_hms now"
  let ?z = "if message_type = ''signon'' then ''071'' else if message_type = ''signoff'' then ''072'' else ''270''"
  let ?t = "''080082200000000000000400000100000000'' @ ?x @ ?y @ ?z @ ''00022020''"
  have t: "f now = ?t" using assms(2) by (auto simp: messageTemplates_def Let_def split: if_splits)
  have l: "length ?x = 10" "length ?y = 6" using assms(1) by (simp_all add: length_format_mdhms length_format_hms)
  have d: "decode_message bundled_spec ?t = Some ((''0800'', network_bits, Some network_bits2, [?x, ?y, ?z, ''00022020'']), [])"
    by (rule network_decodes) (simp_all add: l)
  have "length ?t = 63" using l by simp
  then have s: "short ?t" by (simp only: short_def) simp
  let ?m = "built bundled_spec ?t network_bits (Some network_bits2) [?x, ?y, ?z, ''00022020'']"
  have "NewIso8583Message ?t bundled_spec = Ok ?m" using NewIso8583Message_refines[OF s bundled_sane] unfolding d by simp
  moreover have "GetMTI ?m = (Ok ''0800'' :: (string, string) result)" by (simp add: GetMTI_def go_slice_def built_def)
  moreover have "GetField ?m 6 = ?x" "GetField ?m 10 = ?y" "GetField ?m 69 = ?z"
    by (simp_all add: GetField_def built_def network_keys)
  moreover have "isRequestMTI ''0800''" by (simp add: isRequestMTI_def requestMTISet_def)
  ultimately show ?thesis using built_wf[OF d] unfolding t by blast
qed

definition noon :: clock where
  "noon = \<lparr>ck_month = 3, ck_day = 14, ck_hour = 12, ck_minute = 0, ck_second = 0\<rparr>"

lemma valid_noon: "valid_clock noon"
  by (simp add: noon_def valid_clock_def)

theorem network_messages_parse_witness:
  "\<exists>m f. messageTemplates ''echo'' = Some f \<and> NewIso8583Message (f noon) bundled_spec = Ok m \<and> GetField m 69 = ''270''"
proof -
  obtain f where f: "messageTemplates ''echo'' = Some f" by (simp add: messageTemplates_def Let_def)
  from network_messages_parse[OF valid_noon f] f show ?thesis by auto
qed

text \<open>
  An echo test passes against the issuer client: the client answers the test message, and
  whatever connection is waiting under the test's trace field has the read loop deliver that
  answer to the waiting test, which takes it for a success.
\<close>

theorem echo_test_round_trip:
  assumes "valid_clock now" "connTestMap c (format_mdhms now) = Some ch"
  shows "\<exists>r. client_reply (test_text (format_mdhms now)) = Ok (Some (write_frame r))
           \<and> on_frame c r t = Handle (DeliverTest ch r)
           \<and> (go_slice r 0 4 :: (string, string) result) = Ok ''0810''"
proof -
  let ?stan = "format_mdhms now"
  let ?r = "''081082200000000000000400000000000000'' @ ?stan @ ''026612361''"
  have l: "length ?stan = 10" by (rule length_format_mdhms[OF assms(1)])
  have "answerable (test_text ?stan)" by (simp add: answerable_def test_text_def is_digit_def)
  moreover have "reply_text (test_text ?stan) = ?r" by (simp add: reply_text_def test_text_def odd_digit_def char_of_def bit_0)
  ultimately have "client_reply (test_text ?stan) = Ok (Some (write_frame ?r))" by (simp add: client_reply_eval)
  moreover have "46 \<le> length ?r" "take 4 ?r = ''0810''" "take 10 (drop 36 ?r) = ?stan" using l by simp_all
  then have "on_frame c ?r t = Handle (DeliverTest ch ?r)" using assms(2) unfolding on_frame_def by simp
  moreover have "(go_slice ?r 0 4 :: (string, string) result) = Ok ''0810''" by (simp add: go_slice_def)
  ultimately show ?thesis by blast
qed

theorem echo_test_round_trip_witness:
  "\<exists>r. client_reply (test_text (format_mdhms noon)) = Ok (Some (write_frame r))
     \<and> on_frame ((newIsoConnection ''c1'' bundled_spec [] [] [] 0)\<lparr>connTestMap := [format_mdhms noon \<mapsto> 0]\<rparr>) r 7
         = Handle (DeliverTest 0 r)"
proof -
  let ?c = "(newIsoConnection ''c1'' bundled_spec [] [] [] 0)\<lparr>connTestMap := [format_mdhms noon \<mapsto> 0]\<rparr>"
  have "connTestMap ?c (format_mdhms noon) = Some 0" by simp
  from echo_test_round_trip[OF valid_noon this, of 7] show ?thesis by blast
qed

text \<open>
  A network message is reported as sent exactly when its type is known, the client is in the
  table and its write channel has room, and then it is at the end of that channel and no other
  connection changes; otherwise nothing changes.
\<close>

theorem send_message_outcome:
  "(fst (SendMessage s cs now (Some (client_id, message_type))) = Sent client_id message_type
      \<longleftrightarrow> (\<exists>f i. messageTemplates message_type = Some f \<and> getConn s client_id = Some i \<and> can_queue (cs ! i)))
   \<and> (\<forall>f i. messageTemplates message_type = Some f \<and> getConn s client_id = Some i \<and> can_queue (cs ! i)
        \<and> i < length cs \<longrightarrow>
        (let cs' = snd (SendMessage s cs now (Some (client_id, message_type))) in
           map rr_rawRequest (writeChannel (cs' ! i)) = map rr_rawRequest (writeChannel (cs ! i)) @ [f now]
           \<and> (\<forall>j. j \<noteq> i \<longrightarrow> cs' ! j = cs ! j)))
   \<and> ((\<forall>a b. fst (SendMessage s cs now body) \<noteq> Sent a b) \<longrightarrow> snd (SendMessage s cs now body) = cs)"
  by (auto simp: SendMessage_def server_send_def queue_request_def Let_def
      split: option.splits prod.splits sum.splits fault.splits if_splits)

theorem send_message_outcome_witness:
  "fst (SendMessage reconnected [newIsoConnection ''b'' bundled_spec [] [] [] 0, newIsoConnection ''a'' bundled_spec [] [] [] 0] noon (Some (''a'', ''echo'')))
     = Sent ''a'' ''echo''"
  using send_message_outcome[of reconnected "[newIsoConnection ''b'' bundled_spec [] [] [] 0, newIsoConnection ''a'' bundled_spec [] [] [] 0]" noon "''a''" "''echo''"]
  by (simp add: messageTemplates_def Let_def getConn_def reconnected_def can_queue_def newIsoConnection_def writeChannelSize_def)

text \<open>
  Testing a client closes and removes its connection exactly when the test fails for another
  reason than a test already running; the client is then no longer in the table.
\<close>

theorem failed_test_removes_client:
  assumes "server_inv s" "getConn s clientId = Some i"
  shows "(closes_after_test (outcome i) \<longrightarrow>
            getConn (snd (TestClient s outcome order (Some (clientId # others)))) clientId = None
            \<and> cs_closed (conns (snd (TestClient s outcome order (Some (clientId # others)))) ! i))
         \<and> (\<not> closes_after_test (outcome i) \<longrightarrow> snd (TestClient s outcome order (Some (clientId # others))) = s)"
proof -
  have c: "current clientId (conns s) = Some i" using assms by (simp add: server_inv_def getConn_def)
  then have i: "i < length (conns s)" "cs_remote (conns s ! i) = clientId" "\<not> cs_removed (conns s ! i)"
    using current_remote[OF c] by (auto simp: current_def split: option.splits if_splits)
  have m: "connMap s clientId = Some i" using assms(2) by (simp add: getConn_def)
  have "connMap (Close i s) clientId = None \<and> cs_closed (conns (Close i s) ! i)"
    using i m by (auto simp: Close_def Let_def removeConn_def nth_list_update)
  then show ?thesis using assms(2) by (simp add: TestClient_def getConn_def Let_def)
qed

theorem failed_test_removes_client_witness:
  "getConn (snd (TestClient reconnected (\<lambda>_. TestFailed ''timeout'') (\<lambda>_. []) (Some [''a'']))) ''a'' = None"
proof -
  have "reachable server_exec (\<lambda>s. s = NewIsoServer ''photon-client'') reconnected"
    by (rule reachable_from_start[OF refl reconnect_run])
  then have "server_inv reconnected" by (rule registry.inv_reachable)
  moreover have "getConn reconnected ''a'' = Some 1" by (simp add: getConn_def reconnected_def)
  ultimately show ?thesis
    using failed_test_removes_client[of reconnected "''a''" 1 "\<lambda>_. TestFailed ''timeout''" "\<lambda>_. []" "[]"]
    by (simp add: closes_after_test_def)
qed

end
