(* ===== verification/Exchange.thy ===== *)
theory Exchange
  imports Client_Handlers Iso_Properties
begin

text \<open>
  A request on its way to the issuer client and back: the client's answer to a message the server
  prints is matched by the read loop of the connection to the request that awaits it.
\<close>

section \<open>The reply to a printed message\<close>

lemma reply_text_append:
  "3 \<le> length a \<Longrightarrow> reply_text (a @ b) = reply_text a @ b"
  by (simp add: reply_text_def nth_append list_update_append1)

lemma reply_text_length [simp]: "length (reply_text m) = length m"
  by (simp add: reply_text_def)

lemma reply_wire:
  assumes "wf_msg m"
  shows "wf_msg (m\<lparr>message := reply_text (wire m)\<rparr>)"
    and "wire (m\<lparr>message := reply_text (wire m)\<rparr>) = reply_text (wire m)"
    and "take 4 (reply_text (wire m)) = reply_text (take 4 (message m))"
proof -
  have l: "length (take 4 (message m)) = 4" using wf_msgD(1)[OF assms] by simp
  have r: "reply_text (wire m) = reply_text (take 4 (message m)) @ ToHex (primaryBitMap m)
      @ secondary_hex (secondaryBitMap m) @ encode_seq (format_value (isoSpec m)) (body_items m)"
    unfolding wire_def using l by (intro reply_text_append) simp
  show t: "take 4 (reply_text (wire m)) = reply_text (take 4 (message m))" using l by (simp add: r)
  have "4 \<le> length (reply_text (wire m))" using l by (simp add: r)
  then show "wf_msg (m\<lparr>message := reply_text (wire m)\<rparr>)" using assms by (simp add: wf_msg_def)
  show "wire (m\<lparr>message := reply_text (wire m)\<rparr>) = reply_text (wire m)"
    using t by (simp add: wire_def[of "m\<lparr>message := reply_text (wire m)\<rparr>"] body_items_def GetField_def)
       (simp add: r body_items_def GetField_def)
qed

text \<open>The message types of the templates.\<close>

definition template_types :: "string list" where
  "template_types = [''0100'', ''0120'', ''0200'', ''0220'', ''0420'']"

lemma template_reply:
  assumes "t \<in> set template_types"
  shows "answerable (t @ u)" "isResponseMTI (reply_text t)" "\<not> isRequestMTI (reply_text t)" "reply_text t \<notin> {''0810'', ''0800''}"
  using assms
  by (auto simp: template_types_def answerable_def is_digit_def reply_text_def odd_digit_def char_of_def bit_0
      isResponseMTI_def responseMTISet_def isRequestMTI_def requestMTISet_def)

section \<open>Properties\<close>

text \<open>
  C13: A request the server writes is answered by the issuer client with a message that the read
  loop of its connection matches to it: whatever else the connection does, if the request is
  still awaited when the reply is read, exactly its entry is taken, and its row is updated with
  the response code and authorisation the request itself carried, for the client echoes them.
\<close>

theorem issuer_reply_is_matched:
  assumes "wf_msg m" "sane_lengths (isoSpec m)" "FormatIso m = Ok raw" "short raw" "take 4 raw \<in> set template_types"
    and "c_spec c = isoSpec m" "matchKey (take 4 raw) (GetField m 36) = Ok k" "sentTimes c k = Some s"
  shows "\<exists>reply. client_reply raw = Ok (Some (write_frame reply))
           \<and> on_frame c reply t = Handle (MatchResponse (take 4 reply) (GetField m 36) t
               (GetField m fieldIdxResponseCode) (GetField m fieldIdxAuthID))
           \<and> exec_task e (MatchResponse (take 4 reply) (GetField m 36) t
               (GetField m fieldIdxResponseCode) (GetField m fieldIdxAuthID)) c
               = Some (c\<lparr>sentTimes := (sentTimes c)(k := None)\<rparr>, Some (UpdateRow (GetField m 36) s t
                   (GetField m fieldIdxResponseCode) (GetField m fieldIdxAuthID)))"
proof -
  let ?r = "reply_text raw" and ?m = "m\<lparr>message := reply_text raw\<rparr>"
  have raw: "raw = wire m" using FormatIso_wire[OF assms(1)] assms(3) by (metis sum.inject(2))
  have t4: "take 4 raw = take 4 (message m)" using take_4_wire[OF assms(1)] raw by simp
  note w = reply_wire[OF assms(1), folded raw]
  have mti: "take 4 ?r = reply_text (take 4 raw)" using w(3) t4 by simp
  have len: "20 \<le> length ?r" using wf_msgD(1)[OF assms(1)] by (simp add: raw wire_def)
  have a: "answerable raw" using template_reply(1)[OF assms(5), of "drop 4 raw"] by simp
  have reply: "client_reply raw = Ok (Some (write_frame ?r))" using a by (simp add: client_reply_eval)
  have "FormatIso ?m = Ok ?r" using FormatIso_wire[OF w(1)] w(2) by simp
  moreover have "short ?r" using assms(4) by (simp add: short_def)
  ultimately have parse: "NewIso8583Message ?r (isoSpec m) = Ok ?m"
    using parse_wire[OF w(1), of "[]"] assms(2) w(2) by simp
  have "on_frame c ?r t = Handle (MatchResponse (take 4 ?r) (GetField m 36) t (GetField m fieldIdxResponseCode) (GetField m fieldIdxAuthID))"
    using len parse template_reply(2-4)[OF assms(5)] assms(6)
    by (simp add: on_frame_def mti GetField_def Let_def)
  moreover have "matchKey (take 4 ?r) (GetField m 36) = Ok k" using reply_key[OF a] assms(7) by simp
  ultimately show ?thesis using reply assms(8) by (intro exI [of _ ?r]) simp
qed

theorem issuer_reply_is_matched_witness:
  "let key = ''0200|00000000000A''; c = newIsoConnection ''node-1'' bundled_spec [] [] [] 0
         \<lparr>sentTimes := [key \<mapsto> \<lparr>sq_mti = ''0200'', sq_sentAt = 5\<rparr>]\<rparr>
   in \<forall>e. \<exists>reply. client_reply (wire sale_msg) = Ok (Some (write_frame reply))
        \<and> exec_task e (MatchResponse (take 4 reply) ''00000000000A'' 9 [] []) c
            = Some (c\<lparr>sentTimes := Map.empty\<rparr>,
                Some (UpdateRow ''00000000000A'' \<lparr>sq_mti = ''0200'', sq_sentAt = 5\<rparr> 9 [] []))"
proof -
  let ?c = "newIsoConnection ''node-1'' bundled_spec [] [] [] 0
    \<lparr>sentTimes := [''0200|00000000000A'' \<mapsto> \<lparr>sq_mti = ''0200'', sq_sentAt = 5\<rparr>]\<rparr>"
  have t: "take 4 (wire sale_msg) = ''0200''"
    using take_4_wire[OF sale_wf] by (simp add: sale_simps sale_text_def)
  have k: "matchKey ''0200'' ''00000000000A'' = Ok ''0200|00000000000A''"
    by (simp add: matchKey_eval byte_def char_of_byte_def char_of_def bit_0)
  have f: "GetField sale_msg 36 = ''00000000000A''" "GetField sale_msg fieldIdxResponseCode = []"
      "GetField sale_msg fieldIdxAuthID = []"
    by (simp_all add: GetField_def sale_simps fieldIdxResponseCode_def fieldIdxAuthID_def)
  show ?thesis
    using issuer_reply_is_matched[OF sale_wf _ FormatIso_wire[OF sale_wf] sale_wire_short,
        of ?c "''0200|00000000000A''" "\<lparr>sq_mti = ''0200'', sq_sentAt = 5\<rparr>" 9]
    by (auto simp: Let_def sale_simps bundled_sane t k f template_types_def newIsoConnection_def)
qed

end
