(* ===== verification/Issuer_Client.thy ===== *)
theory Issuer_Client
  imports Matching Config Steps "HOL-Library.Multiset"
begin

text \<open>
  The issuer client of \<open>network/client/iso_client.go\<close> as a process: how it starts, and its loop with
  the goroutines that each wait before they write one reply. A read that fails ends \<open>main\<close> and with
  it every goroutine still waiting.
\<close>

section \<open>Starting\<close>

text \<open>Reading the CA file, loading the key pair and dialling are parameters: whether each succeeds.\<close>

datatype client_start = ClientFatal string | ClientPanics | Connected string int

definition client_main ::
    "(string \<rightharpoonup> string) \<Rightarrow> (string \<Rightarrow> bool) \<Rightarrow> (string \<Rightarrow> string \<Rightarrow> bool) \<Rightarrow> (string \<Rightarrow> bool) \<Rightarrow> client_start" where
  "client_main env readable keyPair dial =
     (let certPath = getEnv env ''LONGCLAW_CERT_PATH'' ''certs/'';
          serverAddr = getEnv env ''LONGCLAW_ISO_ADDR'' ''127.0.0.1:8443'' in
      case Atoi (getEnv env ''LONGCLAW_CLIENT_DELAY_MS'' ''3000'') of
        (_, Some _) \<Rightarrow> ClientFatal ''invalid LONGCLAW_CLIENT_DELAY_MS''
      | (replyDelayMs, None) \<Rightarrow>
          if \<not> readable (certPath @ ''server/ca.crt'') then ClientPanics
          else if \<not> keyPair (certPath @ ''client/client.crt'') (certPath @ ''client/client.key'') then ClientFatal ''load client cert''
          else if \<not> dial serverAddr then ClientFatal ''connect err''
          else Connected serverAddr replyDelayMs)"

text \<open>\<open>time.Millisecond * time.Duration(replyDelayMs)\<close> in nanoseconds; \<open>Sleep\<close> returns at once for what is not positive.\<close>

definition reply_delay :: "int \<Rightarrow> int" where
  "reply_delay replyDelayMs = wrap64 (1000000 * replyDelayMs)"

text \<open>Without any variable the client dials the server's default port and waits three seconds before
  each reply; a delay of more than about 292 years wraps around, and every reply goes out at once.\<close>

lemma client_defaults:
  "client_main Map.empty (\<lambda>_. True) (\<lambda>_ _. True) (\<lambda>_. True) = Connected ''127.0.0.1:8443'' 3000"
  "reply_delay 3000 = 3000000000"
  by (simp_all add: client_main_def getEnv_def reply_delay_def wrap64_def ParseInt_def ParseUint_def char_val_def)

lemma client_delay_checked_first:
  "snd (Atoi (getEnv env ''LONGCLAW_CLIENT_DELAY_MS'' ''3000'')) \<noteq> None \<Longrightarrow>
     client_main env readable keyPair dial = ClientFatal ''invalid LONGCLAW_CLIENT_DELAY_MS''"
  by (auto simp: client_main_def Let_def split: prod.split)

lemma reply_delay_wraps: "reply_delay 9223372036855 < 0"
  by (simp add: reply_delay_def wrap64_def)

section \<open>The loop and its goroutines\<close>

record issuer =
  unread :: string \<comment> \<open>what the server sends from here on\<close>
  sleeping :: "string list" \<comment> \<open>replies whose goroutine has not written yet\<close>
  written :: "string list"
  unwritten :: "string list" \<comment> \<open>replies whose write failed\<close>
  ended :: bool \<comment> \<open>\<open>main\<close> has returned\<close>
  broken :: bool \<comment> \<open>a panic\<close>

definition new_issuer :: "string \<Rightarrow> issuer" where
  "new_issuer input = \<lparr>unread = input, sleeping = [], written = [], unwritten = [], ended = False, broken = False\<rparr>"

datatype issuer_label =
    ReadMessage
  | ReadError \<comment> \<open>the stream ends, or the connection fails\<close>
  | WriteReply nat bool \<comment> \<open>a goroutine wakes up; whether its write succeeds\<close>

fun issuer_exec :: "issuer_label \<Rightarrow> issuer \<Rightarrow> issuer option" where
  "issuer_exec ReadMessage s =
     (if ended s \<or> broken s then None
      else case readLengthPrefixedMessage (unread s) of
        Inl _ \<Rightarrow> None
      | Inr (msg, rest) \<Rightarrow>
          Some (case client_reply msg of
                  Inl _ \<Rightarrow> s\<lparr>broken := True\<rparr>
                | Inr None \<Rightarrow> s\<lparr>unread := rest\<rparr>
                | Inr (Some f) \<Rightarrow> s\<lparr>unread := rest, sleeping := sleeping s @ [f]\<rparr>))"
| "issuer_exec ReadError s = (if ended s \<or> broken s then None else Some (s\<lparr>ended := True\<rparr>))"
| "issuer_exec (WriteReply j ok) s =
     (if ended s \<or> broken s \<or> length (sleeping s) \<le> j then None
      else Some (if ok then s\<lparr>sleeping := drop_at j (sleeping s), written := written s @ [sleeping s ! j]\<rparr>
                 else s\<lparr>sleeping := drop_at j (sleeping s), unwritten := unwritten s @ [sleeping s ! j]\<rparr>))"

section \<open>The replies so far\<close>

definition replies_inv :: "string \<Rightarrow> issuer \<Rightarrow> bool" where
  "replies_inv input s \<longleftrightarrow>
     \<not> broken s
     \<and> (\<exists>rs rest. client_loop (unread s) = Ok rest \<and> client_loop input = Ok (rs @ rest)
          \<and> mset rs = mset (written s) + mset (unwritten s) + mset (sleeping s))"

lemma client_loop_total: "\<exists>rs. client_loop s = Ok rs"
proof (induction s rule: client_loop.induct)
  case (1 s)
  show ?case
  proof (cases "readLengthPrefixedMessage s")
    case (Inr p)
    with 1 obtain rs where "client_loop (snd p) = Ok rs"
      by (metis client_reply_eval prod.collapse)
    with Inr show ?thesis by (cases p) (simp add: client_loop.simps[of s] client_reply_eval)
  qed (simp add: client_loop.simps[of s])
qed

lemma replies_inv_step:
  assumes "replies_inv input s" "issuer_exec l s = Some s'"
  shows "replies_inv input s'"
proof (cases l)
  case ReadMessage
  with assms(2) obtain msg rest where rd: "readLengthPrefixedMessage (unread s) = Ok (msg, rest)"
    by (auto split: if_splits sum.splits prod.splits)
  obtain rs' where rest: "client_loop rest = Ok rs'" using client_loop_total by blast
  have "client_loop (unread s) = Ok ((if answerable msg then [write_frame (reply_text msg)] else []) @ rs')"
    using rd rest by (simp add: client_loop.simps[of "unread s"] client_reply_eval)
  with assms ReadMessage rd rest show ?thesis
    by (fastforce simp: replies_inv_def client_reply_eval split: if_splits)
qed (use assms in \<open>auto simp: replies_inv_def mset_drop_at split: if_splits\<close>)

interpretation replying: invariant_system issuer_exec "\<lambda>s. s = new_issuer input" "replies_inv input" for input
proof unfold_locales
  show "replies_inv input s" if "s = new_issuer input" for s
    using that client_loop_total[of input] by (auto simp: replies_inv_def new_issuer_def)
qed (rule replies_inv_step)

section \<open>Properties\<close>

text \<open>
  C29: However its goroutines interleave, the client never panics, and the replies it has written,
  failed to write or still holds back are together exactly those its loop starts, in some order,
  for what it has read; when the server's stream has been read to its end and no goroutine waits,
  every reply of the loop has been written or its write failed, none twice.
\<close>

theorem replies_in_any_order:
  assumes "run issuer_exec ls (new_issuer input) = Some s"
  shows "\<not> broken s \<and> (\<exists>rs rest. client_loop input = Ok (rs @ rest) \<and> client_loop (unread s) = Ok rest
           \<and> mset rs = mset (written s) + mset (unwritten s) + mset (sleeping s))
         \<and> ((\<exists>e. readLengthPrefixedMessage (unread s) = fail e) \<and> sleeping s = [] \<longrightarrow>
              (\<exists>rs. client_loop input = Ok rs \<and> mset rs = mset (written s @ unwritten s)))"
proof -
  have i: "replies_inv input s" using replying.inv_run[OF refl assms] .
  then obtain rs rest where r: "client_loop (unread s) = Ok rest" "client_loop input = Ok (rs @ rest)"
    "mset rs = mset (written s) + mset (unwritten s) + mset (sleeping s)" by (auto simp: replies_inv_def)
  have "rest = []" if "readLengthPrefixedMessage (unread s) = fail e" for e
    using r(1) that by (simp add: client_loop.simps[of "unread s"])
  with i r show ?thesis by (auto simp: replies_inv_def)
qed

text \<open>Two requests, answered in the order opposite to their arrival.\<close>

theorem replies_in_any_order_witness:
  "let input = write_frame ''0800a'' @ write_frame ''0200b'' in
   \<exists>s. run issuer_exec [ReadMessage, ReadMessage, WriteReply 1 True, WriteReply 0 True, ReadError] (new_issuer input) = Some s
     \<and> written s = [write_frame ''0210b'', write_frame ''0810a'']
     \<and> (\<exists>rs. client_loop input = Ok rs \<and> mset rs = mset (written s))"
proof -
  let ?input = "write_frame ''0800a'' @ write_frame ''0200b''"
  let ?ls = "[ReadMessage, ReadMessage, WriteReply 1 True, WriteReply 0 True, ReadError]"
  have r: "readLengthPrefixedMessage ?input = Ok (''0800a'', write_frame ''0200b'')"
    "readLengthPrefixedMessage (write_frame ''0200b'') = Ok (''0200b'', [])"
    using write_frame_wraps[of "''0800a''" "write_frame ''0200b''"] write_frame_wraps[of "''0200b''" "[]"] by simp_all
  have c: "client_reply ''0800a'' = Ok (Some (write_frame ''0810a''))" "client_reply ''0200b'' = Ok (Some (write_frame ''0210b''))"
    by (simp_all add: client_reply_eval answerable_def is_digit_def reply_text_def odd_digit_def char_of_def bit_0)
  define s where "s = \<lparr>unread = [], sleeping = [], written = [write_frame ''0210b'', write_frame ''0810a''], unwritten = [],
    ended = True, broken = False\<rparr>"
  have "run issuer_exec ?ls (new_issuer ?input) = Some s"
    by (simp add: new_issuer_def r c drop_at_def s_def)
  with replies_in_any_order[OF this] show ?thesis
    unfolding Let_def by (intro exI[of _ s]) (simp add: s_def read_short)
qed

end
