(* ===== verification/System_Info.thy ===== *)
theory System_Info
  imports Go_Float
begin

text \<open>
  \<open>handlers/system_handler.go\<close> and \<open>dtos/system_info.go\<close>: the figures of the host. What the
  lookups of the library return is a parameter, \<open>None\<close> where a lookup fails.
\<close>

record RAM =
  ram_total :: rat
  ram_used :: rat
  ram_unit :: string

record Disk =
  disk_total :: rat
  disk_used :: rat
  disk_unit :: string

record CPU =
  cpu_model :: string
  cpu_cores :: int
  cpu_usage :: rat

record Uptime =
  Days :: int
  Hours :: int
  Minutes :: int

record SystemInfo =
  Hostname :: string
  OS :: string
  Kernel :: string
  Arch :: string
  MemoryUsage :: RAM
  DiskUsage :: Disk
  ProcUsage :: CPU
  SysUptime :: Uptime

record host_info =
  hi_hostname :: string
  hi_platform :: string
  hi_platform_version :: string
  hi_kernel :: string
  hi_uptime :: nat \<comment> \<open>seconds, a \<open>uint64\<close>\<close>

record lookups =
  lk_arch :: string
  lk_cores :: int
  lk_host :: "host_info option"
  lk_memory :: "(nat \<times> nat) option" \<comment> \<open>total and used bytes\<close>
  lk_disk :: "(nat \<times> nat) option"
  lk_models :: "string list option"
  lk_percent :: "rat list option"

text \<open>\<open>Duration.Hours\<close> and \<open>Duration.Minutes\<close>: whole units, and the rest as a fraction.\<close>

definition in_units :: "int \<Rightarrow> int \<Rightarrow> rat" where
  "in_units unit d =
     f64_add (f64_of_int (sgn d * (\<bar>d\<bar> div unit))) (f64_div (f64_of_int (sgn d * (\<bar>d\<bar> mod unit))) (of_int unit))"

definition hours_of :: "int \<Rightarrow> rat" where "hours_of = in_units (3600 * 10 ^ 9)"
definition minutes_of :: "int \<Rightarrow> rat" where "minutes_of = in_units (60 * 10 ^ 9)"

text \<open>\<open>time.Duration(uptime) * time.Second\<close>, and the three figures with Go's \<open>/\<close> and \<open>%\<close>.\<close>

definition uptime_duration :: "nat \<Rightarrow> int" where
  "uptime_duration up = wrap64 (wrap64 (int up) * 10 ^ 9)"

definition quot_rem :: "int \<Rightarrow> int \<Rightarrow> int \<times> int" where
  "quot_rem a b = (sgn a * (\<bar>a\<bar> div b), sgn a * (\<bar>a\<bar> mod b))"

definition system_uptime :: "nat \<Rightarrow> Uptime" where
  "system_uptime up =
     (let d = uptime_duration up in
      \<lparr>Days = fst (quot_rem (int_of_f64 (hours_of d)) 24),
       Hours = snd (quot_rem (int_of_f64 (hours_of d)) 24),
       Minutes = snd (quot_rem (int_of_f64 (minutes_of d)) 60)\<rparr>)"

definition gigabytes :: "nat \<Rightarrow> rat" where
  "gigabytes n = f64_div (f64_of_int (int n)) (1024 * 1024 * 1024)"

definition empty_info :: SystemInfo where
  "empty_info =
     \<lparr>Hostname = [], OS = [], Kernel = [], Arch = [],
      MemoryUsage = \<lparr>ram_total = 0, ram_used = 0, ram_unit = []\<rparr>,
      DiskUsage = \<lparr>disk_total = 0, disk_used = 0, disk_unit = []\<rparr>,
      ProcUsage = \<lparr>cpu_model = [], cpu_cores = 0, cpu_usage = 0\<rparr>,
      SysUptime = \<lparr>Days = 0, Hours = 0, Minutes = 0\<rparr>\<rparr>"

definition system_info :: "lookups \<Rightarrow> SystemInfo" where
  "system_info lk =
     (let s = empty_info\<lparr>Arch := lk_arch lk, ProcUsage := (ProcUsage empty_info)\<lparr>cpu_cores := lk_cores lk\<rparr>\<rparr>;
          s = (case lk_host lk of
                 Some h \<Rightarrow>
                   s\<lparr>Hostname := hi_hostname h, OS := hi_platform h @ '' '' @ hi_platform_version h, Kernel := hi_kernel h,
                     SysUptime := system_uptime (hi_uptime h)\<rparr>
               | None \<Rightarrow> s);
          s = (case lk_memory lk of
                 Some (t, u) \<Rightarrow> s\<lparr>MemoryUsage := \<lparr>ram_total = gigabytes t, ram_used = gigabytes u, ram_unit = ''GB''\<rparr>\<rparr>
               | None \<Rightarrow> s);
          s = (case lk_disk lk of
                 Some (t, u) \<Rightarrow> s\<lparr>DiskUsage := \<lparr>disk_total = gigabytes t, disk_used = gigabytes u, disk_unit = ''GB''\<rparr>\<rparr>
               | None \<Rightarrow> s);
          s = (case lk_models lk of Some (m # _) \<Rightarrow> s\<lparr>ProcUsage := (ProcUsage s)\<lparr>cpu_model := m\<rparr>\<rparr> | _ \<Rightarrow> s)
      in case lk_percent lk of Some (p # _) \<Rightarrow> s\<lparr>ProcUsage := (ProcUsage s)\<lparr>cpu_usage := p\<rparr>\<rparr> | _ \<Rightarrow> s)"

section \<open>Properties\<close>

lemma whole_units:
  assumes "0 \<le> s" "s \<le> 9223372036" "1 < k" "k \<le> 3600"
  shows "int_of_f64 (in_units (k * 10 ^ 9) (s * 10 ^ 9)) = s div k"
proof -
  define h where "h = s div k"
  define r where "r = s mod k"
  have h: "0 \<le> h" "h \<le> 9223372036" and r: "0 \<le> r" "r \<le> k - 1"
    using assms zdiv_mono2[of s 1 k] by (auto simp: h_def r_def pos_imp_zdiv_nonneg_iff zle_diff1_eq)
  have split: "sgn (s * 10 ^ 9) * (\<bar>s * 10 ^ 9\<bar> div (k * 10 ^ 9)) = h" "sgn (s * 10 ^ 9) * (\<bar>s * 10 ^ 9\<bar> mod (k * 10 ^ 9)) = r * 10 ^ 9"
    using assms(1,3) by (cases "s = 0"; simp add: h_def r_def abs_mult sgn_mult flip: mod_mult_mult2)+
  have rb: "r * 10 ^ 9 \<le> 2 ^ 53" using r(2) assms(4) by simp
  define q where "q = (of_int r / of_int k :: rat)"
  have k0: "(0 :: rat) < of_int k" using assms(3) by simp
  have q0: "0 \<le> q" using r(1) k0 by (simp add: q_def)
  have "q \<le> of_int (k - 1) / of_int k" unfolding q_def using r(2) k0 by (intro divide_right_mono) simp_all
  also have "\<dots> = 1 - 1 / of_int k" using k0 by (simp add: diff_divide_distrib)
  also have "\<dots> \<le> 1 - 1 / 3600"
  proof -
    have "(of_int k :: rat) \<le> 3600" using assms(4) by simp
    then have "(1 / 3600 :: rat) \<le> 1 / of_int k" using k0 by (intro divide_left_mono) simp_all
    then show ?thesis by simp
  qed
  finally have q1: "q \<le> 1 - 1 / 3600" .
  define x where "x = of_int h + f64 q"
  have e: "\<bar>f64 q - q\<bar> \<le> q / 2 ^ 53" by (rule f64_error[OF q0])
  have fq: "0 \<le> f64 q" by (rule f64_nonneg[OF q0])
  have "f64 q \<le> q + q / 2 ^ 53" using e unfolding abs_le_iff by linarith
  moreover have "q / 2 ^ 53 \<le> 1 / 2 ^ 53" using q1 by (intro divide_right_mono) simp_all
  ultimately have x1: "x \<le> of_int h + 1 - 1 / 3600 + 1 / 2 ^ 53" using q1 by (simp add: x_def)
  have x0: "0 \<le> x" "of_int h \<le> x" using h(1) fq by (simp_all add: x_def)
  have hr: "(of_int h :: rat) \<le> 9223372036" using h(2) by (simp add: of_int_le_numeral_iff)
  then have "x \<le> 9223372038" using x1 by simp
  then have "x / 2 ^ 53 \<le> 9223372038 / 2 ^ 53" by (intro divide_right_mono) simp_all
  moreover have "f64 x \<le> x + x / 2 ^ 53" using f64_error[OF x0(1)] unfolding abs_le_iff by linarith
  ultimately have up: "f64 x < of_int h + 1" using x1 by simp
  have lo: "of_int h \<le> f64 x" using h x0 by (intro f64_ge_int) simp_all
  have "in_units (k * 10 ^ 9) (s * 10 ^ 9) = f64 x"
  proof -
    have "f64_of_int (r * 10 ^ 9) = of_int (r * 10 ^ 9)" "f64_of_int h = of_int h"
      using rb r h by (intro f64_of_int_small; simp)+
    then show ?thesis unfolding in_units_def split f64_add_def f64_div_def x_def q_def by simp
  qed
  then show ?thesis using lo up h(1) by (simp add: int_of_f64_def h_def[symmetric] floor_eq_iff)
qed

lemma uptime_duration_small: "up \<le> 9223372036 \<Longrightarrow> uptime_duration up = int up * 10 ^ 9"
  by (simp add: uptime_duration_def wrap64_small)

text \<open>
  C40: The uptime shown is exact although it is computed in floating point: for every uptime that
  fits a \<open>Duration\<close>, up to 9223372036 seconds, its days, hours below 24 and minutes below 60 are
  those of the seconds, of which less than a minute is left over.
\<close>

theorem uptime_is_exact:
  assumes "up \<le> 9223372036"
  shows "\<exists>secs. 0 \<le> secs \<and> secs < 60 \<and> 0 \<le> Hours (system_uptime up) \<and> Hours (system_uptime up) < 24
           \<and> 0 \<le> Minutes (system_uptime up) \<and> Minutes (system_uptime up) < 60
           \<and> int up = Days (system_uptime up) * 86400 + Hours (system_uptime up) * 3600 + Minutes (system_uptime up) * 60 + secs"
proof -
  let ?u = "int up"
  have u: "0 \<le> ?u" "?u \<le> 9223372036" using assms by simp_all
  have h: "int_of_f64 (hours_of (?u * 10 ^ 9)) = ?u div 3600" "int_of_f64 (minutes_of (?u * 10 ^ 9)) = ?u div 60"
    using whole_units[OF u, of 3600] whole_units[OF u, of 60] by (simp_all add: hours_of_def minutes_of_def)
  have q: "quot_rem a b = (a div b, a mod b)" if "0 \<le> a" for a b using that by (cases "a = 0") (simp_all add: quot_rem_def)
  have "Days (system_uptime up) = ?u div 3600 div 24" "Hours (system_uptime up) = ?u div 3600 mod 24"
    "Minutes (system_uptime up) = ?u div 60 mod 60"
    by (simp_all only: system_uptime_def Let_def uptime_duration_small[OF assms] h Uptime.simps)
       (simp_all add: q pos_imp_zdiv_nonneg_iff)
  moreover have "?u = ?u div 3600 div 24 * 86400 + ?u div 3600 mod 24 * 3600 + ?u div 60 mod 60 * 60 + ?u mod 60"
  proof -
    note e = div_mult_mod_eq[symmetric]
    have "?u = ?u div 60 * 60 + ?u mod 60" by (rule e)
    moreover have "?u div 60 = ?u div 60 div 60 * 60 + ?u div 60 mod 60" by (rule e)
    moreover have "?u div 3600 = ?u div 3600 div 24 * 24 + ?u div 3600 mod 24" by (rule e)
    moreover have "?u div 60 div 60 = ?u div 3600" using zdiv_zmult2_eq[of 60 ?u 60] by simp
    ultimately show ?thesis by linarith
  qed
  ultimately show ?thesis by (intro exI [of _ "?u mod 60"]) simp
qed

theorem uptime_is_exact_witness:
  "\<exists>secs < 60. int 100000 = Days (system_uptime 100000) * 86400 + Hours (system_uptime 100000) * 3600
     + Minutes (system_uptime 100000) * 60 + secs"
  using uptime_is_exact[of 100000] by auto

text \<open>A lookup that fails leaves its own figures empty and the others as they are.\<close>

lemma failed_host:
  "lk_host lk = None \<Longrightarrow> Hostname (system_info lk) = [] \<and> SysUptime (system_info lk) = SysUptime empty_info"
  by (simp add: system_info_def empty_info_def Let_def split: option.splits list.splits prod.splits)

end
