(* ===== verification/Spec2Isabelle.thy ===== *)
theory Spec2Isabelle
  imports Iso_Properties Response_Properties Results Request_Logs Panic_Free Read_Loop Runner Exchange
    Issuer_Client System_Info
begin

text \<open>
  \<^bold>\<open>longclaw\<close> is a stress-test tool for ISO 8583 card traffic, written in Go. Clients connect
  over TLS; a test started over HTTP makes the server send requests built from templates to them,
  match their responses, log both in SQLite and report latencies. A refund test replays the
  approved sales of an earlier test. The program answers requests of its peers as an issuer
  would, and a second program, the issuer client, echoes requests back as responses.

  \<^bold>\<open>How the code is modelled.\<close> A Go \<open>string\<close> is a list of bytes, an \<open>int\<close> an integer that wraps
  at 64 bits where the code computes with it (\<open>wrap64\<close>), a bitmap a 64-bit word. A function that can
  return an error or panic returns a \<open>result\<close> (theory Prelude): every error return, slice bound
  and division is a branch. Goroutines are interleaved atomic steps (Steps): a component's state
  records what they share and where each is, a label says who moves, and a property of every
  reachable state holds under every scheduler. The clock, \<open>math/rand\<close>, the outcome of socket and
  database calls and the order in which Go ranges over a map are parameters or parts of labels.

  \<^bold>\<open>Messages\<close> (\<open>src/iso\<close>). Bit_Set, Iso_Spec and Iso_Message translate the bitmaps, the
  specification and the parser, accessors and printer. Positional and Go_Strings hold what is used
  of \<open>strconv\<close>, \<open>fmt\<close> and \<open>strings\<close>. Codec states what a prefix code is, as a locale; Iso_Codec gives
  the reference grammar of messages, interprets the locale on the field formats and proves that the
  cursor-based parser refines the grammar. Bundled_Spec holds the specification file of the
  repository; Iso_Roundtrip and Iso_Properties prove round trips, freedom from panics and
  well-formedness of what is parsed.

  \<^bold>\<open>Issuer and peer\<close> (\<open>src/network/server/iso_response_handler.go\<close>, \<open>src/network/client\<close>). Response
  translates \<open>buildResponse\<close> and its helpers; Go_Float models the double-precision operations the
  program uses, with rounding as a bound and exactness below \<open>2^53\<close>. Response_Properties shows what the
  peer reads of an answer, and when building one panics. Framing and Matching model the length
  prefix, the match keys and the client's loop.

  \<^bold>\<open>Database\<close> (\<open>src/database\<close>). Database gives the tables as lists of rows and each SQL statement
  as a function; Results the results queries and figures, Request_Logs the log as it is read back;
  Schema the DDL and migrations; Batch_Writer the queue of writes, its goroutine, transactions with
  every failure, and \<open>Close\<close>.

  \<^bold>\<open>Traffic\<close> (\<open>src/network/server\<close>, \<open>src/utils\<close>). Utils has references, cards and templates;
  Stress_Message builds a request or a refund. Connection is one client connection: read loop, write loop,
  workers, responders and echo tests, each step of each a definition that \<open>exec_task\<close> and \<open>conn_exec\<close>
  dispatch. Lifecycle abstracts it to the life cycle of references and proves by simulation that rows,
  queue and pending responses agree; Read_Loop shows the bound of the queue and how a repeated echo
  reply blocks the reader. Server models registration and \<open>Stop\<close>, the choice of nodes and the
  counters; Stress_Run the pacing of tests: how many messages each tick queues, and to which nodes.

  \<^bold>\<open>Control\<close> (\<open>src/runner\<close>, \<open>src/handlers\<close>). Runner validates test requests and models the reservation
  of the runner; Client_Handlers the network messages, message sending and client tests. Http has the routes of the
  server, matched segment by segment after percent-decoding, and what \<open>StartServer\<close> returns; System_Info the figures of the system page.

  \<^bold>\<open>The process\<close> (\<open>src/main.go\<close>, \<open>src/shutdown.go\<close>, \<open>src/internal/config\<close>). Config reads the settings;
  Startup is \<open>main\<close> up to serving. Process composes the server's registry, the connections, the batch
  writer and the main goroutine into one step relation, in which a step of one component is
  synchronised with the others it touches; Log_View is what a connection sees of the database. Shutdown
  lifts the invariants of the components to the whole: the database is the replay of what the connections
  logged, an orderly end always comes and loses at most the writes whose enqueue call was under way when
  the database closed, and a listener failing during service loses the accepted writes not yet committed. Panic_Free
  shows which single input can make a goroutine panic, and what that costs.
  Issuer_Client is the second program with its reply goroutines; Exchange follows one request to it
  and back to the connection's read loop.

  \<^bold>\<open>Interfaces.\<close> The locales are \<open>prefix_codec\<close> and \<open>exact_codec\<close> (Codec), interpreted on fields
  and frames, and \<open>invariant_system\<close> and \<open>progress_system\<close> (Steps), interpreted on the batch writer,
  the connection, the write queue, the blocked reader, the server's registry, the test runner, the
  issuer client and the whole process (its invariant, its shutdown and what it loaded).

  \<^bold>\<open>Bounds.\<close> Loops recurse structurally or with a proved measure; no definition uses fuel. The life
  cycle of references is proved for runs that hand out at most \<open>10^12\<close> references after a connection
  opened (\<open>bounded_exec\<close>), since the reference counter prints modulo \<open>10^12\<close>. The float results hold for
  amounts up to twelve digits, percentiles of fewer than \<open>2^40\<close> latencies and the rates and times of
  \<open>practical\<close> in Stress_Run.

  \<^bold>\<open>Not modelled.\<close> TLS, sockets, \<open>net/http\<close> and JSON encoding, SQLite itself, logging, the delivery of
  signals and the library that reads the host's figures: they are calls to libraries, whose outcomes
  are parameters or labels where the modelled code branches on them. In Process a stress job is a step of
  a connection that any schedule may take; the pacing of these jobs is the subject of Stress_Run.
\<close>

end
